(* ===== verification/Resp_Types.thy ===== *)
theory Resp_Types
  imports SunKV_Prelude
begin

text \<open>
  The values of the RESP protocol and their encoding: \<^verbatim>\<open>protocol/RESPType.h\<close>, \<^verbatim>\<open>RESPType.cpp\<close> and
  \<^verbatim>\<open>RESPSerializer.cpp\<close>. A null bulk string or array is \<open>None\<close>; the enumerators \<^verbatim>\<open>NULL_BULK\<close> and
  \<^verbatim>\<open>NULL_ARRAY\<close> have the values of \<^verbatim>\<open>BULK_STRING\<close> and \<^verbatim>\<open>ARRAY\<close> in the source, so they are the same here.
\<close>

section \<open>Values\<close>

datatype RESPType = SIMPLE_STRING | ERROR | INTEGER | BULK_STRING | ARRAY

abbreviation NULL_BULK :: RESPType where
  "NULL_BULK \<equiv> BULK_STRING"

abbreviation NULL_ARRAY :: RESPType where
  "NULL_ARRAY \<equiv> ARRAY"

datatype RESPValue =
    RESPSimpleString string
  | RESPError string
  | RESPInteger int
  | RESPBulkString "string option"
  | RESPArray "RESPValue list option"

fun getType :: "RESPValue \<Rightarrow> RESPType" where
  "getType (RESPSimpleString _) = SIMPLE_STRING"
| "getType (RESPError _) = ERROR"
| "getType (RESPInteger _) = INTEGER"
| "getType (RESPBulkString s) = (if s = None then NULL_BULK else BULK_STRING)"
| "getType (RESPArray vs) = (if vs = None then NULL_ARRAY else ARRAY)"

text \<open>\<^verbatim>\<open>RESPValue::isNull\<close> of the base class, and the shadowing one of the two derived classes.\<close>

definition isNull_base :: "RESPValue \<Rightarrow> bool" where
  "isNull_base v \<longleftrightarrow> getType v = NULL_BULK \<or> getType v = NULL_ARRAY"

fun isNull_derived :: "RESPValue \<Rightarrow> bool" where
  "isNull_derived (RESPBulkString s) = (s = None)"
| "isNull_derived (RESPArray vs) = (vs = None)"
| "isNull_derived _ = False"

text \<open>\<^verbatim>\<open>RESPBulkString::getValue\<close>: the value of a null bulk string is the empty string it was made with.\<close>

definition bulk_getValue :: "string option \<Rightarrow> string" where
  "bulk_getValue s = (case s of None \<Rightarrow> [] | Some s \<Rightarrow> s)"

section \<open>Encoding\<close>

definition crlf :: string where
  "crlf = [CHR 0x0D, CHR 0x0A]"

lemma length_crlf [simp]: "length crlf = 2"
  by (simp add: crlf_def)

fun encode :: "RESPValue \<Rightarrow> string" where
  "encode (RESPSimpleString value) = ''+'' @ value @ crlf"
| "encode (RESPError message) = ''-'' @ message @ crlf"
| "encode (RESPInteger value) = '':'' @ int_to_string value @ crlf"
| "encode (RESPBulkString None) = ''$-1'' @ crlf"
| "encode (RESPBulkString (Some value)) = ''$'' @ nat_to_string (length value) @ crlf @ value @ crlf"
| "encode (RESPArray None) = ''*-1'' @ crlf"
| "encode (RESPArray (Some values)) =
     ''*'' @ nat_to_string (length values) @ crlf @ concat (map encode values)"

fun join_comma :: "string list \<Rightarrow> string" where
  "join_comma [] = []"
| "join_comma [s] = s"
| "join_comma (s # ss) = s @ '', '' @ join_comma ss"

fun toString :: "RESPValue \<Rightarrow> string" where
  "toString (RESPSimpleString value) = value"
| "toString (RESPError message) = ''ERROR: '' @ message"
| "toString (RESPInteger value) = int_to_string value"
| "toString (RESPBulkString s) = (case s of None \<Rightarrow> ''(null)'' | Some value \<Rightarrow> value)"
| "toString (RESPArray None) = ''(null array)''"
| "toString (RESPArray (Some values)) = ''['' @ join_comma (map toString values) @ '']''"

section \<open>Serializer\<close>

definition serialize :: "RESPValue \<Rightarrow> string" where
  "serialize v = encode v"

definition serializeSimpleString :: "string \<Rightarrow> string" where
  "serializeSimpleString str = ''+'' @ str @ crlf"

definition serializeError :: "string \<Rightarrow> string" where
  "serializeError err = ''-'' @ err @ crlf"

definition serializeInteger :: "int \<Rightarrow> string" where
  "serializeInteger i = '':'' @ int_to_string i @ crlf"

definition serializeBulkString :: "string \<Rightarrow> string" where
  "serializeBulkString str = ''$'' @ nat_to_string (length str) @ crlf @ str @ crlf"

definition serializeNullBulkString :: string where
  "serializeNullBulkString = ''$-1'' @ crlf"

definition serializeArray :: "RESPValue option list \<Rightarrow> string" where
  "serializeArray array = ''*'' @ nat_to_string (length array) @ crlf @
     concat (map (\<lambda>item. case item of Some v \<Rightarrow> encode v | None \<Rightarrow> serializeNullBulkString) array)"

definition serializeNullArray :: string where
  "serializeNullArray = ''*-1'' @ crlf"

definition serializeStatus :: "string \<Rightarrow> string" where
  "serializeStatus status = ''+'' @ status @ crlf"

definition kSimpleStringOk :: string where
  "kSimpleStringOk = ''+OK'' @ crlf"

definition kSimpleStringPong :: string where
  "kSimpleStringPong = ''+PONG'' @ crlf"

definition kNullBulkString :: string where
  "kNullBulkString = ''$-1'' @ crlf"

text \<open>The serializer writes what the values encode to; the server relies on it for every reply.\<close>

lemma serialize_simps [simp]:
  "serializeSimpleString s = encode (RESPSimpleString s)"
  "serializeError s = encode (RESPError s)"
  "serializeInteger i = encode (RESPInteger i)"
  "serializeBulkString s = encode (RESPBulkString (Some s))"
  "serializeNullBulkString = encode (RESPBulkString None)"
  "serializeNullArray = encode (RESPArray None)"
  "kSimpleStringOk = encode (RESPSimpleString ''OK'')"
  "kSimpleStringPong = encode (RESPSimpleString ''PONG'')"
  "kNullBulkString = encode (RESPBulkString None)"
  by (simp_all add: serializeSimpleString_def serializeError_def serializeInteger_def serializeBulkString_def
      serializeNullBulkString_def serializeNullArray_def kSimpleStringOk_def kSimpleStringPong_def kNullBulkString_def)

lemma serializeArray_encode:
  "serializeArray items = encode (RESPArray (Some (map (\<lambda>x. case x of Some v \<Rightarrow> v | None \<Rightarrow> RESPBulkString None) items)))"
  by (simp add: serializeArray_def comp_def option.case_distrib [of encode] cong: option.case_cong)

lemma encode_not_Nil [simp]: "encode v \<noteq> []"
  by (cases v rule: encode.cases) simp_all

text \<open>For the base class every bulk string is null, because the enumerators coincide.\<close>

lemma isNull_base_bulk: "isNull_base (RESPBulkString (Some s))"
  by (simp add: isNull_base_def)

end
