(* ===== verification/Resp_Parser.thy ===== *)
theory Resp_Parser
  imports Resp_Types
begin

text \<open>
  The incremental parser of the server, \<^verbatim>\<open>protocol/RESPParser.cpp\<close>. The parser is a record with the
  fields of the class; the stack of open arrays has its top first. \<^verbatim>\<open>current_value_\<close> is written before
  it is read in every step, so it is a local value here. Each \<^verbatim>\<open>parse...\<close> method takes the data, the
  parser and the position and returns the result, the parser and the position after it.
  \<^verbatim>\<open>parse\<close> loops while there is data; it may run forever, which is the result \<open>None\<close>.
\<close>

section \<open>State and results\<close>

datatype ParseState =
    ST_START | ST_SIMPLE_STRING | ST_ERROR | ST_INTEGER | ST_BULK_STRING_SIZE | ST_BULK_STRING_DATA
  | ST_ARRAY_SIZE | ST_ARRAY_ELEMENT

record ParseResult =
  pr_success :: bool
  pr_complete :: bool
  pr_processed :: nat
  pr_value :: "RESPValue option"
  pr_error :: string

definition makeSuccess :: "RESPValue \<Rightarrow> nat \<Rightarrow> ParseResult" where
  "makeSuccess v n = \<lparr>pr_success = True, pr_complete = True, pr_processed = n, pr_value = Some v, pr_error = []\<rparr>"

definition makeIncomplete :: "nat \<Rightarrow> ParseResult" where
  "makeIncomplete n = \<lparr>pr_success = True, pr_complete = False, pr_processed = n, pr_value = None, pr_error = []\<rparr>"

definition makeError :: "string \<Rightarrow> ParseResult" where
  "makeError msg = \<lparr>pr_success = False, pr_complete = True, pr_processed = 0, pr_value = None, pr_error = msg\<rparr>"

record ArrayContext =
  ctx_size :: nat
  ctx_count :: nat
  ctx_elements :: "RESPValue list"

record RESPParser =
  array_stack :: "ArrayContext list"
  parse_state :: ParseState
  temp_data :: string
  bulk_size :: int
  processed_bytes :: nat

definition kMaxNestingDepth :: nat where
  "kMaxNestingDepth = 128"

definition new_RESPParser :: RESPParser where
  "new_RESPParser = \<lparr>array_stack = [], parse_state = ST_START, temp_data = [], bulk_size = 0, processed_bytes = 0\<rparr>"

definition parser_reset :: "RESPParser \<Rightarrow> RESPParser" where
  "parser_reset p = p\<lparr>parse_state := ST_START, temp_data := [], bulk_size := 0, processed_bytes := 0, array_stack := []\<rparr>"

section \<open>Helpers\<close>

fun crlf_index :: "string \<Rightarrow> nat option" where
  "crlf_index (c # d # s) =
     (if c = CHR 0x0D \<and> d = CHR 0x0A then Some 0 else map_option Suc (crlf_index (d # s)))"
| "crlf_index _ = None"

definition findCRLF :: "string \<Rightarrow> nat \<Rightarrow> nat option" where
  "findCRLF data pos = map_option (\<lambda>i. pos + i) (crlf_index (drop pos data))"

fun parse_digits :: "string \<Rightarrow> int \<Rightarrow> int option" where
  "parse_digits [] v = Some v"
| "parse_digits (c # s) v =
     (if \<not> is_digit c then None
      else let digit = int (digit_val c) in
        if v > (i64_max - digit) div 10 then None else parse_digits s (v * 10 + digit))"

text \<open>\<^verbatim>\<open>parseInteger(data, start, end)\<close> on the characters from \<open>start\<close> to \<open>end\<close>; \<^verbatim>\<open>LLONG_MAX\<close> means failure.\<close>

definition parseInteger_range :: "string \<Rightarrow> int" where
  "parseInteger_range s =
     (if s = [] then i64_max
      else let negative = (hd s = CHR ''-''); digits = (if negative then tl s else s) in
        case parse_digits digits 0 of None \<Rightarrow> i64_max | Some v \<Rightarrow> if negative then - v else v)"

text \<open>
  What every step does with a finished value: outside arrays it is the result; inside, it is added
  to the innermost array, and an array that is full is the result.
\<close>

definition deliver :: "RESPValue \<Rightarrow> RESPParser \<Rightarrow> ParseResult \<times> RESPParser" where
  "deliver v p = (case array_stack p of
      [] \<Rightarrow> (makeSuccess v (processed_bytes p), p\<lparr>parse_state := ST_START\<rparr>)
    | ctx # rest \<Rightarrow>
        let ctx = ctx\<lparr>ctx_elements := ctx_elements ctx @ [v], ctx_count := ctx_count ctx + 1\<rparr> in
        if ctx_count ctx \<ge> ctx_size ctx
        then (makeSuccess (RESPArray (Some (ctx_elements ctx))) (processed_bytes p),
              p\<lparr>array_stack := rest, parse_state := ST_START\<rparr>)
        else (makeIncomplete (processed_bytes p), p\<lparr>array_stack := ctx # rest, parse_state := ST_START\<rparr>))"

definition consume :: "nat \<Rightarrow> RESPParser \<Rightarrow> RESPParser" where
  "consume n p = p\<lparr>processed_bytes := processed_bytes p + n\<rparr>"

definition line_of :: "string \<Rightarrow> nat \<Rightarrow> nat \<Rightarrow> string" where
  "line_of data pos crlf_pos = take (crlf_pos - pos) (drop pos data)"

type_synonym step_result = "ParseResult \<times> RESPParser \<times> nat"

definition incomplete_at :: "RESPParser \<Rightarrow> nat \<Rightarrow> step_result" where
  "incomplete_at p pos = (makeIncomplete (processed_bytes p), p, pos)"

definition deliver_at :: "RESPValue \<Rightarrow> RESPParser \<Rightarrow> nat \<Rightarrow> step_result" where
  "deliver_at v p pos = (case deliver v p of (r, p) \<Rightarrow> (r, p, pos))"

section \<open>The steps\<close>

definition parseSimpleString :: "string \<Rightarrow> RESPParser \<Rightarrow> nat \<Rightarrow> step_result" where
  "parseSimpleString data p pos = (case findCRLF data pos of
      None \<Rightarrow> incomplete_at p pos
    | Some crlf_pos \<Rightarrow>
        deliver_at (RESPSimpleString (line_of data pos crlf_pos)) (consume (crlf_pos + 2 - pos) p) (crlf_pos + 2))"

definition parseError :: "string \<Rightarrow> RESPParser \<Rightarrow> nat \<Rightarrow> step_result" where
  "parseError data p pos = (case findCRLF data pos of
      None \<Rightarrow> incomplete_at p pos
    | Some crlf_pos \<Rightarrow>
        deliver_at (RESPError (line_of data pos crlf_pos)) (consume (crlf_pos + 2 - pos) p) (crlf_pos + 2))"

definition parseInteger :: "string \<Rightarrow> RESPParser \<Rightarrow> nat \<Rightarrow> step_result" where
  "parseInteger data p pos = (case findCRLF data pos of
      None \<Rightarrow> incomplete_at p pos
    | Some crlf_pos \<Rightarrow>
        let i = parseInteger_range (line_of data pos crlf_pos) in
        if i = i64_max then (makeError ''Invalid integer format'', p, pos)
        else deliver_at (RESPInteger i) (consume (crlf_pos + 2 - pos) p) (crlf_pos + 2))"

definition parseBulkStringSize :: "string \<Rightarrow> RESPParser \<Rightarrow> nat \<Rightarrow> step_result" where
  "parseBulkStringSize data p pos = (case findCRLF data pos of
      None \<Rightarrow> incomplete_at p pos
    | Some crlf_pos \<Rightarrow>
        let sz = parseInteger_range (line_of data pos crlf_pos) in
        if sz = i64_max then (makeError ''Invalid bulk string size'', p, pos)
        else if sz < -1 then (makeError ''Invalid bulk string size'', p, pos)
        else let p = consume (crlf_pos + 2 - pos) (p\<lparr>bulk_size := sz\<rparr>); pos = crlf_pos + 2 in
          if sz = -1 then deliver_at (RESPBulkString None) p pos
          else incomplete_at (p\<lparr>parse_state := ST_BULK_STRING_DATA, temp_data := []\<rparr>) pos)"

definition parseBulkStringData :: "string \<Rightarrow> RESPParser \<Rightarrow> nat \<Rightarrow> step_result" where
  "parseBulkStringData data p pos =
     (let remaining = nat (bulk_size p) - length (temp_data p); available = length data - pos in
      if available < remaining
      then incomplete_at (consume available (p\<lparr>temp_data := temp_data p @ drop pos data\<rparr>)) (length data)
      else let p = consume remaining (p\<lparr>temp_data := temp_data p @ take remaining (drop pos data)\<rparr>);
               pos = pos + remaining in
        if pos + 2 > length data then incomplete_at p pos
        else if data ! pos \<noteq> CHR 0x0D \<or> data ! (pos + 1) \<noteq> CHR 0x0A
        then (makeError ''Missing CRLF after bulk string data'', p, pos)
        else deliver_at (RESPBulkString (Some (temp_data p))) (consume 2 p) (pos + 2))"

definition parseArraySize :: "string \<Rightarrow> RESPParser \<Rightarrow> nat \<Rightarrow> step_result" where
  "parseArraySize data p pos = (case findCRLF data pos of
      None \<Rightarrow> incomplete_at p pos
    | Some crlf_pos \<Rightarrow>
        let sz = parseInteger_range (line_of data pos crlf_pos) in
        if sz = i64_max then (makeError ''Invalid array size'', p, pos)
        else if sz < -1 then (makeError ''Invalid array size'', p, pos)
        else let p = consume (crlf_pos + 2 - pos) p; pos = crlf_pos + 2 in
          if sz = -1 then deliver_at (RESPArray None) p pos
          else if sz = 0 then deliver_at (RESPArray (Some [])) p pos
          else if length (array_stack p) \<ge> kMaxNestingDepth then (makeError ''RESP nesting too deep'', p, pos)
          else incomplete_at (p\<lparr>array_stack := \<lparr>ctx_size = nat sz, ctx_count = 0, ctx_elements = []\<rparr> # array_stack p,
                 parse_state := ST_START\<rparr>) pos)"

definition parseArrayElement :: "string \<Rightarrow> RESPParser \<Rightarrow> nat \<Rightarrow> step_result" where
  "parseArrayElement data p pos = incomplete_at (p\<lparr>parse_state := ST_START\<rparr>) pos"

definition type_state :: "char \<Rightarrow> ParseState option" where
  "type_state c =
     (if c = CHR ''+'' then Some ST_SIMPLE_STRING
      else if c = CHR ''-'' then Some ST_ERROR
      else if c = CHR '':'' then Some ST_INTEGER
      else if c = CHR ''$'' then Some ST_BULK_STRING_SIZE
      else if c = CHR ''*'' then Some ST_ARRAY_SIZE
      else None)"

definition parseStart :: "string \<Rightarrow> RESPParser \<Rightarrow> nat \<Rightarrow> step_result" where
  "parseStart data p pos =
     (let type_char = data ! pos; before = processed_bytes p; p = consume 1 p in
      case type_state type_char of
        None \<Rightarrow> (makeError (''Invalid RESP type: '' @ [type_char]), p, pos + 1)
      | Some st \<Rightarrow> (makeIncomplete before, p\<lparr>parse_state := st, temp_data := []\<rparr>, pos + 1))"

definition parse_step :: "string \<Rightarrow> RESPParser \<Rightarrow> nat \<Rightarrow> step_result" where
  "parse_step data p pos = (case parse_state p of
      ST_START \<Rightarrow> parseStart data p pos
    | ST_SIMPLE_STRING \<Rightarrow> parseSimpleString data p pos
    | ST_ERROR \<Rightarrow> parseError data p pos
    | ST_INTEGER \<Rightarrow> parseInteger data p pos
    | ST_BULK_STRING_SIZE \<Rightarrow> parseBulkStringSize data p pos
    | ST_BULK_STRING_DATA \<Rightarrow> parseBulkStringData data p pos
    | ST_ARRAY_SIZE \<Rightarrow> parseArraySize data p pos
    | ST_ARRAY_ELEMENT \<Rightarrow> parseArrayElement data p pos)"

partial_function (option) parse_loop :: "string \<Rightarrow> RESPParser \<Rightarrow> nat \<Rightarrow> (ParseResult \<times> RESPParser) option" where
  "parse_loop data p pos =
     (if pos < length data then
        (case parse_step data p pos of (step, p', pos') \<Rightarrow>
           if \<not> pr_success step \<or> pr_complete step then Some (step, p') else parse_loop data p' pos')
      else Some (makeIncomplete (processed_bytes p), p))"

declare parse_loop.simps [code]

definition parse :: "string \<Rightarrow> RESPParser \<Rightarrow> (ParseResult \<times> RESPParser) option" where
  "parse data p = (if data = [] then Some (makeIncomplete 0, p) else parse_loop data p 0)"

end
