(* ===== verification/Resp_Lemmas.thy ===== *)
theory Resp_Lemmas
  imports Resp_Parser
begin

text \<open>
  Facts about the RESP parser: reading numbers and lines back, one step, progress and the states in
  which the loop cannot go on, and the parser invariant.
\<close>

section \<open>Lines and numbers\<close>

lemma crlf_index_line: "crlf_index s = None \<Longrightarrow> crlf_index (s @ crlf @ r) = Some (length s)"
proof (induction s rule: crlf_index.induct)
  case (1 c d s)
  then show ?case by (cases "c = CHR 0x0D \<and> d = CHR 0x0A") auto
qed (auto simp: crlf_def)

lemma crlf_index_bound: "crlf_index s = Some i \<Longrightarrow> i + 2 \<le> length s"
  by (induction s arbitrary: i rule: crlf_index.induct) (auto split: if_splits)

lemma crlf_index_no_cr: "CHR 0x0D \<notin> set s \<Longrightarrow> crlf_index s = None"
  by (induction s rule: crlf_index.induct) auto

lemma crlf_index_take: "crlf_index s = Some i \<Longrightarrow> n < i + 2 \<Longrightarrow> crlf_index (take n s) = None"
proof (induction s arbitrary: i n rule: crlf_index.induct)
  case (1 c d s)
  show ?case
  proof (cases "n < 2")
    case True
    then show ?thesis by (cases n; cases "n - 1") auto
  next
    case False
    then obtain m where n: "n = Suc (Suc m)" by (metis add_2_eq_Suc le_Suc_ex not_less)
    have "crlf_index (take (Suc m) (d # s)) = None" if "crlf_index (d # s) = Some j" "i = Suc j" "\<not> (c = CHR 0x0D \<and> d = CHR 0x0A)" for j
      using 1(1) [of j "Suc m"] 1(3) n that by simp
    with 1(2,3) n show ?thesis by (auto split: if_splits)
  qed
qed auto

lemma findCRLF_line: "crlf_index s = None \<Longrightarrow> findCRLF (pre @ s @ crlf @ r) (length pre) = Some (length pre + length s)"
  by (simp add: findCRLF_def crlf_index_line)

lemma findCRLF_bound: "findCRLF data pos = Some e \<Longrightarrow> pos \<le> e \<and> e + 2 \<le> length data"
proof -
  assume "findCRLF data pos = Some e"
  then obtain i where "crlf_index (drop pos data) = Some i" "e = pos + i" by (auto simp: findCRLF_def)
  with crlf_index_bound [of "drop pos data" i] show ?thesis by auto
qed

lemma line_of_line: "line_of (pre @ s @ r) (length pre) (length pre + length s) = s"
  by (simp add: line_of_def)

lemma parse_digits_val:
  "list_all is_digit s \<Longrightarrow> 0 \<le> v \<Longrightarrow> foldl (\<lambda>n c. n * 10 + int (digit_val c)) v s \<le> i64_max \<Longrightarrow>
     parse_digits s v = Some (foldl (\<lambda>n c. n * 10 + int (digit_val c)) v s)"
proof (induction s arbitrary: v)
  case (Cons c s)
  have mono: "w \<le> foldl (\<lambda>n c. n * 10 + int (digit_val c)) w t" if "0 \<le> w" for w and t
    using that
  proof (induction t arbitrary: w)
    case (Cons c t)
    have "w \<le> w * 10 + int (digit_val c)" "0 \<le> w * 10 + int (digit_val c)" using Cons.prems by auto
    with Cons.IH [of "w * 10 + int (digit_val c)"] show ?case by simp
  qed simp
  let ?w = "v * 10 + int (digit_val c)"
  have "?w \<le> i64_max" using Cons.prems mono [of ?w s] by simp
  then have "\<not> v > (i64_max - int (digit_val c)) div 10" by linarith
  with Cons show ?case by simp
qed simp

lemma foldl_digits: "foldl (\<lambda>n c. n * 10 + int (digit_val c)) (int v) s = int (foldl (\<lambda>n c. n * 10 + digit_val c) v s)"
proof (induction s arbitrary: v)
  case (Cons c s)
  from Cons [of "v * 10 + digit_val c"] show ?case by simp
qed simp

lemma parse_digits_nat: "int n \<le> i64_max \<Longrightarrow> parse_digits (nat_to_string n) 0 = Some (int n)"
  using parse_digits_val [of "nat_to_string n" 0] foldl_digits [of 0 "nat_to_string n"]
    digits_value_nat_to_string [of n]
  by (simp add: digits_value_def list_all_iff nat_to_string_digits)

lemma digit_not_minus: "is_digit c \<Longrightarrow> c \<noteq> CHR ''-'' \<and> c \<noteq> CHR 0x0D"
  by (auto simp: is_digit_def)

lemma nat_to_string_hd: "is_digit (hd (nat_to_string n))"
  using nat_to_string_digits [of "hd (nat_to_string n)" n] by simp

lemma parseInteger_nat: "int n < i64_max \<Longrightarrow> parseInteger_range (nat_to_string n) = int n"
  using digit_not_minus [OF nat_to_string_hd [of n]]
  by (simp add: parseInteger_range_def parse_digits_nat)

lemma parseInteger_int: "- i64_max \<le> i \<Longrightarrow> i < i64_max \<Longrightarrow> parseInteger_range (int_to_string i) = i"
  using parseInteger_nat [of "nat i"]
  by (auto simp: int_to_string_def parseInteger_range_def parse_digits_nat)

lemma int_to_string_line: "crlf_index (int_to_string i) = None" "crlf_index (nat_to_string n) = None"
  by (rule crlf_index_no_cr, use digit_not_minus in \<open>auto simp: int_to_string_def dest: nat_to_string_digits\<close>)+

section \<open>Progress\<close>

lemma result_simps [simp]:
  "pr_success (makeIncomplete n)" "\<not> pr_complete (makeIncomplete n)" "pr_processed (makeIncomplete n) = n"
  "pr_success (makeSuccess v n)" "pr_complete (makeSuccess v n)" "pr_processed (makeSuccess v n) = n"
  "pr_value (makeSuccess v n) = Some v" "pr_value (makeIncomplete n) = None"
  "\<not> pr_success (makeError e)" "pr_complete (makeError e)" "pr_value (makeError e) = None"
  "pr_processed (makeError e) = 0" "pr_error (makeError e) = e"
  by (simp_all add: makeIncomplete_def makeSuccess_def makeError_def)

lemma parser_simps [simp]:
  "array_stack (consume n p) = array_stack p" "parse_state (consume n p) = parse_state p"
  "temp_data (consume n p) = temp_data p" "bulk_size (consume n p) = bulk_size p"
  "processed_bytes (consume n p) = processed_bytes p + n" "consume 0 p = p"
  by (simp_all add: consume_def)

text \<open>
  The states in which a step changes nothing: a line whose end is not in the data, and a complete
  bulk string of which only one character of the final line end is there.
\<close>

definition line_state :: "ParseState \<Rightarrow> bool" where
  "line_state st \<longleftrightarrow> st \<in> {ST_SIMPLE_STRING, ST_ERROR, ST_INTEGER, ST_BULK_STRING_SIZE, ST_ARRAY_SIZE}"

definition stuck :: "string \<Rightarrow> RESPParser \<Rightarrow> nat \<Rightarrow> bool" where
  "stuck data p pos \<longleftrightarrow>
     line_state (parse_state p) \<and> findCRLF data pos = None \<or>
     parse_state p = ST_BULK_STRING_DATA \<and> nat (bulk_size p) \<le> length (temp_data p) \<and> pos + 2 > length data"

lemmas step_defs = parseStart_def parseSimpleString_def parseError_def parseInteger_def parseBulkStringSize_def
  parseBulkStringData_def parseArraySize_def parseArrayElement_def incomplete_at_def deliver_at_def

lemma stuck_step:
  "stuck data p pos \<Longrightarrow> pos < length data \<Longrightarrow> parse_step data p pos = (makeIncomplete (processed_bytes p), p, pos)"
  by (auto simp: stuck_def line_state_def parse_step_def step_defs)

definition step_size :: "string \<Rightarrow> RESPParser \<Rightarrow> nat \<Rightarrow> nat" where
  "step_size data p pos = 2 * (length data - pos) + (if parse_state p = ST_ARRAY_ELEMENT then 1 else 0)"

lemma deliver_simps:
  "deliver v p = (r, p') \<Longrightarrow> parse_state p' = ST_START \<and> processed_bytes p' = processed_bytes p \<and>
     pr_processed r = processed_bytes p \<and> pr_success r \<and> (pr_complete r \<longleftrightarrow> pr_value r \<noteq> None) \<and>
     temp_data p' = temp_data p \<and> bulk_size p' = bulk_size p \<and> length (array_stack p') \<le> length (array_stack p)"
  by (auto simp: deliver_def Let_def split: list.splits if_splits)

text \<open>Every step that does not end the call consumes input or is stuck, and accounts for what it consumes.\<close>

lemma step_progress:
  assumes "parse_step data p pos = (r, p', pos')" "pos < length data" "\<not> stuck data p pos" "\<not> pr_complete r"
  shows "step_size data p' pos' < step_size data p pos"
proof (cases "line_state (parse_state p)")
  case True
  then obtain e where e: "findCRLF data pos = Some e" using assms(3) by (auto simp: stuck_def)
  note b = findCRLF_bound [OF e]
  have "pos' = e + 2 \<and> parse_state p' \<in> {ST_START, ST_BULK_STRING_DATA}"
    using True assms(1,4) by (auto simp: line_state_def parse_step_def step_defs e Let_def
        split: if_splits prod.splits dest: deliver_simps)
  with b assms(2) True show ?thesis by (auto simp: step_size_def line_state_def)
next
  case False
  show ?thesis
  proof (cases "parse_state p")
    case ST_BULK_STRING_DATA
    let ?n = "nat (bulk_size p) - length (temp_data p)"
    consider "length data - pos < ?n" | "pos + ?n + 2 \<le> length data" | "0 < ?n" "pos + ?n \<le> length data" "pos + ?n + 2 > length data"
      using assms(2,3) ST_BULK_STRING_DATA by (fastforce simp: stuck_def)
    then have "pos < pos' \<and> pos' \<le> length data \<and> parse_state p' \<noteq> ST_ARRAY_ELEMENT"
    proof cases
      case 1
      with ST_BULK_STRING_DATA assms(1,2) show ?thesis by (auto simp: parse_step_def step_defs)
    next
      case 2
      then have "\<not> length data - pos < ?n" by arith
      with 2 ST_BULK_STRING_DATA assms(1,4) show ?thesis
        by (auto simp: parse_step_def step_defs Let_def split: if_splits prod.splits dest: deliver_simps)
    next
      case 3
      then have "\<not> length data - pos < ?n" by arith
      with 3 ST_BULK_STRING_DATA assms(1,2) show ?thesis by (auto simp: parse_step_def step_defs Let_def) arith
    qed
    then show ?thesis by (auto simp: step_size_def ST_BULK_STRING_DATA)
  next
    case ST_START
    with assms show ?thesis
      by (auto simp: parse_step_def step_defs step_size_def Let_def type_state_def split: if_splits)
  next
    case ST_ARRAY_ELEMENT
    with assms show ?thesis by (auto simp: parse_step_def step_defs step_size_def)
  qed (use False in \<open>simp_all add: line_state_def\<close>)
qed

section \<open>When the loop returns\<close>

text \<open>The states of the loop: what a step leads to if it does not end the call.\<close>

inductive parse_reaches :: "string \<Rightarrow> RESPParser \<Rightarrow> nat \<Rightarrow> RESPParser \<Rightarrow> nat \<Rightarrow> bool" for data :: string where
  here: "parse_reaches data p pos p pos"
| step: "pos < length data \<Longrightarrow> parse_step data p pos = (r, p1, pos1) \<Longrightarrow> pr_success r \<Longrightarrow> \<not> pr_complete r \<Longrightarrow>
    parse_reaches data p1 pos1 p' pos' \<Longrightarrow> parse_reaches data p pos p' pos'"

lemma loop_stuck: "stuck data p pos \<Longrightarrow> pos < length data \<Longrightarrow> parse_loop data p pos = None"
proof (rule ccontr)
  assume s: "stuck data p pos" "pos < length data" and "parse_loop data p pos \<noteq> None"
  then obtain r p' where ret: "parse_loop data p pos = Some (r, p')" by auto
  have "\<not> (stuck data p pos \<and> pos < length data)"
  proof (rule parse_loop.raw_induct [where P = "\<lambda>data p pos r. \<not> (stuck data p pos \<and> pos < length data)", OF _ ret])
    fix f data p pos y
    assume IH: "\<And>data p pos y. f data p pos = Some y \<Longrightarrow> \<not> (stuck data p pos \<and> pos < length data)"
      and eq: "(if pos < length data then case parse_step data p pos of (step, p', pos') \<Rightarrow>
          if \<not> pr_success step \<or> pr_complete step then Some (step, p') else f data p' pos'
        else Some (makeIncomplete (processed_bytes p), p)) = Some y"
    show "\<not> (stuck data p pos \<and> pos < length data)"
      using eq IH [of data p pos y] by (auto simp: stuck_step)
  qed
  with s show False by simp
qed

lemma loop_step:
  "pos < length data \<Longrightarrow> parse_step data p pos = (r, p1, pos1) \<Longrightarrow>
     parse_loop data p pos = (if \<not> pr_success r \<or> pr_complete r then Some (r, p1) else parse_loop data p1 pos1)"
  by (simp add: parse_loop.simps [of data p pos])

lemma loop_end: "length data \<le> pos \<Longrightarrow> parse_loop data p pos = Some (makeIncomplete (processed_bytes p), p)"
  by (simp add: parse_loop.simps [of data p pos])

lemma loop_reaches: "parse_reaches data p pos p' pos' \<Longrightarrow> parse_loop data p pos = parse_loop data p' pos'"
  by (induction rule: parse_reaches.induct) (auto simp: loop_step)

lemma loop_returns_or_stuck:
  "(\<exists>x. parse_loop data p pos = Some x) \<or> (\<exists>p' pos'. parse_reaches data p pos p' pos' \<and> stuck data p' pos' \<and> pos' < length data)"
proof (induction "step_size data p pos" arbitrary: p pos rule: less_induct)
  case less
  show ?case
  proof (cases "pos < length data \<and> \<not> stuck data p pos")
    case False
    then show ?thesis by (cases "pos < length data") (auto simp: loop_end, metis parse_reaches.here)
  next
    case True
    obtain r p1 pos1 where s: "parse_step data p pos = (r, p1, pos1)" by (metis prod_cases3)
    show ?thesis
    proof (cases "\<not> pr_success r \<or> pr_complete r")
      case True
      with s \<open>pos < length data \<and> _\<close> show ?thesis by (simp add: loop_step)
    next
      case False
      then have ok: "pr_success r" "\<not> pr_complete r" by simp_all
      have "parse_loop data p pos = parse_loop data p1 pos1" using True s ok by (simp add: loop_step)
      then show ?thesis
        using less [OF step_progress [OF s _ _ ok(2)]] True parse_reaches.step [OF _ s ok] by metis
    qed
  qed
qed

lemma loop_None_iff:
  "parse_loop data p pos = None \<longleftrightarrow> (\<exists>p' pos'. parse_reaches data p pos p' pos' \<and> stuck data p' pos' \<and> pos' < length data)"
  using loop_returns_or_stuck [of data p pos] loop_reaches [of data p pos] loop_stuck [of data] by fastforce

section \<open>Invariant and accounting\<close>

text \<open>
  The open arrays are not full, their counters are exact, there are at most 128 of them, and the
  bytes of a bulk string that have arrived are not more than its size.
\<close>

definition ctx_ok :: "ArrayContext \<Rightarrow> bool" where
  "ctx_ok c \<longleftrightarrow> ctx_count c = length (ctx_elements c) \<and> ctx_count c < ctx_size c"

definition parser_ok :: "RESPParser \<Rightarrow> bool" where
  "parser_ok p \<longleftrightarrow> list_all ctx_ok (array_stack p) \<and> length (array_stack p) \<le> kMaxNestingDepth \<and>
     (parse_state p = ST_BULK_STRING_DATA \<longrightarrow> 0 \<le> bulk_size p \<and> length (temp_data p) \<le> nat (bulk_size p)) \<and>
     parse_state p \<noteq> ST_ARRAY_ELEMENT"

lemma new_parser_ok [simp]: "parser_ok new_RESPParser" "parser_reset p = new_RESPParser"
  by (simp_all add: parser_ok_def new_RESPParser_def parser_reset_def)

lemma parser_ok_consume [simp]: "parser_ok (consume n p) = parser_ok p"
  by (simp add: parser_ok_def)

lemma deliver_ok: "list_all ctx_ok (array_stack p) \<Longrightarrow> length (array_stack p) \<le> kMaxNestingDepth \<Longrightarrow>
    parser_ok (snd (deliver v p))"
  by (auto simp: deliver_def parser_ok_def ctx_ok_def Let_def split: list.splits)

lemma step_ok: "parser_ok p \<Longrightarrow> parser_ok (fst (snd (parse_step data p pos)))"
proof (cases "parse_state p")
  case ST_START
  assume "parser_ok p"
  with ST_START show ?thesis
    by (auto simp: parse_step_def step_defs parser_ok_def Let_def type_state_def)
qed (auto simp: parse_step_def step_defs Let_def split_beta kMaxNestingDepth_def ctx_ok_def
    parser_ok_def [of p] intro!: deliver_ok split: option.split, auto simp: parser_ok_def kMaxNestingDepth_def ctx_ok_def)

text \<open>A step never reads beyond the data, and counts exactly what it consumes.\<close>

lemma deliver_at_simps [simp]:
  "snd (snd (deliver_at v p pos)) = pos" "processed_bytes (fst (snd (deliver_at v p pos))) = processed_bytes p"
  "pr_processed (fst (deliver_at v p pos)) = processed_bytes p" "pr_success (fst (deliver_at v p pos))"
  "pr_value (fst (deliver_at v p pos)) = None \<longleftrightarrow> \<not> pr_complete (fst (deliver_at v p pos))"
  "(\<exists>y. pr_value (fst (deliver_at v p pos)) = Some y) \<longleftrightarrow> pr_complete (fst (deliver_at v p pos))"
  using deliver_simps [of v p "fst (deliver v p)" "snd (deliver v p)"]
  by (auto simp: deliver_at_def split_beta)

lemma incomplete_at_simps [simp]:
  "snd (snd (incomplete_at p pos)) = pos" "fst (snd (incomplete_at p pos)) = p"
  "fst (incomplete_at p pos) = makeIncomplete (processed_bytes p)"
  by (simp_all add: incomplete_at_def)

definition accounts :: "string \<Rightarrow> RESPParser \<Rightarrow> nat \<Rightarrow> step_result \<Rightarrow> bool" where
  "accounts data p pos x \<longleftrightarrow> (pr_success (fst x) \<longrightarrow>
     pos \<le> snd (snd x) \<and> snd (snd x) \<le> length data \<and>
     processed_bytes (fst (snd x)) = processed_bytes p + (snd (snd x) - pos) \<and>
     (pr_complete (fst x) \<longrightarrow> pr_processed (fst x) = processed_bytes (fst (snd x)) \<and> pr_value (fst x) \<noteq> None))"

lemma step_accounts: "pos < length data \<Longrightarrow> accounts data p pos (parse_step data p pos)"
proof -
  assume pos: "pos < length data"
  have bulk: "accounts data p pos (parseBulkStringData data p pos)"
  proof (cases "length data - pos < nat (bulk_size p) - length (temp_data p)")
    case True
    with pos show ?thesis by (simp add: accounts_def parseBulkStringData_def)
  next
    case False
    then have "pos + (nat (bulk_size p) - length (temp_data p)) \<le> length data" using pos by arith
    with False show ?thesis by (simp add: accounts_def parseBulkStringData_def Let_def)
  qed
  have start: "accounts data p pos (parseStart data p pos)"
    using pos by (simp add: accounts_def parseStart_def Let_def split: option.split)
  note fin = findCRLF_bound [of data pos]
  show ?thesis
    using pos bulk start fin
    by (cases "parse_state p"; cases "findCRLF data pos")
      (simp_all add: parse_step_def accounts_def parseSimpleString_def parseError_def parseInteger_def
        parseBulkStringSize_def parseArraySize_def parseArrayElement_def Let_def)
qed

lemma loop_consumes:
  assumes "parse_loop data p pos = Some (r, p')" "pr_success r" "pos \<le> length data"
  shows "processed_bytes p' \<le> processed_bytes p + (length data - pos) \<and> processed_bytes p \<le> processed_bytes p' \<and>
    pr_processed r = processed_bytes p' \<and> (pr_complete r \<longleftrightarrow> pr_value r \<noteq> None) \<and>
    (\<not> pr_complete r \<longrightarrow> processed_bytes p' = processed_bytes p + (length data - pos))"
  using assms
proof (induction "step_size data p pos" arbitrary: p pos rule: less_induct)
  case less
  show ?case
  proof (cases "pos < length data")
    case False
    with less.prems show ?thesis by (auto simp: loop_end)
  next
    case True
    then have ns: "\<not> stuck data p pos" using less.prems(1) loop_stuck by fastforce
    obtain r1 p1 pos1 where s: "parse_step data p pos = (r1, p1, pos1)" by (metis prod_cases3)
    have acc: "accounts data p pos (r1, p1, pos1)" using step_accounts [OF True, of p] by (simp add: s)
    show ?thesis
    proof (cases "\<not> pr_success r1 \<or> pr_complete r1")
      case over: True
      with s True less.prems have "r = r1" "p' = p1" by (simp_all add: loop_step)
      with acc over less.prems(2) show ?thesis by (auto simp: accounts_def)
    next
      case False
      then have "parse_loop data p1 pos1 = Some (r, p')" using less.prems(1) s True by (simp add: loop_step)
      from less.hyps [OF step_progress [OF s True ns] this less.prems(2)] False acc show ?thesis
        by (auto simp: accounts_def)
    qed
  qed
qed

lemma loop_ok: "parse_loop data p pos = Some (r, p') \<Longrightarrow> parser_ok p \<Longrightarrow> parser_ok p'"
proof (induction "step_size data p pos" arbitrary: p pos rule: less_induct)
  case less
  show ?case
  proof (cases "pos < length data")
    case False
    with less.prems show ?thesis by (auto simp: loop_end)
  next
    case True
    then have ns: "\<not> stuck data p pos" using less.prems(1) loop_stuck by fastforce
    obtain r1 p1 pos1 where s: "parse_step data p pos = (r1, p1, pos1)" by (metis prod_cases3)
    have ok: "parser_ok p1" using step_ok [OF less.prems(2), of data pos] by (simp add: s)
    show ?thesis
      using less.hyps [OF step_progress [OF s True ns]] ok less.prems(1) s True
      by (auto simp: loop_step split: if_splits)
  qed
qed

section \<open>Reading an encoded value\<close>

fun scalar_ok :: "RESPValue \<Rightarrow> bool" where
  "scalar_ok (RESPSimpleString s) = (crlf_index s = None)"
| "scalar_ok (RESPError s) = (crlf_index s = None)"
| "scalar_ok (RESPInteger i) = (- i64_max \<le> i \<and> i < i64_max)"
| "scalar_ok (RESPBulkString None) = True"
| "scalar_ok (RESPBulkString (Some s)) = (int (length s) < i64_max)"
| "scalar_ok (RESPArray None) = True"
| "scalar_ok (RESPArray (Some vs)) = (vs = [])"

text \<open>The buffers of the parser after a value.\<close>

fun after :: "RESPValue \<Rightarrow> RESPParser \<Rightarrow> RESPParser" where
  "after (RESPBulkString None) p = p\<lparr>temp_data := [], bulk_size := -1\<rparr>"
| "after (RESPBulkString (Some s)) p = p\<lparr>temp_data := s, bulk_size := int (length s)\<rparr>"
| "after _ p = p\<lparr>temp_data := []\<rparr>"

lemma deliver_state [simp]: "deliver v (p\<lparr>parse_state := st\<rparr>) = deliver v p"
  by (cases p) (simp add: deliver_def Let_def split: list.split)

lemma consume_push [simp]:
  "(consume n p)\<lparr>parse_state := st\<rparr> = consume n (p\<lparr>parse_state := st\<rparr>)"
  "(consume n p)\<lparr>temp_data := s\<rparr> = consume n (p\<lparr>temp_data := s\<rparr>)"
  "(consume n p)\<lparr>bulk_size := i\<rparr> = consume n (p\<lparr>bulk_size := i\<rparr>)"
  "(consume n p)\<lparr>array_stack := cs\<rparr> = consume n (p\<lparr>array_stack := cs\<rparr>)"
  "consume m (consume n p) = consume (n + m) p"
  by (cases p, simp add: consume_def)+

lemma update_order:
  "p\<lparr>parse_state := st, temp_data := s\<rparr> = p\<lparr>temp_data := s, parse_state := st\<rparr>"
  "p\<lparr>parse_state := st, bulk_size := i\<rparr> = p\<lparr>bulk_size := i, parse_state := st\<rparr>"
  "p\<lparr>parse_state := st, array_stack := cs\<rparr> = p\<lparr>array_stack := cs, parse_state := st\<rparr>"
  "p\<lparr>temp_data := s, bulk_size := i\<rparr> = p\<lparr>bulk_size := i, temp_data := s\<rparr>"
  "p\<lparr>temp_data := s, array_stack := cs\<rparr> = p\<lparr>array_stack := cs, temp_data := s\<rparr>"
  "p\<lparr>bulk_size := i, array_stack := cs\<rparr> = p\<lparr>array_stack := cs, bulk_size := i\<rparr>"
  by (cases p, simp)+

definition loop_deliver :: "string \<Rightarrow> RESPValue \<Rightarrow> RESPParser \<Rightarrow> nat \<Rightarrow> (ParseResult \<times> RESPParser) option" where
  "loop_deliver data v p pos = (let (r, p') = deliver v p in
     if pr_complete r then Some (r, p') else parse_loop data p' pos)"

lemma loop_deliver_state [simp]:
  "loop_deliver data v (p\<lparr>parse_state := st\<rparr>) pos = loop_deliver data v p pos"
  "loop_deliver data v (consume n (p\<lparr>parse_state := st\<rparr>)) pos = loop_deliver data v (consume n p) pos"
  by (simp_all add: loop_deliver_def consume_push(1) [symmetric] del: consume_push)

lemma drop_pos: "drop pos data = c # s \<Longrightarrow> pos < length data \<and> data ! pos = c \<and> drop (Suc pos) data = s"
  by (metis Cons_nth_drop_Suc drop_all list.inject list.simps(3) not_less)

lemma drop_part: "drop pos data = a @ b \<Longrightarrow> drop (pos + length a) data = b"
  by (metis add.commute append_eq_conv_conj drop_drop)

lemma loop_start:
  assumes "parse_state p = ST_START" "type_state c = Some st" "drop pos data = c # s"
  shows "parse_loop data p pos = parse_loop data (consume 1 (p\<lparr>parse_state := st, temp_data := []\<rparr>)) (Suc pos)"
  using assms(1,2) drop_pos [OF assms(3)] loop_step [of pos data p]
  by (simp add: parse_step_def parseStart_def)

lemma loop_deliver_at:
  assumes "pos < length data" "parse_step data p pos = deliver_at v p1 pos1"
  shows "parse_loop data p pos = loop_deliver data v p1 pos1"
  using loop_step [OF assms(1) assms(2) [unfolded deliver_at_def split_beta]]
    deliver_simps [of v p1 "fst (deliver v p1)" "snd (deliver v p1)"]
  by (simp add: loop_deliver_def split_beta)

lemma line_found:
  assumes "crlf_index s = None" "drop pos data = s @ crlf @ post"
  shows "findCRLF data pos = Some (pos + length s)" "line_of data pos (pos + length s) = s" "pos < length data"
  using assms crlf_index_line [OF assms(1), of post] length_drop [of pos data]
  by (auto simp: findCRLF_def line_of_def)

text \<open>The five kinds of line.\<close>

lemma loop_line:
  assumes "crlf_index s = None" "drop pos data = s @ crlf @ post"
  shows "parse_state p = ST_SIMPLE_STRING \<Longrightarrow> parse_loop data p pos =
      loop_deliver data (RESPSimpleString s) (consume (length s + 2) p) (pos + length s + 2)"
    and "parse_state p = ST_ERROR \<Longrightarrow> parse_loop data p pos =
      loop_deliver data (RESPError s) (consume (length s + 2) p) (pos + length s + 2)"
    and "parse_state p = ST_INTEGER \<Longrightarrow> parseInteger_range s = i \<Longrightarrow> i \<noteq> i64_max \<Longrightarrow> parse_loop data p pos =
      loop_deliver data (RESPInteger i) (consume (length s + 2) p) (pos + length s + 2)"
    and "parse_state p = ST_BULK_STRING_SIZE \<Longrightarrow> parseInteger_range s = -1 \<Longrightarrow> parse_loop data p pos =
      loop_deliver data (RESPBulkString None) (consume (length s + 2) (p\<lparr>bulk_size := -1\<rparr>)) (pos + length s + 2)"
    and "parse_state p = ST_BULK_STRING_SIZE \<Longrightarrow> parseInteger_range s = i \<Longrightarrow> 0 \<le> i \<Longrightarrow> i \<noteq> i64_max \<Longrightarrow> parse_loop data p pos =
      parse_loop data (consume (length s + 2) (p\<lparr>bulk_size := i, parse_state := ST_BULK_STRING_DATA, temp_data := []\<rparr>)) (pos + length s + 2)"
    and "parse_state p = ST_ARRAY_SIZE \<Longrightarrow> parseInteger_range s = -1 \<Longrightarrow> parse_loop data p pos =
      loop_deliver data (RESPArray None) (consume (length s + 2) p) (pos + length s + 2)"
    and "parse_state p = ST_ARRAY_SIZE \<Longrightarrow> parseInteger_range s = 0 \<Longrightarrow> parse_loop data p pos =
      loop_deliver data (RESPArray (Some [])) (consume (length s + 2) p) (pos + length s + 2)"
    and "parse_state p = ST_ARRAY_SIZE \<Longrightarrow> parseInteger_range s = i \<Longrightarrow> 0 < i \<Longrightarrow> i \<noteq> i64_max \<Longrightarrow>
      length (array_stack p) < kMaxNestingDepth \<Longrightarrow> parse_loop data p pos =
      parse_loop data (consume (length s + 2) (p\<lparr>array_stack := \<lparr>ctx_size = nat i, ctx_count = 0, ctx_elements = []\<rparr> # array_stack p,
        parse_state := ST_START\<rparr>)) (pos + length s + 2)"
  using line_found [OF assms]
  by (auto intro!: loop_deliver_at simp: parse_step_def parseSimpleString_def parseError_def parseInteger_def
      parseBulkStringSize_def parseArraySize_def i64_max_def Let_def)
    (simp_all add: loop_step parse_step_def parseBulkStringSize_def parseArraySize_def incomplete_at_def i64_max_def update_order)

lemma loop_bulk_data:
  assumes "parse_state p = ST_BULK_STRING_DATA" "temp_data p = []" "bulk_size p = int (length s)"
    and "drop pos data = s @ crlf @ post"
  shows "parse_loop data p pos =
    loop_deliver data (RESPBulkString (Some s)) (consume (length s + 2) (p\<lparr>temp_data := s\<rparr>)) (pos + length s + 2)"
proof -
  have "length (drop pos data) = length (s @ crlf @ post)" by (simp only: assms(4))
  then have len: "pos < length data" "length data - pos = length s + 2 + length post" by (auto simp: crlf_def)
  have nth: "data ! (pos + length s) = CHR 0x0D" "data ! Suc (pos + length s) = CHR 0x0A"
    using assms(4) nth_drop [of pos data "length s"] nth_drop [of pos data "Suc (length s)"] len
    by (auto simp: nth_append crlf_def)
  show ?thesis
    using assms(1-3) len nth
    by (intro loop_deliver_at) (auto simp: parse_step_def parseBulkStringData_def assms(4) Let_def ac_simps)
qed

lemma loop_scalar:
  assumes "scalar_ok v" "parse_state p = ST_START" "drop pos data = encode v @ post"
  shows "parse_loop data p pos =
    loop_deliver data v (consume (length (encode v)) (after v p)) (pos + length (encode v))"
proof -
  have start: "parse_loop data p pos = parse_loop data (consume 1 (p\<lparr>parse_state := st, temp_data := []\<rparr>)) (Suc pos)"
      "drop (Suc pos) data = s @ crlf @ r" if "encode v @ post = c # s @ crlf @ r" "type_state c = Some st" for c s r st
    using loop_start [OF assms(2) that(2), of pos data "s @ crlf @ r"] assms(3) that(1) drop_pos [of pos data c "s @ crlf @ r"]
    by auto
  note line = loop_line [OF _ start(2)] and num = int_to_string_line
  have neg: "crlf_index ''-1'' = None" "parseInteger_range ''-1'' = -1" by code_simp+
  show ?thesis
  proof (cases v rule: scalar_ok.cases)
    case (1 s)
    with assms(1) show ?thesis
      using start(1) [of "CHR ''+''" s post] line(1) [of s "CHR ''+''" post] by (simp add: type_state_def update_order)
  next
    case (2 s)
    with assms(1) show ?thesis
      using start(1) [of "CHR ''-''" s post] line(2) [of s "CHR ''-''" post] by (simp add: type_state_def update_order)
  next
    case (3 i)
    with assms(1) show ?thesis
      using start(1) [of "CHR '':''" "int_to_string i" post] line(3) [OF num(1), of "CHR '':''" i post]
      by (simp add: type_state_def update_order parseInteger_int)
  next
    case 4
    with assms(1) show ?thesis
      using start(1) [of "CHR ''$''" "''-1''" post] line(4) [OF neg(1), of "CHR ''$''" post] neg(2)
      by (simp add: type_state_def update_order eval_nat_numeral)
  next
    case (5 s)
    have d: "drop (Suc pos + length (nat_to_string (length s)) + 2) data = s @ crlf @ post"
      using start(2) [of "CHR ''$''" "nat_to_string (length s)" "s @ crlf @ post"] 5
        drop_part [of "Suc pos" data "nat_to_string (length s) @ crlf" "s @ crlf @ post"]
      by (simp add: type_state_def)
    show ?thesis
      using start(1) [of "CHR ''$''" "nat_to_string (length s)" "s @ crlf @ post"]
        line(5) [OF num(2), of "CHR ''$''" "length s" "s @ crlf @ post"] loop_bulk_data [OF _ _ _ d] 5 assms(1)
      by (simp add: type_state_def update_order parseInteger_nat add.assoc)
  next
    case 6
    with assms(1) show ?thesis
      using start(1) [of "CHR ''*''" "''-1''" post] line(6) [OF neg(1), of "CHR ''*''" post] neg(2)
      by (simp add: type_state_def update_order eval_nat_numeral)
  next
    case (7 vs)
    with assms(1) show ?thesis
      using start(1) [of "CHR ''*''" "nat_to_string 0" post] line(7) [OF num(2), of "CHR ''*''" 0 post] parseInteger_nat [of 0]
      by (simp add: type_state_def update_order i64_max_def eval_nat_numeral)
  qed
qed

text \<open>
  Reading the elements of an open array one after the other. Only its own elements are on
  top of the stack, so no element may be an array with elements itself.
\<close>

definition open_array :: "RESPValue list \<Rightarrow> nat \<Rightarrow> ArrayContext" where
  "open_array vs n = \<lparr>ctx_size = n, ctx_count = length vs, ctx_elements = vs\<rparr>"

lemma after_simps [simp]:
  "array_stack (after v p) = array_stack p" "processed_bytes (after v p) = processed_bytes p"
  "parse_state (after v p) = parse_state p"
  by (cases v rule: encode.cases; simp)+

lemma loop_elements:
  assumes "\<forall>v \<in> set vs. scalar_ok v" "vs \<noteq> []" "parse_state p = ST_START"
    and "array_stack p = open_array us (length us + length vs) # rest"
    and "drop pos data = concat (map encode vs) @ post"
  shows "\<exists>p'. parse_loop data p pos = Some (makeSuccess (RESPArray (Some (us @ vs)))
      (processed_bytes p + length (concat (map encode vs))), p') \<and> array_stack p' = rest \<and> parse_state p' = ST_START"
  using assms
proof (induction vs arbitrary: us p pos)
  case (Cons v vs)
  let ?q = "consume (length (encode v)) (after v p)"
  have l: "parse_loop data p pos = loop_deliver data v ?q (pos + length (encode v))"
    by (rule loop_scalar) (use Cons.prems in simp_all)
  show ?case
  proof (cases "vs = []")
    case True
    then show ?thesis
      using l Cons.prems(4) by (simp add: loop_deliver_def deliver_def open_array_def Let_def)
  next
    case False
    let ?p = "?q\<lparr>array_stack := open_array (us @ [v]) (length us + length (v # vs)) # rest, parse_state := ST_START\<rparr>"
    have "parse_loop data p pos = parse_loop data ?p (pos + length (encode v))"
      using l Cons.prems(4) False by (simp add: loop_deliver_def deliver_def open_array_def Let_def)
    moreover have "drop (pos + length (encode v)) data = concat (map encode vs) @ post"
      by (rule drop_part) (use Cons.prems(5) in simp)
    ultimately show ?thesis
      using Cons.IH [of ?p "us @ [v]" "pos + length (encode v)"] Cons.prems(1) False by (simp add: add.assoc)
  qed
qed simp

text \<open>The values the parser reads back: scalars, and arrays of scalars.\<close>

fun flat_ok :: "RESPValue \<Rightarrow> bool" where
  "flat_ok (RESPArray (Some vs)) = (list_all scalar_ok vs \<and> int (length vs) < i64_max)"
| "flat_ok v = scalar_ok v"

lemma parse_flat:
  assumes "flat_ok v"
  shows "\<exists>p'. parse (encode v @ post) new_RESPParser = Some (makeSuccess v (length (encode v)), p') \<and>
    array_stack p' = [] \<and> parse_state p' = ST_START"
proof (cases "scalar_ok v")
  case True
  then show ?thesis
    using loop_scalar [OF True, of new_RESPParser 0 "encode v @ post" post]
    by (simp add: parse_def new_RESPParser_def loop_deliver_def deliver_def)
next
  case False
  then obtain vs where v: "v = RESPArray (Some vs)" "vs \<noteq> []"
    using assms by (cases v rule: flat_ok.cases) (auto split: if_splits)
  let ?n = "nat_to_string (length vs)" and ?c = "concat (map encode vs)"
  let ?p1 = "consume 1 (new_RESPParser\<lparr>parse_state := ST_ARRAY_SIZE, temp_data := []\<rparr>)"
  let ?p2 = "consume (length ?n + 2) (?p1\<lparr>array_stack := [open_array [] (length vs)], parse_state := ST_START\<rparr>)"
  let ?data = "encode v @ post"
  have "parse_loop ?data new_RESPParser 0 = parse_loop ?data ?p1 1"
    using loop_start [of new_RESPParser "CHR ''*''" ST_ARRAY_SIZE 0 ?data] v
    by (simp add: type_state_def new_RESPParser_def)
  also have "\<dots> = parse_loop ?data ?p2 (1 + length ?n + 2)"
    using loop_line(8) [of ?n 1 ?data "?c @ post" ?p1 "int (length vs)"] v assms
    by (simp add: int_to_string_line parseInteger_nat new_RESPParser_def open_array_def kMaxNestingDepth_def)
  finally show ?thesis
    using loop_elements [of vs ?p2 "[]" "[]" "1 + length ?n + 2" ?data post] v assms
    by (auto simp: parse_def list_all_iff new_RESPParser_def drop_part [of 1 _ "?n @ crlf"])
qed

section \<open>Input in several chunks\<close>

definition shift_by :: "nat \<Rightarrow> step_result \<Rightarrow> step_result" where
  "shift_by n x = (fst x, fst (snd x), n + snd (snd x))"

lemma findCRLF_shift: "findCRLF (d1 @ d2) (length d1 + k) = map_option (\<lambda>e. length d1 + e) (findCRLF d2 k)"
  by (simp add: findCRLF_def option.map_comp comp_def add.assoc)

lemma line_of_shift: "line_of (d1 @ d2) (length d1 + k) (length d1 + e) = line_of d2 k e"
  by (simp add: line_of_def)

lemma step_shift:
  assumes "k < length d2"
  shows "parse_step (d1 @ d2) p (length d1 + k) = shift_by (length d1) (parse_step d2 p k)"
proof -
  have bulk: "parseBulkStringData (d1 @ d2) p (length d1 + k) = shift_by (length d1) (parseBulkStringData d2 p k)"
    using assms by (auto simp: parseBulkStringData_def Let_def shift_by_def deliver_at_def incomplete_at_def split_beta
        nth_append add.assoc)
  show ?thesis
    using assms bulk
    by (cases "parse_state p"; cases "findCRLF d2 k")
      (auto simp: parse_step_def parseStart_def parseSimpleString_def parseError_def parseInteger_def
        parseBulkStringSize_def parseArraySize_def parseArrayElement_def findCRLF_shift line_of_shift
        shift_by_def deliver_at_def incomplete_at_def split_beta Let_def nth_append add.assoc split: option.split)
qed

lemma stuck_shift: "stuck (d1 @ d2) p (length d1 + k) = stuck d2 p k"
  by (auto simp: stuck_def findCRLF_shift)

lemma loop_shift: "parse_loop (d1 @ d2) p (length d1 + k) = parse_loop d2 p k"
proof (induction "step_size d2 p k" arbitrary: p k rule: less_induct)
  case less
  consider "length d2 \<le> k" | "k < length d2" "stuck d2 p k" | "k < length d2" "\<not> stuck d2 p k" by fastforce
  then show ?case
  proof cases
    case 3
    obtain r p1 k1 where s: "parse_step d2 p k = (r, p1, k1)" by (metis prod_cases3)
    then have s': "parse_step (d1 @ d2) p (length d1 + k) = (r, p1, length d1 + k1)"
      using 3 by (simp add: step_shift shift_by_def)
    show ?thesis
      using less.hyps [OF step_progress [OF s 3]] s s' 3 by (simp add: loop_step)
  qed (simp_all add: loop_end loop_stuck stuck_shift)
qed

lemma crlf_index_append: "crlf_index s = Some i \<Longrightarrow> crlf_index (s @ t) = Some i"
  by (induction s arbitrary: i rule: crlf_index.induct) (auto split: if_splits)

lemma step_append_line:
  assumes "pos < length d1" "\<not> stuck d1 p pos" "parse_state p \<noteq> ST_BULK_STRING_DATA"
  shows "parse_step (d1 @ d2) p pos = parse_step d1 p pos"
proof (cases "line_state (parse_state p)")
  case True
  then obtain e where e: "findCRLF d1 pos = Some e" using assms(2) by (auto simp: stuck_def)
  then have "findCRLF (d1 @ d2) pos = Some e" "line_of (d1 @ d2) pos e = line_of d1 pos e"
    using findCRLF_bound [OF e] crlf_index_append [of "drop pos d1"] by (auto simp: findCRLF_def line_of_def)
  with True e show ?thesis
    by (auto simp: line_state_def parse_step_def parseSimpleString_def parseError_def parseInteger_def
        parseBulkStringSize_def parseArraySize_def)
next
  case False
  then show ?thesis
    using assms by (cases "parse_state p")
      (auto simp: line_state_def parse_step_def parseStart_def parseArrayElement_def nth_append)
qed

lemma step_append_bulk:
  assumes "parse_state p = ST_BULK_STRING_DATA" "pos + (nat (bulk_size p) - length (temp_data p)) + 2 \<le> length d1"
  shows "parse_step (d1 @ d2) p pos = parse_step d1 p pos"
proof -
  let ?n = "nat (bulk_size p) - length (temp_data p)"
  have "\<not> length d1 - pos < ?n" "\<not> length (d1 @ d2) - pos < ?n" "?n - (length d1 - pos) = 0" "pos \<le> length d1"
    using assms(2) by auto
  with assms show ?thesis
    by (auto simp: parse_step_def parseBulkStringData_def Let_def nth_append)
qed

definition bulk_end :: "string \<Rightarrow> RESPParser \<Rightarrow> nat \<Rightarrow> step_result" where
  "bulk_end data p pos =
     (if pos + 2 > length data then incomplete_at p pos
      else if data ! pos \<noteq> CHR 0x0D \<or> data ! (pos + 1) \<noteq> CHR 0x0A
      then (makeError ''Missing CRLF after bulk string data'', p, pos)
      else deliver_at (RESPBulkString (Some (temp_data p))) (consume 2 p) (pos + 2))"

lemma bulk_step:
  assumes "parse_state p = ST_BULK_STRING_DATA" "n = nat (bulk_size p) - length (temp_data p)"
  shows "parse_step data p pos =
    (if length data - pos < n
     then incomplete_at (consume (length data - pos) (p\<lparr>temp_data := temp_data p @ drop pos data\<rparr>)) (length data)
     else bulk_end data (consume n (p\<lparr>temp_data := temp_data p @ take n (drop pos data)\<rparr>)) (pos + n))"
  using assms by (simp add: parse_step_def parseBulkStringData_def bulk_end_def Let_def)

lemma bulk_resume:
  assumes "parse_state p = ST_BULK_STRING_DATA" "pos \<le> length d1"
    and "length d1 - pos \<le> nat (bulk_size p) - length (temp_data p)"
  shows "parse_step (d1 @ d2) p pos =
    parse_step (d1 @ d2) (consume (length d1 - pos) (p\<lparr>temp_data := temp_data p @ drop pos d1\<rparr>)) (length d1)"
proof -
  define a where "a = length d1 - pos"
  let ?q = "consume a (p\<lparr>temp_data := temp_data p @ drop pos d1\<rparr>)"
  define n where "n = nat (bulk_size p) - length (temp_data p)"
  have n: "n - a = nat (bulk_size ?q) - length (temp_data ?q)" "a \<le> n" "parse_state ?q = ST_BULK_STRING_DATA"
    using assms by (auto simp: a_def n_def)
  have d: "drop pos (d1 @ d2) = drop pos d1 @ d2" "length (d1 @ d2) - pos = a + length d2"
      "length (d1 @ d2) - length d1 = length d2" "pos + n = length d1 + (n - a)"
      "take n (drop pos d1 @ d2) = drop pos d1 @ take (n - a) d2"
    using assms(2) n(2) by (auto simp: a_def)
  have lt: "a + length d2 < n \<longleftrightarrow> length d2 < n - a" "a + (n - a) = n" using n(2) by arith+
  show ?thesis
    unfolding a_def [symmetric] bulk_step [OF assms(1) n_def] bulk_step [OF n(3,1)] d lt(1)
    by (simp add: lt(2) del: take_append)
qed

lemma loop_split:
  assumes "parse_loop d1 p pos = Some (r, p1)" "pr_success r" "\<not> pr_complete r" "pos \<le> length d1" "d2 \<noteq> []"
  shows "parse_loop (d1 @ d2) p pos = parse_loop (d1 @ d2) p1 (length d1)"
  using assms(1,4)
proof (induction "step_size d1 p pos" arbitrary: p pos rule: less_induct)
  case less
  show ?case
  proof (cases "pos < length d1")
    case False
    with less.prems show ?thesis by (auto simp: loop_end)
  next
    case True
    then have ns: "\<not> stuck d1 p pos" using less.prems(1) loop_stuck by fastforce
    obtain r' q pos' where s: "parse_step d1 p pos = (r', q, pos')" by (metis prod_cases3)
    have c: "pr_success r'" "\<not> pr_complete r'" and rest: "parse_loop d1 q pos' = Some (r, p1)"
      using less.prems(1) loop_step [OF True s] assms(2,3) by (auto split: if_splits)
    have le: "pos' \<le> length d1" using step_accounts [OF True, of p] c by (simp add: accounts_def s)
    note IH = less.hyps [OF step_progress [OF s True ns c(2)] rest le]
    show ?thesis
    proof (cases "parse_step (d1 @ d2) p pos = parse_step d1 p pos")
      case same: True
      then show ?thesis using IH True c s loop_step [of pos "d1 @ d2" p r' q pos'] by simp
    next
      case False
      let ?n = "nat (bulk_size p) - length (temp_data p)"
      have b: "parse_state p = ST_BULK_STRING_DATA" "\<not> pos + ?n + 2 \<le> length d1"
        using False step_append_line [OF True ns] step_append_bulk by blast+
      have "pos' = length d1 \<and> q = consume (length d1 - pos) (p\<lparr>temp_data := temp_data p @ drop pos d1\<rparr>) \<and> length d1 - pos \<le> ?n"
      proof (cases "length d1 - pos \<le> ?n")
        case fits: True
        then show ?thesis
          using s b True by (cases "length d1 - pos = ?n") (auto simp: bulk_step [OF b(1) refl] bulk_end_def incomplete_at_def)
      next
        case False
        then have one: "pos + ?n + 1 = length d1" "\<not> length d1 - pos < ?n" using b(2) by arith+
        with s b(1) have "q = consume ?n (p\<lparr>temp_data := temp_data p @ take ?n (drop pos d1)\<rparr>)" "pos' = pos + ?n"
          by (auto simp: bulk_step [OF b(1) refl] bulk_end_def incomplete_at_def)
        with one b(1) have "stuck d1 q pos'" "pos' < length d1" by (auto simp: stuck_def)
        with rest loop_stuck show ?thesis by fastforce
      qed
      then have "q = p1" "parse_step (d1 @ d2) p pos = parse_step (d1 @ d2) q (length d1)"
        using rest bulk_resume [OF b(1) less.prems(2), of d2] by (auto simp: loop_end)
      then show ?thesis
        using True assms(5) by (simp add: parse_loop.simps [of "d1 @ d2" p pos] parse_loop.simps [of "d1 @ d2" p1 "length d1"])
    qed
  qed
qed

lemma parse_chunks:
  assumes "parse d1 p = Some (r, p1)" "pr_success r" "\<not> pr_complete r" "d1 \<noteq> []" "d2 \<noteq> []"
  shows "parse (d1 @ d2) p = parse d2 p1"
  using loop_split [of d1 p 0 r p1 d2] loop_shift [of d1 d2 p1 0] assms by (simp add: parse_def)

end
