(* ===== verification/Resp_Props.thy ===== *)
theory Resp_Props
  imports Resp_Lemmas
begin


text \<open>The properties of the RESP parser of the server.\<close>

section \<open>Correct parsing\<close>

text \<open>
  C10. Round trip: a new parser that is given an encoded value, whatever follows it, returns
  the value and the number of its bytes, and is ready for the next value. The value is a simple
  string or an error without a line end in it, an integer other than the two the parser cannot
  read, a bulk string with any bytes, a null, or an array of such values.
\<close>

theorem resp_parse_roundtrip:
  assumes "flat_ok v"
  shows "\<exists>p'. parse (encode v @ rest) new_RESPParser = Some (makeSuccess v (length (encode v)), p') \<and>
    array_stack p' = [] \<and> parse_state p' = ST_START"
  using assms by (rule parse_flat)

definition ex_cmd :: RESPValue where
  "ex_cmd = RESPArray (Some [RESPBulkString (Some ''GET''), RESPBulkString (Some [CHR 0x0D, CHR 0x0A])])"

theorem resp_parse_roundtrip_witness:
  "\<exists>p'. parse (encode ex_cmd @ ''*1'') new_RESPParser = Some (makeSuccess ex_cmd (length (encode ex_cmd)), p')"
proof -
  have "flat_ok ex_cmd" by (simp add: ex_cmd_def i64_max_def)
  from resp_parse_roundtrip [OF this] show ?thesis by blast
qed



text \<open>
  C32. Chunks: if the parser consumed a first chunk without completing a value, then continuing
  with a second chunk gives the result of parsing both at once, also if that does not return.
\<close>

theorem resp_parse_chunks:
  assumes "parse d1 p = Some (r, p1)" "pr_success r" "\<not> pr_complete r" "d1 \<noteq> []" "d2 \<noteq> []"
  shows "parse (d1 @ d2) p = parse d2 p1"
  using assms by (rule parse_chunks)

theorem resp_parse_chunks_witness:
  "parse ((''$5'' @ crlf @ ''he'') @ (''llo'' @ crlf)) new_RESPParser =
     parse (''llo'' @ crlf) \<lparr>array_stack = [], parse_state = ST_BULK_STRING_DATA, temp_data = ''he'', bulk_size = 5, processed_bytes = 6\<rparr>"
proof -
  have "parse (''$5'' @ crlf @ ''he'') new_RESPParser = Some (makeIncomplete 6,
      \<lparr>array_stack = [], parse_state = ST_BULK_STRING_DATA, temp_data = ''he'', bulk_size = 5, processed_bytes = 6\<rparr>)"
    by code_simp
  from resp_parse_chunks [OF this] show ?thesis by (simp add: crlf_def)
qed

section \<open>When the parser does not return\<close>



text \<open>
  A command that arrives in two packets can hang the server: if the data ends inside the first
  line of a value, after the type character and before the end of the line end, the call never returns.
\<close>

theorem resp_parse_hangs_on_cut_line:
  assumes "type_state c = Some st" "crlf_index s = None" "0 < n" "n < length s + 2"
  shows "parse (c # take n (s @ crlf)) new_RESPParser = None"
proof -
  let ?data = "c # take n (s @ crlf)"
  let ?p = "consume 1 (new_RESPParser\<lparr>parse_state := st, temp_data := []\<rparr>)"
  have "crlf_index (s @ crlf) = Some (length s)" using crlf_index_line [OF assms(2), of "[]"] by simp
  then have "crlf_index (take n (s @ crlf)) = None" by (rule crlf_index_take) (rule assms(4))
  moreover have "line_state st" using assms(1) by (auto simp: type_state_def line_state_def split: if_splits)
  ultimately have "stuck ?data ?p 1" by (simp add: stuck_def findCRLF_def)
  moreover have "1 < length ?data" using assms(3) by simp
  ultimately have "parse_loop ?data ?p 1 = None" by (rule loop_stuck)
  moreover have "parse_loop ?data new_RESPParser 0 = parse_loop ?data ?p 1"
    using loop_start [of new_RESPParser c st 0 ?data] assms(1) by (simp add: new_RESPParser_def)
  ultimately show ?thesis by (simp add: parse_def)
qed

theorem resp_parse_hangs_on_cut_line_witness:
  "parse (CHR ''*'' # take 2 (''3'' @ crlf)) new_RESPParser = None"
  by (rule resp_parse_hangs_on_cut_line [where st = ST_ARRAY_SIZE]) (simp_all add: type_state_def)

text \<open>
  Nested arrays: the first inner array is returned as if it were the whole value. An array that
  starts with a non-empty array of scalars completes with that inner array, although the outer one
  is still open.
\<close>

theorem resp_parse_nested_returns_inner:
  assumes "\<forall>v \<in> set vs. scalar_ok v" "vs \<noteq> []" "int (length vs) < i64_max" "int (length us) + 1 < i64_max"
  shows "\<exists>p'. parse (encode (RESPArray (Some (RESPArray (Some vs) # us)))) new_RESPParser =
    Some (makeSuccess (RESPArray (Some vs))
      (length (nat_to_string (length us + 1)) + 3 + length (encode (RESPArray (Some vs)))), p') \<and>
    array_stack p' = [\<lparr>ctx_size = length us + 1, ctx_count = 0, ctx_elements = []\<rparr>]"
proof -
  let ?m = "nat_to_string (length us + 1)" and ?n = "nat_to_string (length vs)" and ?c = "concat (map encode vs)"
  let ?data = "encode (RESPArray (Some (RESPArray (Some vs) # us)))" and ?post = "concat (map encode us)"
  let ?outer = "\<lparr>ctx_size = length us + 1, ctx_count = 0, ctx_elements = []\<rparr>"
  have size: "parse_loop ?data p pos = parse_loop ?data (consume (length k + 3) (p\<lparr>array_stack := open_array [] n # array_stack p,
        temp_data := [], parse_state := ST_START\<rparr>)) (pos + length k + 3) \<and> drop (pos + length k + 3) ?data = r"
    if "parse_state p = ST_START" "drop pos ?data = CHR ''*'' # k @ crlf @ r" "k = nat_to_string n" "0 < n" "int n < i64_max"
      "length (array_stack p) < kMaxNestingDepth" for p pos k n r
  proof -
    have d: "drop (Suc pos) ?data = k @ crlf @ r" using drop_pos [OF that(2)] by blast
    show ?thesis
      using loop_start [OF that(1) _ that(2), of ST_ARRAY_SIZE] loop_line(8) [OF _ d, of _ "int n"] that
        drop_part [of "Suc pos" ?data "k @ crlf" r] d
      by (simp add: type_state_def int_to_string_line parseInteger_nat open_array_def update_order eval_nat_numeral)
  qed
  let ?p1 = "consume (length ?m + 3) (new_RESPParser\<lparr>array_stack := [open_array [] (length us + 1)], temp_data := [], parse_state := ST_START\<rparr>)"
  have 1: "parse_loop ?data new_RESPParser 0 = parse_loop ?data ?p1 (length ?m + 3)"
    "drop (length ?m + 3) ?data = CHR ''*'' # ?n @ crlf @ (?c @ ?post)"
    using size [of new_RESPParser 0 ?m _ "length us + 1"] assms(4) by (simp_all add: new_RESPParser_def kMaxNestingDepth_def)
  let ?p2 = "consume (length ?n + 3) (?p1\<lparr>array_stack := [open_array [] (length vs), open_array [] (length us + 1)],
      temp_data := [], parse_state := ST_START\<rparr>)"
  have 2: "parse_loop ?data ?p1 (length ?m + 3) = parse_loop ?data ?p2 (length ?m + 3 + length ?n + 3)"
    "drop (length ?m + 3 + length ?n + 3) ?data = ?c @ ?post"
    using size [of ?p1 "length ?m + 3" ?n "?c @ ?post" "length vs", OF _ 1(2)] assms(2,3)
    by (simp_all add: kMaxNestingDepth_def)
  have "\<exists>p'. parse_loop ?data ?p2 (length ?m + 3 + length ?n + 3) = Some (makeSuccess (RESPArray (Some ([] @ vs)))
      (processed_bytes ?p2 + length ?c), p') \<and> array_stack p' = [open_array [] (length us + 1)] \<and> parse_state p' = ST_START"
    by (rule loop_elements [OF assms(1,2) _ _ 2(2)]) simp_all
  with 1(1) 2(1) show ?thesis
    by (auto simp: parse_def open_array_def new_RESPParser_def eval_nat_numeral add.assoc)
qed

theorem resp_parse_nested_returns_inner_witness:
  "\<exists>p'. parse (encode (RESPArray (Some (RESPArray (Some [RESPInteger 1]) # [RESPInteger 2])))) new_RESPParser =
    Some (makeSuccess (RESPArray (Some [RESPInteger 1]))
      (length (nat_to_string (length [RESPInteger 2] + 1)) + 3 + length (encode (RESPArray (Some [RESPInteger 1])))), p')"
  using resp_parse_nested_returns_inner [of "[RESPInteger 1]" "[RESPInteger 2]"] by (auto simp: i64_max_def)

end
