(* ===== verification/Client_Codec.thy ===== *)
theory Client_Codec
  imports Resp_Lemmas
begin

text \<open>
  The RESP codec of the client library: \<^verbatim>\<open>client/include/RespValue.h\<close> and \<^verbatim>\<open>client/src/RespCodec.cpp\<close>.
  \<^verbatim>\<open>parseOne\<close> is recursive on the rest of the input; the loop over the elements of an array is
  \<open>parse_elems\<close>. \<^verbatim>\<open>std::from_chars\<close> reads an optional minus sign and digits and fails out of the range of
  the type; \<^verbatim>\<open>parseInt64\<close> moreover wants the whole string read. The allocation of \<^verbatim>\<open>elems.reserve(n)\<close> is
  taken to succeed. The lemmas read encoded values back, whole and cut off.
\<close>

section \<open>Values\<close>

datatype RespType = SimpleString | Error | Integer | BulkString | Array | NullBulkString

datatype RespValue =
  RespValue (rv_type: RespType) (rv_str: string) (rv_integer: int) (rv_array: "RespValue list")

definition simpleString :: "string \<Rightarrow> RespValue" where
  "simpleString v = RespValue SimpleString v 0 []"

definition errorValue :: "string \<Rightarrow> RespValue" where
  "errorValue v = RespValue Error v 0 []"

definition integerValue :: "int \<Rightarrow> RespValue" where
  "integerValue v = RespValue Integer [] v []"

definition bulkString :: "string \<Rightarrow> RespValue" where
  "bulkString v = RespValue BulkString v 0 []"

definition nullBulkString :: RespValue where
  "nullBulkString = RespValue NullBulkString [] 0 []"

definition arrayValue :: "RespValue list \<Rightarrow> RespValue" where
  "arrayValue elems = RespValue Array [] 0 elems"

lemmas value_defs = simpleString_def errorValue_def integerValue_def bulkString_def nullBulkString_def arrayValue_def

fun toDisplayString :: "RespValue \<Rightarrow> string" where
  "toDisplayString (RespValue t s i vs) = (case t of
      SimpleString \<Rightarrow> s
    | Error \<Rightarrow> ''(error) '' @ s
    | Integer \<Rightarrow> ''(integer) '' @ int_to_string i
    | BulkString \<Rightarrow> s
    | NullBulkString \<Rightarrow> ''(nil)''
    | Array \<Rightarrow> ''['' @ join_comma (map toDisplayString vs) @ '']'')"

section \<open>Parsing\<close>

record RespParseResult =
  rp_success :: bool
  rp_complete :: bool
  consumed_bytes :: nat
  rp_value :: RespValue
  rp_error :: string

definition RespParseResult0 :: RespParseResult where
  "RespParseResult0 = \<lparr>rp_success = False, rp_complete = False, consumed_bytes = 0,
     rp_value = RespValue SimpleString [] 0 [], rp_error = []\<rparr>"

abbreviation rp_incomplete :: RespParseResult where
  "rp_incomplete \<equiv> RespParseResult0\<lparr>rp_success := True\<rparr>"

abbreviation rp_failure :: "string \<Rightarrow> RespParseResult" where
  "rp_failure msg \<equiv> RespParseResult0\<lparr>rp_error := msg\<rparr>"

abbreviation rp_done :: "nat \<Rightarrow> RespValue \<Rightarrow> RespParseResult" where
  "rp_done n v \<equiv> RespParseResult0\<lparr>rp_success := True, rp_complete := True, consumed_bytes := n, rp_value := v\<rparr>"

definition from_chars :: "string \<Rightarrow> (int \<times> nat) option" where
  "from_chars s =
     (let negative = (s \<noteq> [] \<and> hd s = CHR ''-''); ds = takeWhile is_digit (if negative then tl s else s);
          v = (if negative then - int (digits_value ds) else int (digits_value ds))
      in if ds = [] \<or> \<not> in_i64 v then None else Some (v, length ds + (if negative then 1 else 0)))"

definition parseInt64 :: "string \<Rightarrow> int option" where
  "parseInt64 s = (if s = [] then None else case from_chars s of
      None \<Rightarrow> None
    | Some (v, ptr) \<Rightarrow> if ptr \<noteq> length s then None else Some v)"

definition substr :: "string \<Rightarrow> nat \<Rightarrow> nat \<Rightarrow> string" where
  "substr s pos n = take n (drop pos s)"

definition parseLine :: "char \<Rightarrow> string \<Rightarrow> RespParseResult" where
  "parseLine t input = (case findCRLF input 1 of
      None \<Rightarrow> rp_incomplete
    | Some e \<Rightarrow>
        let payload = substr input 1 (e - 1); r = rp_done (e + 2) (rp_value RespParseResult0)
        in if t = CHR ''+'' then r\<lparr>rp_value := simpleString payload\<rparr>
           else if t = CHR ''-'' then r\<lparr>rp_value := errorValue payload\<rparr>
           else case parseInt64 payload of
               None \<Rightarrow> r\<lparr>rp_success := False, rp_error := ''invalid integer response''\<rparr>
             | Some iv \<Rightarrow> r\<lparr>rp_value := integerValue iv\<rparr>)"

definition parseBulk :: "string \<Rightarrow> RespParseResult" where
  "parseBulk input = (case findCRLF input 1 of
      None \<Rightarrow> rp_incomplete
    | Some e \<Rightarrow> (case parseInt64 (substr input 1 (e - 1)) of
          None \<Rightarrow> rp_failure ''invalid bulk string length''
        | Some len \<Rightarrow>
            if len = -1 then rp_done (e + 2) nullBulkString
            else if len < -1 then rp_failure ''negative bulk string length''
            else let data_begin = e + 2; data_end = data_begin + nat len
              in if data_end + 2 > length input then rp_incomplete
                 else if input ! data_end \<noteq> CHR 0x0D \<or> input ! (data_end + 1) \<noteq> CHR 0x0A
                 then rp_failure ''missing CRLF after bulk string body''
                 else rp_done (data_end + 2) (bulkString (substr input data_begin (nat len)))))"

function parseOne :: "string \<Rightarrow> RespParseResult"
  and parse_elems :: "nat \<Rightarrow> string \<Rightarrow> nat \<Rightarrow> RespValue list \<Rightarrow> RespParseResult" where
  "parseOne input =
     (if input = [] then rp_incomplete
      else let t = hd input
        in if t = CHR ''+'' \<or> t = CHR ''-'' \<or> t = CHR '':'' then parseLine t input
           else if t = CHR ''$'' then parseBulk input
           else if t = CHR ''*'' then (case findCRLF input 1 of
               None \<Rightarrow> rp_incomplete
             | Some e \<Rightarrow> (case parseInt64 (substr input 1 (e - 1)) of
                   None \<Rightarrow> rp_failure ''invalid array length''
                 | Some n \<Rightarrow>
                     if n < 0 then rp_failure ''negative array length is unsupported''
                     else parse_elems (nat n) input (e + 2) []))
           else rp_failure (''unsupported RESP prefix: '' @ [t]))"
| "parse_elems n input offset elems =
     (if n = 0 then rp_done offset (arrayValue elems)
      else let sub = parseOne (drop offset input)
        in if \<not> rp_success sub then sub
           else if \<not> rp_complete sub then rp_incomplete
           else if consumed_bytes sub = 0 then rp_failure ''array element consumed 0 bytes''
           else parse_elems (n - 1) input (offset + consumed_bytes sub) (elems @ [rp_value sub]))"
  by pat_completeness auto

termination
  by (relation "inv_image (less_than <*lex*> less_than) (\<lambda>x. case x of Inl input \<Rightarrow> (length input, 0)
      | Inr (n, input, offset, elems) \<Rightarrow> (length input - offset, Suc n))") (auto simp: less_Suc_eq_0_disj)

declare parseOne.simps [simp del] parse_elems.simps [simp del]

definition parseRespValue :: "string \<Rightarrow> RespParseResult" where
  "parseRespValue input = parseOne input"

definition encodeRespArrayCommand :: "string list \<Rightarrow> string" where
  "encodeRespArrayCommand args = ''*'' @ nat_to_string (length args) @ crlf @
     concat (map (\<lambda>arg. ''$'' @ nat_to_string (length arg) @ crlf @ arg @ crlf) args)"

section \<open>Reading numbers and lines\<close>

lemma takeWhile_all: "list_all P s \<Longrightarrow> takeWhile P s = s"
  by (induction s) auto

lemma minus_no_digit [simp]: "\<not> is_digit CHR ''-''"
  by (simp add: is_digit_def)

lemma nat_digits [simp]: "takeWhile is_digit (nat_to_string n) = nat_to_string n"
  by (simp add: takeWhile_all list_all_iff nat_to_string_digits)

lemma hd_nat_to_string [simp]: "hd (nat_to_string n) \<noteq> CHR ''-''"
  using nat_to_string_digits [of "hd (nat_to_string n)" n] minus_no_digit by (metis list.set_sel(1) nat_to_string_not_Nil)

lemma parseInt64_int [simp]: "in_i64 i \<Longrightarrow> parseInt64 (int_to_string i) = Some i"
  by (auto simp: parseInt64_def from_chars_def int_to_string_def Let_def)

lemma parseInt64_nat [simp]: "int n \<le> i64_max \<Longrightarrow> parseInt64 (nat_to_string n) = Some (int n)"
  using parseInt64_int [of "int n"] by (simp add: int_to_string_def in_i64_def i64_min_def)

lemma int_line [simp]: "crlf_index (int_to_string i) = None" "crlf_index (nat_to_string n) = None"
proof -
  have "CHR 0x0D \<notin> set (nat_to_string n)" for n using nat_to_string_digits [of "CHR 0x0D" n] by (auto simp: is_digit_def)
  then show "crlf_index (int_to_string i) = None" "crlf_index (nat_to_string n) = None"
    by (auto simp: int_to_string_def intro!: crlf_index_no_cr)
qed

lemma head_line:
  assumes "crlf_index s = None"
  shows "findCRLF (t # s @ crlf @ r) 1 = Some (Suc (length s))" "substr (t # s @ crlf @ r) 1 (length s) = s"
  using findCRLF_line [OF assms, of "[t]" r] by (simp_all add: substr_def)

text \<open>A line cut off before its end has no end.\<close>

lemma cut_line:
  assumes "crlf_index s = None" "n < Suc (length s) + 2"
  shows "findCRLF (take n (t # s @ crlf @ r)) 1 = None"
  using crlf_index_take [OF crlf_index_line [OF assms(1), of r], of "n - 1"] assms(2)
  by (cases n) (simp_all add: findCRLF_def)

section \<open>Reading encoded values\<close>

fun client_value :: "RESPValue \<Rightarrow> RespValue" where
  "client_value (RESPSimpleString s) = simpleString s"
| "client_value (RESPError s) = errorValue s"
| "client_value (RESPInteger i) = integerValue i"
| "client_value (RESPBulkString None) = nullBulkString"
| "client_value (RESPBulkString (Some s)) = bulkString s"
| "client_value (RESPArray None) = arrayValue []"
| "client_value (RESPArray (Some vs)) = arrayValue (map client_value vs)"

text \<open>What the client can read: lines without a line end, 64-bit integers and lengths, no null arrays.\<close>

fun client_ok :: "RESPValue \<Rightarrow> bool" where
  "client_ok (RESPSimpleString s) = (crlf_index s = None)"
| "client_ok (RESPError s) = (crlf_index s = None)"
| "client_ok (RESPInteger i) = in_i64 i"
| "client_ok (RESPBulkString None) = True"
| "client_ok (RESPBulkString (Some s)) = (int (length s) \<le> i64_max)"
| "client_ok (RESPArray None) = False"
| "client_ok (RESPArray (Some vs)) = (int (length vs) \<le> i64_max \<and> list_all client_ok vs)"

lemma rp_sel [simp]: "rp_success RespParseResult0 = False" "rp_complete RespParseResult0 = False" "consumed_bytes RespParseResult0 = 0"
  by (simp_all add: RespParseResult0_def)

lemma parse_bulk: "int (length s) \<le> i64_max \<Longrightarrow>
    parseBulk (CHR ''$'' # nat_to_string (length s) @ crlf @ s @ crlf @ rest) = rp_done (length (nat_to_string (length s)) + length s + 5) (bulkString s)"
  using head_line [of "nat_to_string (length s)" "CHR ''$''" "s @ crlf @ rest"]
  by (simp add: parseBulk_def substr_def Let_def nth_append crlf_def)

lemma parse_null: "parseBulk (''$-1'' @ crlf @ rest) = rp_done 5 nullBulkString"
proof -
  have "int_to_string (-1) = ''-1''" by code_simp
  then have p: "parseInt64 ''-1'' = Some (-1)" using parseInt64_int [of "-1"] by (simp add: in_i64_def i64_min_def i64_max_def)
  have "crlf_index ''-1'' = None" by simp
  from head_line [OF this, of "CHR ''$''" rest] p show ?thesis by (simp add: parseBulk_def)
qed

lemma parse_elems_ok:
  assumes "list_all (\<lambda>v. \<forall>rest. parseOne (encode v @ rest) = rp_done (length (encode v)) (client_value v)) vs"
  shows "parse_elems (length vs) (pre @ concat (map encode vs) @ rest) (length pre) elems =
    rp_done (length pre + length (concat (map encode vs))) (arrayValue (elems @ map client_value vs))"
  using assms
proof (induction vs arbitrary: pre elems)
  case (Cons v vs)
  have "parseOne (drop (length pre) (pre @ concat (map encode (v # vs)) @ rest)) = rp_done (length (encode v)) (client_value v)"
    using Cons.prems by simp
  then have "parse_elems (length (v # vs)) (pre @ concat (map encode (v # vs)) @ rest) (length pre) elems =
      parse_elems (length vs) ((pre @ encode v) @ concat (map encode vs) @ rest) (length (pre @ encode v)) (elems @ [client_value v])"
    by (subst parse_elems.simps) simp
  then show ?case using Cons.IH [of "pre @ encode v" "elems @ [client_value v]"] Cons.prems by (simp add: add.assoc)
qed (simp add: parse_elems.simps)

lemma parse_encoded: "client_ok v \<Longrightarrow> parseOne (encode v @ rest) = rp_done (length (encode v)) (client_value v)"
proof (induction v arbitrary: rest rule: client_ok.induct)
  case (1 s)
  then show ?case using head_line [of s "CHR ''+''" rest] by (simp add: parseOne.simps parseLine_def)
next
  case (2 s)
  then show ?case using head_line [of s "CHR ''-''" rest] by (simp add: parseOne.simps parseLine_def)
next
  case (3 i)
  then show ?case using head_line [of "int_to_string i" "CHR '':''" rest] by (simp add: parseOne.simps parseLine_def)
next
  case 4
  then show ?case using parse_null [of rest] by (simp add: parseOne.simps)
next
  case (5 s)
  then show ?case using parse_bulk [of s rest] by (simp add: parseOne.simps)
next
  case (7 vs)
  let ?pre = "CHR ''*'' # nat_to_string (length vs) @ crlf"
  have "list_all (\<lambda>v. \<forall>rest. parseOne (encode v @ rest) = rp_done (length (encode v)) (client_value v)) vs"
    using 7 by (auto simp: list_all_iff)
  from parse_elems_ok [OF this, of ?pre rest "[]"]
  show ?case using head_line [of "nat_to_string (length vs)" "CHR ''*''" "concat (map encode vs) @ rest"] 7(2)
    by (simp add: parseOne.simps)
qed simp

section \<open>Values cut off\<close>

lemma hd_take: "0 < n \<Longrightarrow> hd (take n (t # s)) = t" "0 < n \<Longrightarrow> take n (t # s) \<noteq> []"
  by (cases n; simp)+

lemma cut_head:
  assumes "crlf_index s = None" "n < Suc (length s) + 2" "t \<in> {CHR ''+'', CHR ''-'', CHR '':'', CHR ''$'', CHR ''*''}"
  shows "parseOne (take n (t # s @ crlf @ r)) = rp_incomplete"
proof (cases "n = 0")
  case False
  then show ?thesis
    using cut_line [OF assms(1,2), of t r] assms(3) hd_take [of n t "s @ crlf @ r"]
    by (auto simp: parseOne.simps parseLine_def parseBulk_def)
qed (simp add: parseOne.simps)

lemma cut_body:
  assumes "crlf_index s = None" "Suc (length s) + 2 \<le> n"
  shows "findCRLF (take n (t # s @ crlf @ r)) 1 = Some (Suc (length s))" "substr (take n (t # s @ crlf @ r)) 1 (length s) = s"
    "take n (t # s @ crlf @ r) = t # s @ crlf @ take (n - length s - 3) r"
proof -
  show e: "take n (t # s @ crlf @ r) = t # s @ crlf @ take (n - length s - 3) r"
    using assms(2) by (cases n) simp_all
  show "findCRLF (take n (t # s @ crlf @ r)) 1 = Some (Suc (length s))" "substr (take n (t # s @ crlf @ r)) 1 (length s) = s"
    unfolding e using head_line [OF assms(1)] by blast+
qed

lemma cut_elems:
  assumes "list_all client_ok vs" "list_all (\<lambda>v. \<forall>n < length (encode v). parseOne (take n (encode v)) = rp_incomplete) vs"
    and "n < length (concat (map encode vs))"
  shows "parse_elems (length vs) (pre @ take n (concat (map encode vs))) (length pre) elems = rp_incomplete"
  using assms
proof (induction vs arbitrary: pre elems n)
  case (Cons v vs)
  show ?case
  proof (cases "n < length (encode v)")
    case True
    then have "parseOne (take n (concat (map encode (v # vs)))) = rp_incomplete" using Cons.prems(2) by simp
    then show ?thesis by (subst parse_elems.simps) simp
  next
    case False
    let ?m = "n - length (encode v)"
    have "parseOne (encode v @ take ?m (concat (map encode vs))) = rp_done (length (encode v)) (client_value v)"
      using Cons.prems(1) parse_encoded by simp
    then have "parse_elems (length (v # vs)) (pre @ take n (concat (map encode (v # vs)))) (length pre) elems =
        parse_elems (length vs) ((pre @ encode v) @ take ?m (concat (map encode vs))) (length (pre @ encode v)) (elems @ [client_value v])"
      using False by (subst parse_elems.simps) simp
    also have "\<dots> = rp_incomplete" using Cons.prems False by (intro Cons.IH) simp_all
    finally show ?thesis .
  qed
qed simp

lemma parse_cut: "client_ok v \<Longrightarrow> n < length (encode v) \<Longrightarrow> parseOne (take n (encode v)) = rp_incomplete"
proof (induction v arbitrary: n rule: client_ok.induct)
  case (1 s)
  then show ?case using cut_head [of s n "CHR ''+''" "[]"] by simp
next
  case (2 s)
  then show ?case using cut_head [of s n "CHR ''-''" "[]"] by simp
next
  case (3 i)
  then show ?case using cut_head [of "int_to_string i" n "CHR '':''" "[]"] by simp
next
  case 4
  then show ?case using cut_head [of "''-1''" n "CHR ''$''" "[]"] by simp
next
  case (5 s)
  let ?l = "nat_to_string (length s)"
  show ?case
  proof (cases "n < Suc (length ?l) + 2")
    case True
    then show ?thesis using cut_head [of ?l n "CHR ''$''" "s @ crlf"] by simp
  next
    case False
    note b = cut_body [of ?l n "CHR ''$''" "s @ crlf"]
    have "parseBulk (take n (CHR ''$'' # ?l @ crlf @ s @ crlf)) = rp_incomplete"
      using b(1,2) False 5 by (simp add: parseBulk_def Let_def)
    then show ?thesis using b(3) False by (simp add: parseOne.simps)
  qed
next
  case (7 vs)
  let ?l = "nat_to_string (length vs)"
  show ?case
  proof (cases "n < Suc (length ?l) + 2")
    case True
    then show ?thesis using cut_head [of ?l n "CHR ''*''" "concat (map encode vs)"] by simp
  next
    case False
    note b = cut_body [of ?l n "CHR ''*''" "concat (map encode vs)"]
    have ih: "list_all (\<lambda>v. \<forall>n < length (encode v). parseOne (take n (encode v)) = rp_incomplete) vs"
      using 7(1,2) by (auto simp: list_all_iff)
    have "parse_elems (length vs) ((CHR ''*'' # ?l @ crlf) @ take (n - length ?l - 3) (concat (map encode vs))) (length (CHR ''*'' # ?l @ crlf)) [] =
        rp_incomplete"
      using 7(2,3) False by (intro cut_elems [OF _ ih]) auto
    then show ?thesis using b False 7(2) by (simp add: parseOne.simps)
  qed
qed auto

text \<open>The request of the client is the encoding of the command as an array of bulk strings.\<close>

lemma encode_command: "encodeRespArrayCommand args = encode (RESPArray (Some (map (\<lambda>x. RESPBulkString (Some x)) args)))"
  by (simp add: encodeRespArrayCommand_def comp_def)

text \<open>No result counts more bytes than there are, so no \<^verbatim>\<open>substr\<close> of the parser starts beyond the end.\<close>

lemma parse_consumed:
  "consumed_bytes (parseOne input) \<le> length input"
  "offset \<le> length input \<Longrightarrow> consumed_bytes (parse_elems n input offset elems) \<le> length input"
proof (induction input and n input offset elems rule: parseOne_parse_elems.induct)
  case (1 input)
  have "e + 2 \<le> length input" if "findCRLF input 1 = Some e" for e using findCRLF_bound [OF that] by simp
  then show ?case using 1 by (subst parseOne.simps) (auto simp: parseLine_def parseBulk_def Let_def split: option.split)
next
  case (2 n input offset elems)
  show ?case
  proof (cases "n = 0")
    case False
    let ?sub = "parseOne (drop offset input)"
    have "offset + consumed_bytes ?sub \<le> length input" using 2 False by simp
    moreover have "rp_success ?sub \<Longrightarrow> rp_complete ?sub \<Longrightarrow> consumed_bytes ?sub \<noteq> 0 \<Longrightarrow> offset + consumed_bytes ?sub \<le> length input \<Longrightarrow>
        consumed_bytes (parse_elems (n - 1) input (offset + consumed_bytes ?sub) (elems @ [rp_value ?sub])) \<le> length input"
      using 2(2) [OF False refl] by blast
    ultimately show ?thesis using False by (subst parse_elems.simps) (auto simp: Let_def)
  qed (simp add: parse_elems.simps 2)
qed

end
