(* ===== verification/Client_Lib.thy ===== *)
theory Client_Lib
  imports Client_Codec
begin

text \<open>
  The client library, \<^verbatim>\<open>client/src/Client.cpp\<close>. The operating system is a parameter: \<open>Sock\<close> has one function
  per system call the source uses, on a state \<open>'w\<close> of the world; \<open>SysRc\<close> is what a call returns with the
  \<^verbatim>\<open>errno\<close> the source looks at. Sending and receiving loop as long as the system calls say so, which may
  be forever: \<open>None\<close>. \<open>sys_setfl\<close> sets the given flags, with \<^verbatim>\<open>O_NONBLOCK\<close> added or not. \<^verbatim>\<open>Result<T>\<close> is a sum of success and failure.
\<close>

section \<open>Results and the operating system\<close>

datatype ErrorCode =
    Ok | NotConnected | ConnectFailed | Timeout | IoError | ProtocolError | ServerError | InvalidResponse | InvalidArgument

datatype 'a Result = Success 'a | Failure ErrorCode string

record SysRc =
  rc :: int
  errno_eintr :: bool
  errno_einprogress :: bool
  errno_text :: string

record 'w Sock =
  sys_socket :: "'w \<Rightarrow> SysRc \<times> 'w"
  sys_inet_pton :: "string \<Rightarrow> bool"
  sys_getfl :: "int \<Rightarrow> 'w \<Rightarrow> SysRc \<times> 'w"
  sys_setfl :: "int \<Rightarrow> int \<Rightarrow> bool \<Rightarrow> 'w \<Rightarrow> SysRc \<times> 'w"
  sys_connect :: "int \<Rightarrow> string \<Rightarrow> nat \<Rightarrow> 'w \<Rightarrow> SysRc \<times> 'w"
  sys_so_error :: "int \<Rightarrow> 'w \<Rightarrow> SysRc \<times> int \<times> 'w"
  sys_strerror :: "int \<Rightarrow> string"
  sys_select :: "int \<Rightarrow> bool \<Rightarrow> int \<Rightarrow> 'w \<Rightarrow> SysRc \<times> 'w"
  sys_send :: "int \<Rightarrow> string \<Rightarrow> 'w \<Rightarrow> SysRc \<times> 'w"
  sys_recv :: "int \<Rightarrow> 'w \<Rightarrow> SysRc \<times> string \<times> 'w"
  sys_close :: "int \<Rightarrow> 'w \<Rightarrow> 'w"

record ClientOptions =
  opt_host :: string
  opt_port :: nat
  opt_connect_timeout_ms :: int
  opt_read_timeout_ms :: int
  opt_write_timeout_ms :: int

record Client =
  cl_options :: ClientOptions
  cl_fd :: int
  cl_inbuf :: string

definition new_Client :: "ClientOptions \<Rightarrow> Client" where
  "new_Client opts = \<lparr>cl_options = opts, cl_fd = -1, cl_inbuf = []\<rparr>"

section \<open>Sending and receiving\<close>

definition waitFdReady :: "'w Sock \<Rightarrow> int \<Rightarrow> bool \<Rightarrow> int \<Rightarrow> 'w \<Rightarrow> unit Result \<times> 'w" where
  "waitFdReady os fd writable timeout_ms w =
     (if timeout_ms < 0 then (Failure InvalidArgument ''negative timeout'', w)
      else let (r, w) = sys_select os fd writable timeout_ms w
        in if rc r = 0 then (Failure Timeout ''I/O timeout'', w)
           else if rc r < 0 then (Failure IoError (''select failed: '' @ errno_text r), w)
           else (Success (), w))"

partial_function (option) send_loop :: "'w Sock \<Rightarrow> int \<Rightarrow> string \<Rightarrow> int \<Rightarrow> nat \<Rightarrow> 'w \<Rightarrow> (unit Result \<times> 'w) option" where
  "send_loop os fd request write_timeout_ms sent w =
     (if sent < length request
      then case waitFdReady os fd True write_timeout_ms w of
          (Failure e m, w) \<Rightarrow> Some (Failure e m, w)
        | (Success _, w) \<Rightarrow>
            let (n, w) = sys_send os fd (drop sent request) w
            in if rc n > 0 then send_loop os fd request write_timeout_ms (sent + nat (rc n)) w
               else if rc n < 0 \<and> errno_eintr n then send_loop os fd request write_timeout_ms sent w
               else Some (Failure IoError (''send failed: '' @ errno_text n), w)
      else Some (Success (), w))"

definition sendAllWithTimeout :: "'w Sock \<Rightarrow> int \<Rightarrow> string \<Rightarrow> int \<Rightarrow> 'w \<Rightarrow> (unit Result \<times> 'w) option" where
  "sendAllWithTimeout os fd request write_timeout_ms w = send_loop os fd request write_timeout_ms 0 w"

partial_function (option) recvOneRespWithTimeout ::
  "'w Sock \<Rightarrow> int \<Rightarrow> string \<Rightarrow> int \<Rightarrow> 'w \<Rightarrow> (RespValue Result \<times> string \<times> 'w) option" where
  "recvOneRespWithTimeout os fd inbuf read_timeout_ms w =
     (let parsed = parseRespValue inbuf in
      if \<not> rp_success parsed then Some (Failure ProtocolError (rp_error parsed), inbuf, w)
      else if rp_complete parsed
      then Some (Success (rp_value parsed),
                 if 0 < consumed_bytes parsed \<and> consumed_bytes parsed \<le> length inbuf then drop (consumed_bytes parsed) inbuf else inbuf, w)
      else case waitFdReady os fd False read_timeout_ms w of
          (Failure e m, w) \<Rightarrow> Some (Failure e m, inbuf, w)
        | (Success _, w) \<Rightarrow>
            let (n, buf, w) = sys_recv os fd w
            in if rc n > 0 then recvOneRespWithTimeout os fd (inbuf @ take (nat (rc n)) buf) read_timeout_ms w
               else if rc n = 0 then Some (Failure IoError ''peer closed connection'', inbuf, w)
               else if errno_eintr n then recvOneRespWithTimeout os fd inbuf read_timeout_ms w
               else Some (Failure IoError (''recv failed: '' @ errno_text n), inbuf, w))"

section \<open>The connection\<close>

definition isConnected :: "Client \<Rightarrow> bool" where
  "isConnected c \<longleftrightarrow> cl_fd c \<ge> 0"

definition client_close :: "'w Sock \<Rightarrow> Client \<Rightarrow> 'w \<Rightarrow> Client \<times> 'w" where
  "client_close os c w =
     (if cl_fd c \<ge> 0 then (c\<lparr>cl_fd := -1, cl_inbuf := []\<rparr>, sys_close os (cl_fd c) w) else (c\<lparr>cl_inbuf := []\<rparr>, w))"

text \<open>The result of a failed \<^verbatim>\<open>connect\<close> after the socket was made: it is closed.\<close>

definition give_up :: "'w Sock \<Rightarrow> int \<Rightarrow> ErrorCode \<Rightarrow> string \<Rightarrow> Client \<Rightarrow> 'w \<Rightarrow> unit Result \<times> Client \<times> 'w" where
  "give_up os fd code msg c w = (Failure code msg, c, sys_close os fd w)"

definition finish_connect :: "'w Sock \<Rightarrow> int \<Rightarrow> int \<Rightarrow> Client \<Rightarrow> 'w \<Rightarrow> unit Result \<times> Client \<times> 'w" where
  "finish_connect os fd old_flags c w =
     (let (r, w) = sys_setfl os fd old_flags False w in
      if rc r < 0 then give_up os fd IoError (''restore blocking mode failed: '' @ errno_text r) c w
      else (Success (), c\<lparr>cl_fd := fd, cl_inbuf := []\<rparr>, w))"

definition wait_connect :: "'w Sock \<Rightarrow> int \<Rightarrow> int \<Rightarrow> Client \<Rightarrow> 'w \<Rightarrow> unit Result \<times> Client \<times> 'w" where
  "wait_connect os fd old_flags c w = (case waitFdReady os fd True (opt_connect_timeout_ms (cl_options c)) w of
      (Failure e m, w) \<Rightarrow> give_up os fd e m c w
    | (Success _, w) \<Rightarrow>
        let (r, so_error, w) = sys_so_error os fd w in
        if rc r < 0 then give_up os fd ConnectFailed (''getsockopt(SO_ERROR) failed: '' @ errno_text r) c w
        else if so_error \<noteq> 0 then give_up os fd ConnectFailed (''connect failed: '' @ sys_strerror os so_error) c w
        else finish_connect os fd old_flags c w)"

definition client_connect :: "'w Sock \<Rightarrow> Client \<Rightarrow> 'w \<Rightarrow> unit Result \<times> Client \<times> 'w" where
  "client_connect os c w =
     (if isConnected c then (Success (), c, w)
      else let (s, w) = sys_socket os w; fd = rc s in
        if fd < 0 then (Failure ConnectFailed (''socket failed: '' @ errno_text s), c, w)
        else if \<not> sys_inet_pton os (opt_host (cl_options c)) then give_up os fd InvalidArgument ''invalid IPv4 address'' c w
        else let (r, w) = sys_getfl os fd w; old_flags = rc r in
        if old_flags < 0 then give_up os fd IoError (''fcntl(F_GETFL) failed: '' @ errno_text r) c w
        else let (r, w) = sys_setfl os fd old_flags True w in
        if rc r < 0 then give_up os fd IoError (''fcntl(F_SETFL) failed: '' @ errno_text r) c w
        else let (r, w) = sys_connect os fd (opt_host (cl_options c)) (opt_port (cl_options c)) w in
        if rc r < 0 \<and> \<not> errno_einprogress r then give_up os fd ConnectFailed (''connect failed: '' @ errno_text r) c w
        else if rc r < 0 then wait_connect os fd old_flags c w
        else finish_connect os fd old_flags c w)"

section \<open>Commands\<close>

definition on_io_error :: "'w Sock \<Rightarrow> ErrorCode \<Rightarrow> Client \<Rightarrow> 'w \<Rightarrow> Client \<times> 'w" where
  "on_io_error os code c w = (if code = IoError then client_close os c w else (c, w))"

definition client_command :: "'w Sock \<Rightarrow> string list \<Rightarrow> Client \<Rightarrow> 'w \<Rightarrow> (RespValue Result \<times> Client \<times> 'w) option" where
  "client_command os args c w =
     (if \<not> isConnected c then Some (Failure NotConnected ''not connected'', c, w)
      else if args = [] then Some (Failure InvalidArgument ''empty command args'', c, w)
      else case sendAllWithTimeout os (cl_fd c) (encodeRespArrayCommand args) (opt_write_timeout_ms (cl_options c)) w of
          None \<Rightarrow> None
        | Some (Failure e m, w) \<Rightarrow> Some (Failure e m, c, w)
        | Some (Success _, w) \<Rightarrow> (case recvOneRespWithTimeout os (cl_fd c) (cl_inbuf c) (opt_read_timeout_ms (cl_options c)) w of
              None \<Rightarrow> None
            | Some (Failure e m, inbuf, w) \<Rightarrow>
                let (c, w) = on_io_error os e (c\<lparr>cl_inbuf := inbuf\<rparr>) w in Some (Failure e m, c, w)
            | Some (Success v, inbuf, w) \<Rightarrow>
                Some (if rv_type v = Error then Failure ServerError (rv_str v) else Success v, c\<lparr>cl_inbuf := inbuf\<rparr>, w)))"

record PipelineOptions =
  fail_on_server_error :: bool
  close_on_server_error :: bool

definition PipelineOptions0 :: PipelineOptions where
  "PipelineOptions0 = \<lparr>fail_on_server_error = False, close_on_server_error = True\<rparr>"

fun pipeline_recv ::
  "'w Sock \<Rightarrow> PipelineOptions \<Rightarrow> nat \<Rightarrow> nat \<Rightarrow> RespValue list \<Rightarrow> Client \<Rightarrow> 'w \<Rightarrow> (RespValue list Result \<times> Client \<times> 'w) option" where
  "pipeline_recv os options i 0 out c w = Some (Success out, c, w)"
| "pipeline_recv os options i (Suc n) out c w =
     (case recvOneRespWithTimeout os (cl_fd c) (cl_inbuf c) (opt_read_timeout_ms (cl_options c)) w of
        None \<Rightarrow> None
      | Some (Failure e m, inbuf, w) \<Rightarrow>
          let (c, w) = on_io_error os e (c\<lparr>cl_inbuf := inbuf\<rparr>) w in Some (Failure e m, c, w)
      | Some (Success v, inbuf, w) \<Rightarrow>
          let c = c\<lparr>cl_inbuf := inbuf\<rparr> in
          if fail_on_server_error options \<and> rv_type v = Error
          then let (c, w) = (if close_on_server_error options then client_close os c w else (c, w))
               in Some (Failure ServerError (''pipeline command['' @ nat_to_string i @ ''] failed: '' @ rv_str v), c, w)
          else pipeline_recv os options (Suc i) n (out @ [v]) c w)"

definition client_pipeline ::
  "'w Sock \<Rightarrow> string list list \<Rightarrow> PipelineOptions \<Rightarrow> Client \<Rightarrow> 'w \<Rightarrow> (RespValue list Result \<times> Client \<times> 'w) option" where
  "client_pipeline os commands options c w =
     (if \<not> isConnected c then Some (Failure NotConnected ''not connected'', c, w)
      else if commands = [] then Some (Failure InvalidArgument ''empty pipeline commands'', c, w)
      else if [] \<in> set commands then Some (Failure InvalidArgument ''pipeline contains empty command'', c, w)
      else case sendAllWithTimeout os (cl_fd c) (concat (map encodeRespArrayCommand commands)) (opt_write_timeout_ms (cl_options c)) w of
          None \<Rightarrow> None
        | Some (Failure e m, w) \<Rightarrow> Some (Failure e m, c, w)
        | Some (Success _, w) \<Rightarrow> pipeline_recv os options 0 (length commands) [] c w)"

section \<open>What the typed calls expect\<close>

definition typed :: "(RespValue \<Rightarrow> 'a Result) \<Rightarrow> (RespValue Result \<times> Client \<times> 'w) option \<Rightarrow> ('a Result \<times> Client \<times> 'w) option" where
  "typed f = map_option (apfst (\<lambda>r. case r of Failure e m \<Rightarrow> Failure e m | Success v \<Rightarrow> f v))"

definition is_string :: "RespValue \<Rightarrow> bool" where
  "is_string v \<longleftrightarrow> rv_type v = BulkString \<or> rv_type v = SimpleString"

definition is_ok :: "RespValue \<Rightarrow> bool" where
  "is_ok v \<longleftrightarrow> rv_type v = SimpleString \<and> rv_str v = ''OK''"

definition expect_string :: "string \<Rightarrow> RespValue \<Rightarrow> string Result" where
  "expect_string msg v = (if is_string v then Success (rv_str v) else Failure InvalidResponse msg)"

definition expect_optional :: "string \<Rightarrow> RespValue \<Rightarrow> string option Result" where
  "expect_optional msg v =
     (if rv_type v = NullBulkString then Success None
      else if is_string v then Success (Some (rv_str v)) else Failure InvalidResponse msg)"

definition expect_ok :: "string \<Rightarrow> RespValue \<Rightarrow> unit Result" where
  "expect_ok msg v = (if is_ok v then Success () else Failure InvalidResponse msg)"

definition expect_int :: "string \<Rightarrow> RespValue \<Rightarrow> int Result" where
  "expect_int msg v = (if rv_type v = Integer then Success (rv_integer v) else Failure InvalidResponse msg)"

definition expect_strings :: "string \<Rightarrow> string \<Rightarrow> RespValue \<Rightarrow> string list Result" where
  "expect_strings msg elem_msg v =
     (if rv_type v \<noteq> Array then Failure InvalidResponse msg
      else if \<not> list_all is_string (rv_array v) then Failure InvalidResponse elem_msg
      else Success (map rv_str (rv_array v)))"

fun string_pairs :: "RespValue list \<Rightarrow> (string \<times> string) list Result" where
  "string_pairs (k # v # vs) =
     (if \<not> is_string k \<or> \<not> is_string v then Failure InvalidResponse ''HGETALL array element must be string''
      else case string_pairs vs of Failure e m \<Rightarrow> Failure e m | Success out \<Rightarrow> Success ((rv_str k, rv_str v) # out))"
| "string_pairs _ = Success []"

definition expect_pairs :: "RespValue \<Rightarrow> (string \<times> string) list Result" where
  "expect_pairs v =
     (if rv_type v \<noteq> Array then Failure InvalidResponse ''HGETALL expected array response''
      else if length (rv_array v) mod 2 \<noteq> 0 then Failure InvalidResponse ''HGETALL array size should be even''
      else string_pairs (rv_array v))"

section \<open>The typed calls\<close>

definition client_ping :: "'w Sock \<Rightarrow> Client \<Rightarrow> 'w \<Rightarrow> (string Result \<times> Client \<times> 'w) option" where
  "client_ping os c w = typed (expect_string ''PING expected string response'') (client_command os [''PING''] c w)"

definition client_get :: "'w Sock \<Rightarrow> string \<Rightarrow> Client \<Rightarrow> 'w \<Rightarrow> (string option Result \<times> Client \<times> 'w) option" where
  "client_get os key c w = typed (expect_optional ''GET expected bulk string response'') (client_command os [''GET'', key] c w)"

definition client_set :: "'w Sock \<Rightarrow> string \<Rightarrow> string \<Rightarrow> Client \<Rightarrow> 'w \<Rightarrow> (unit Result \<times> Client \<times> 'w) option" where
  "client_set os key val c w = typed (expect_ok ''SET expected +OK'') (client_command os [''SET'', key, val] c w)"

definition client_del :: "'w Sock \<Rightarrow> string \<Rightarrow> Client \<Rightarrow> 'w \<Rightarrow> (int Result \<times> Client \<times> 'w) option" where
  "client_del os key c w = typed (expect_int ''DEL expected integer response'') (client_command os [''DEL'', key] c w)"

definition client_exists :: "'w Sock \<Rightarrow> string list \<Rightarrow> Client \<Rightarrow> 'w \<Rightarrow> (int Result \<times> Client \<times> 'w) option" where
  "client_exists os keys c w = (if keys = [] then Some (Failure InvalidArgument ''EXISTS requires at least one key'', c, w)
     else typed (expect_int ''EXISTS expected integer response'') (client_command os (''EXISTS'' # keys) c w))"

definition client_keys :: "'w Sock \<Rightarrow> Client \<Rightarrow> 'w \<Rightarrow> (string list Result \<times> Client \<times> 'w) option" where
  "client_keys os c w = typed (expect_strings ''KEYS expected array response'' ''KEYS array element must be string'') (client_command os [''KEYS'', ''*''] c w)"

definition client_dbsize :: "'w Sock \<Rightarrow> Client \<Rightarrow> 'w \<Rightarrow> (int Result \<times> Client \<times> 'w) option" where
  "client_dbsize os c w = typed (expect_int ''DBSIZE expected integer response'') (client_command os [''DBSIZE''] c w)"

definition client_flushall :: "'w Sock \<Rightarrow> Client \<Rightarrow> 'w \<Rightarrow> (unit Result \<times> Client \<times> 'w) option" where
  "client_flushall os c w = typed (expect_ok ''FLUSHALL expected +OK'') (client_command os [''FLUSHALL''] c w)"

definition client_stats :: "'w Sock \<Rightarrow> Client \<Rightarrow> 'w \<Rightarrow> (string Result \<times> Client \<times> 'w) option" where
  "client_stats os c w = typed (expect_string ''STATS expected bulk string response'') (client_command os [''STATS''] c w)"

definition client_monitor :: "'w Sock \<Rightarrow> Client \<Rightarrow> 'w \<Rightarrow> (string Result \<times> Client \<times> 'w) option" where
  "client_monitor os c w = typed (expect_string ''MONITOR expected bulk string response'') (client_command os [''MONITOR''] c w)"

definition client_snapshot :: "'w Sock \<Rightarrow> Client \<Rightarrow> 'w \<Rightarrow> (unit Result \<times> Client \<times> 'w) option" where
  "client_snapshot os c w = typed (expect_ok ''SNAPSHOT expected +OK'') (client_command os [''SNAPSHOT''] c w)"

definition client_health :: "'w Sock \<Rightarrow> Client \<Rightarrow> 'w \<Rightarrow> (unit Result \<times> Client \<times> 'w) option" where
  "client_health os c w = typed (expect_ok ''HEALTH expected +OK'') (client_command os [''HEALTH''] c w)"

definition client_debugInfo :: "'w Sock \<Rightarrow> Client \<Rightarrow> 'w \<Rightarrow> (string Result \<times> Client \<times> 'w) option" where
  "client_debugInfo os c w = typed (expect_string ''DEBUG INFO expected bulk string response'') (client_command os [''DEBUG'', ''INFO''] c w)"

definition client_debugResetStats :: "'w Sock \<Rightarrow> Client \<Rightarrow> 'w \<Rightarrow> (unit Result \<times> Client \<times> 'w) option" where
  "client_debugResetStats os c w = typed (expect_ok ''DEBUG RESETSTATS expected +OK'') (client_command os [''DEBUG'', ''RESETSTATS''] c w)"

definition client_expire :: "'w Sock \<Rightarrow> string \<Rightarrow> int \<Rightarrow> Client \<Rightarrow> 'w \<Rightarrow> (int Result \<times> Client \<times> 'w) option" where
  "client_expire os key seconds c w = typed (expect_int ''EXPIRE expected integer response'') (client_command os [''EXPIRE'', key, int_to_string seconds] c w)"

definition client_ttl :: "'w Sock \<Rightarrow> string \<Rightarrow> Client \<Rightarrow> 'w \<Rightarrow> (int Result \<times> Client \<times> 'w) option" where
  "client_ttl os key c w = typed (expect_int ''TTL expected integer response'') (client_command os [''TTL'', key] c w)"

definition client_pttl :: "'w Sock \<Rightarrow> string \<Rightarrow> Client \<Rightarrow> 'w \<Rightarrow> (int Result \<times> Client \<times> 'w) option" where
  "client_pttl os key c w = typed (expect_int ''PTTL expected integer response'') (client_command os [''PTTL'', key] c w)"

definition client_persist :: "'w Sock \<Rightarrow> string \<Rightarrow> Client \<Rightarrow> 'w \<Rightarrow> (int Result \<times> Client \<times> 'w) option" where
  "client_persist os key c w = typed (expect_int ''PERSIST expected integer response'') (client_command os [''PERSIST'', key] c w)"

definition client_lpush :: "'w Sock \<Rightarrow> string \<Rightarrow> string list \<Rightarrow> Client \<Rightarrow> 'w \<Rightarrow> (int Result \<times> Client \<times> 'w) option" where
  "client_lpush os key values c w = (if values = [] then Some (Failure InvalidArgument ''LPUSH requires values'', c, w)
     else typed (expect_int ''LPUSH expected integer response'') (client_command os (''LPUSH'' # key # values) c w))"

definition client_rpush :: "'w Sock \<Rightarrow> string \<Rightarrow> string list \<Rightarrow> Client \<Rightarrow> 'w \<Rightarrow> (int Result \<times> Client \<times> 'w) option" where
  "client_rpush os key values c w = (if values = [] then Some (Failure InvalidArgument ''RPUSH requires values'', c, w)
     else typed (expect_int ''RPUSH expected integer response'') (client_command os (''RPUSH'' # key # values) c w))"

definition client_lpop :: "'w Sock \<Rightarrow> string \<Rightarrow> Client \<Rightarrow> 'w \<Rightarrow> (string option Result \<times> Client \<times> 'w) option" where
  "client_lpop os key c w = typed (expect_optional ''LPOP expected bulk/null response'') (client_command os [''LPOP'', key] c w)"

definition client_rpop :: "'w Sock \<Rightarrow> string \<Rightarrow> Client \<Rightarrow> 'w \<Rightarrow> (string option Result \<times> Client \<times> 'w) option" where
  "client_rpop os key c w = typed (expect_optional ''RPOP expected bulk/null response'') (client_command os [''RPOP'', key] c w)"

definition client_llen :: "'w Sock \<Rightarrow> string \<Rightarrow> Client \<Rightarrow> 'w \<Rightarrow> (int Result \<times> Client \<times> 'w) option" where
  "client_llen os key c w = typed (expect_int ''LLEN expected integer response'') (client_command os [''LLEN'', key] c w)"

definition client_lindex :: "'w Sock \<Rightarrow> string \<Rightarrow> int \<Rightarrow> Client \<Rightarrow> 'w \<Rightarrow> (string option Result \<times> Client \<times> 'w) option" where
  "client_lindex os key index c w = typed (expect_optional ''LINDEX expected bulk/null response'') (client_command os [''LINDEX'', key, int_to_string index] c w)"

definition client_sadd :: "'w Sock \<Rightarrow> string \<Rightarrow> string list \<Rightarrow> Client \<Rightarrow> 'w \<Rightarrow> (int Result \<times> Client \<times> 'w) option" where
  "client_sadd os key members c w = (if members = [] then Some (Failure InvalidArgument ''SADD requires members'', c, w)
     else typed (expect_int ''SADD expected integer response'') (client_command os (''SADD'' # key # members) c w))"

definition client_srem :: "'w Sock \<Rightarrow> string \<Rightarrow> string list \<Rightarrow> Client \<Rightarrow> 'w \<Rightarrow> (int Result \<times> Client \<times> 'w) option" where
  "client_srem os key members c w = (if members = [] then Some (Failure InvalidArgument ''SREM requires members'', c, w)
     else typed (expect_int ''SREM expected integer response'') (client_command os (''SREM'' # key # members) c w))"

definition client_scard :: "'w Sock \<Rightarrow> string \<Rightarrow> Client \<Rightarrow> 'w \<Rightarrow> (int Result \<times> Client \<times> 'w) option" where
  "client_scard os key c w = typed (expect_int ''SCARD expected integer response'') (client_command os [''SCARD'', key] c w)"

definition client_sismember :: "'w Sock \<Rightarrow> string \<Rightarrow> string \<Rightarrow> Client \<Rightarrow> 'w \<Rightarrow> (int Result \<times> Client \<times> 'w) option" where
  "client_sismember os key member c w = typed (expect_int ''SISMEMBER expected integer response'') (client_command os [''SISMEMBER'', key, member] c w)"

definition client_smembers :: "'w Sock \<Rightarrow> string \<Rightarrow> Client \<Rightarrow> 'w \<Rightarrow> (string list Result \<times> Client \<times> 'w) option" where
  "client_smembers os key c w = typed (expect_strings ''SMEMBERS expected array response'' ''SMEMBERS array element must be string'') (client_command os [''SMEMBERS'', key] c w)"

definition client_hset :: "'w Sock \<Rightarrow> string \<Rightarrow> (string \<times> string) list \<Rightarrow> Client \<Rightarrow> 'w \<Rightarrow> (int Result \<times> Client \<times> 'w) option" where
  "client_hset os key field_values c w = (if field_values = [] then Some (Failure InvalidArgument ''HSET requires field-value pairs'', c, w)
     else typed (expect_int ''HSET expected integer response'') (client_command os (''HSET'' # key # concat (map (\<lambda>(f, v). [f, v]) field_values)) c w))"

definition client_hget :: "'w Sock \<Rightarrow> string \<Rightarrow> string \<Rightarrow> Client \<Rightarrow> 'w \<Rightarrow> (string option Result \<times> Client \<times> 'w) option" where
  "client_hget os key field c w = typed (expect_optional ''HGET expected bulk/null response'') (client_command os [''HGET'', key, field] c w)"

definition client_hdel :: "'w Sock \<Rightarrow> string \<Rightarrow> string list \<Rightarrow> Client \<Rightarrow> 'w \<Rightarrow> (int Result \<times> Client \<times> 'w) option" where
  "client_hdel os key hfields c w = (if hfields = [] then Some (Failure InvalidArgument ''HDEL requires fields'', c, w)
     else typed (expect_int ''HDEL expected integer response'') (client_command os (''HDEL'' # key # hfields) c w))"

definition client_hlen :: "'w Sock \<Rightarrow> string \<Rightarrow> Client \<Rightarrow> 'w \<Rightarrow> (int Result \<times> Client \<times> 'w) option" where
  "client_hlen os key c w = typed (expect_int ''HLEN expected integer response'') (client_command os [''HLEN'', key] c w)"

definition client_hexists :: "'w Sock \<Rightarrow> string \<Rightarrow> string \<Rightarrow> Client \<Rightarrow> 'w \<Rightarrow> (int Result \<times> Client \<times> 'w) option" where
  "client_hexists os key field c w = typed (expect_int ''HEXISTS expected integer response'') (client_command os [''HEXISTS'', key, field] c w)"

definition client_hgetall :: "'w Sock \<Rightarrow> string \<Rightarrow> Client \<Rightarrow> 'w \<Rightarrow> ((string \<times> string) list Result \<times> Client \<times> 'w) option" where
  "client_hgetall os key c w = typed (expect_pairs) (client_command os [''HGETALL'', key] c w)"

fun optional_strings :: "RespValue list \<Rightarrow> string option list Result" where
  "optional_strings [] = Success []"
| "optional_strings (v # vs) =
     (case (if rv_type v = NullBulkString then Success None
            else if is_string v then Success (Some (rv_str v))
            else if rv_type v = Error then Failure ServerError (rv_str v)
            else Failure InvalidResponse ''MGET expected bulk/null response'') of
        Failure e m \<Rightarrow> Failure e m
      | Success x \<Rightarrow> (case optional_strings vs of Failure e m \<Rightarrow> Failure e m | Success out \<Rightarrow> Success (x # out)))"

definition client_mget :: "'w Sock \<Rightarrow> string list \<Rightarrow> Client \<Rightarrow> 'w \<Rightarrow> (string option list Result \<times> Client \<times> 'w) option" where
  "client_mget os keys c w =
     (if keys = [] then Some (Failure InvalidArgument ''empty keys'', c, w)
      else map_option (apfst (\<lambda>r. case r of Failure e m \<Rightarrow> Failure e m | Success vs \<Rightarrow> optional_strings vs))
             (client_pipeline os (map (\<lambda>k. [''GET'', k]) keys) PipelineOptions0 c w))"

definition client_mset :: "'w Sock \<Rightarrow> (string \<times> string) list \<Rightarrow> Client \<Rightarrow> 'w \<Rightarrow> (unit Result \<times> Client \<times> 'w) option" where
  "client_mset os kvs c w =
     (if kvs = [] then Some (Failure InvalidArgument ''empty kvs'', c, w)
      else map_option (apfst (\<lambda>r. case r of Failure e m \<Rightarrow> Failure e m
               | Success vs \<Rightarrow> if list_all is_ok vs then Success () else Failure InvalidResponse ''MSET expected +OK responses''))
             (client_pipeline os (map (\<lambda>(k, v). [''SET'', k, v]) kvs) \<lparr>fail_on_server_error = True, close_on_server_error = True\<rparr> c w))"

definition client_multi :: "'w Sock \<Rightarrow> Client \<Rightarrow> 'w \<Rightarrow> (unit Result \<times> Client \<times> 'w) option" where
  "client_multi os c w = typed (expect_ok ''MULTI expected +OK'') (client_command os [''MULTI''] c w)"

definition client_exec :: "'w Sock \<Rightarrow> Client \<Rightarrow> 'w \<Rightarrow> (RespValue list Result \<times> Client \<times> 'w) option" where
  "client_exec os c w = typed (\<lambda>v. if rv_type v \<noteq> Array then Failure InvalidResponse ''EXEC expected array response'' else Success (rv_array v)) (client_command os [''EXEC''] c w)"

definition client_discard :: "'w Sock \<Rightarrow> Client \<Rightarrow> 'w \<Rightarrow> (unit Result \<times> Client \<times> 'w) option" where
  "client_discard os c w = typed (expect_ok ''DISCARD expected +OK'') (client_command os [''DISCARD''] c w)"

definition client_publish :: "'w Sock \<Rightarrow> string \<Rightarrow> string \<Rightarrow> Client \<Rightarrow> 'w \<Rightarrow> (int Result \<times> Client \<times> 'w) option" where
  "client_publish os channel payload c w = typed (expect_int ''PUBLISH expected integer response'') (client_command os [''PUBLISH'', channel, payload] c w)"

definition client_subscribe :: "'w Sock \<Rightarrow> string list \<Rightarrow> Client \<Rightarrow> 'w \<Rightarrow> (RespValue Result \<times> Client \<times> 'w) option" where
  "client_subscribe os channels c w = (if channels = [] then Some (Failure InvalidArgument ''SUBSCRIBE requires at least one channel'', c, w)
     else client_command os (''SUBSCRIBE'' # channels) c w)"

definition client_unsubscribe :: "'w Sock \<Rightarrow> string list \<Rightarrow> Client \<Rightarrow> 'w \<Rightarrow> (RespValue Result \<times> Client \<times> 'w) option" where
  "client_unsubscribe os channels c w = client_command os (''UNSUBSCRIBE'' # channels) c w"

end
