(* ===== verification/Client_Link.thy ===== *)
theory Client_Link
  imports Client_Lib
begin

text \<open>
  What the client relies on of its socket, as locales: \<open>reply_stream\<close> says that the bytes on their way to the
  client arrive in order, in pieces of any size and between interrupted calls; \<open>client_link\<close> adds that a
  request is taken whole. The lemmas are the calls of the client over such a socket.
\<close>

section \<open>Receiving\<close>

locale reply_stream =
  fixes os :: "'w Sock" and fd :: int and incoming :: "'w \<Rightarrow> string" and interrupts :: "'w \<Rightarrow> nat" and peer :: "'w \<Rightarrow> 'p"
  assumes readable: "incoming w \<noteq> [] \<Longrightarrow> sys_select os fd False t w = (r, w') \<Longrightarrow>
      0 < rc r \<and> incoming w' = incoming w \<and> interrupts w' = interrupts w \<and> peer w' = peer w"
    and received: "incoming w \<noteq> [] \<Longrightarrow> sys_recv os fd w = (r, buf, w') \<Longrightarrow> peer w' = peer w \<and>
      (0 < rc r \<and> nat (rc r) \<le> length buf \<and> incoming w = take (nat (rc r)) buf @ incoming w' \<and> interrupts w' \<le> interrupts w \<or>
       rc r < 0 \<and> errno_eintr r \<and> incoming w' = incoming w \<and> interrupts w' < interrupts w)"
begin

lemma wait_readable:
  assumes "incoming w \<noteq> []" "0 \<le> t"
  obtains w' where "waitFdReady os fd False t w = (Success (), w')" "incoming w' = incoming w" "interrupts w' = interrupts w" "peer w' = peer w"
proof -
  obtain r w' where r: "sys_select os fd False t w = (r, w')" by fastforce
  with readable [OF assms(1) r] assms(2) show thesis by (intro that [of w']) (simp_all add: waitFdReady_def)
qed

text \<open>A reply is received whole, however it is cut into pieces, and nothing after it is taken.\<close>

lemma recv_reply:
  assumes "client_ok v" "inbuf @ incoming w = encode v @ rest" "0 \<le> t"
  shows "\<exists>inbuf' w'. recvOneRespWithTimeout os fd inbuf t w = Some (Success (client_value v), inbuf', w') \<and>
    inbuf' @ incoming w' = rest \<and> peer w' = peer w"
  using assms(2)
proof (induction "length (incoming w) + interrupts w" arbitrary: inbuf w rule: less_induct)
  case less
  show ?case
  proof (cases "length (encode v) \<le> length inbuf")
    case True
    then have "take (length (encode v)) inbuf = encode v" using arg_cong [OF less.prems, of "take (length (encode v))"] by simp
    then obtain r where "inbuf = encode v @ r" by (metis append_take_drop_id)
    moreover from this have "r @ incoming w = rest" using less.prems by simp
    ultimately show ?thesis using parse_encoded [OF assms(1), of r]
      by (subst recvOneRespWithTimeout.simps) (simp add: parseRespValue_def)
  next
    case False
    then have inb: "inbuf = take (length inbuf) (encode v)" using less.prems by (simp add: append_eq_append_conv_if)
    then have p: "parseRespValue inbuf = rp_incomplete" using parse_cut [OF assms(1), of "length inbuf"] False by (simp add: parseRespValue_def)
    have ne: "incoming w \<noteq> []" using False less.prems by auto
    obtain w1 where w1: "waitFdReady os fd False t w = (Success (), w1)" "incoming w1 = incoming w" "interrupts w1 = interrupts w" "peer w1 = peer w"
      using wait_readable [OF ne assms(3)] by blast
    obtain n buf w2 where n: "sys_recv os fd w1 = (n, buf, w2)" by (cases "sys_recv os fd w1") auto
    let ?in = "if 0 < rc n then inbuf @ take (nat (rc n)) buf else inbuf"
    have q: "peer w2 = peer w1" "?in @ incoming w2 = encode v @ rest" "length (incoming w2) + interrupts w2 < length (incoming w) + interrupts w"
        "0 < rc n \<or> rc n < 0 \<and> errno_eintr n"
      using received [of w1, OF _ n] ne w1(2,3) less.prems by auto
    have "recvOneRespWithTimeout os fd inbuf t w = recvOneRespWithTimeout os fd ?in t w2"
      using q(4) by (subst recvOneRespWithTimeout.simps) (auto simp: p w1(1) n)
    then show ?thesis using less.hyps [OF q(3,2)] q(1) w1(4) by simp
  qed
qed

text \<open>The replies of a pipeline, one after the other.\<close>

lemma recv_replies:
  assumes "list_all client_ok vs" "cl_inbuf c @ incoming w = concat (map encode vs) @ rest" "cl_fd c = fd"
    "0 \<le> opt_read_timeout_ms (cl_options c)" "\<not> fail_on_server_error opts"
  shows "\<exists>inbuf' w'. pipeline_recv os opts i (length vs) out c w = Some (Success (out @ map client_value vs), c\<lparr>cl_inbuf := inbuf'\<rparr>, w') \<and>
    inbuf' @ incoming w' = rest \<and> peer w' = peer w"
  using assms(1-4)
proof (induction vs arbitrary: i out c w)
  case Nil
  then show ?case by (intro exI [of _ "cl_inbuf c"]) simp
next
  case (Cons v vs)
  obtain inb w1 where 1: "recvOneRespWithTimeout os fd (cl_inbuf c) (opt_read_timeout_ms (cl_options c)) w = Some (Success (client_value v), inb, w1)"
      "inb @ incoming w1 = concat (map encode vs) @ rest" "peer w1 = peer w"
    using recv_reply [of v "cl_inbuf c" w "concat (map encode vs) @ rest" "opt_read_timeout_ms (cl_options c)"] Cons.prems by auto
  with Cons.IH [of "c\<lparr>cl_inbuf := inb\<rparr>" w1 "Suc i" "out @ [client_value v]"] Cons.prems assms(5) show ?case by auto
qed

end

section \<open>Commands\<close>

locale client_link = reply_stream +
  fixes after_send :: "string \<Rightarrow> 'a \<Rightarrow> 'a"
  assumes writable: "sys_select os fd True t w = (r, w') \<Longrightarrow> 0 < rc r \<and> w' = w"
    and taken: "d \<noteq> [] \<Longrightarrow> sys_send os fd d w = (r, w') \<Longrightarrow> rc r = int (length d) \<and> w' = after_send d w"
begin

lemma send_whole:
  assumes "d \<noteq> []" "0 \<le> t"
  shows "sendAllWithTimeout os fd d t w = Some (Success (), after_send d w)"
proof -
  obtain r w1 where r: "sys_select os fd True t w = (r, w1)" by fastforce
  obtain n w2 where n: "sys_send os fd d w = (n, w2)" by fastforce
  have "waitFdReady os fd True t w = (Success (), w)" using writable [OF r] r assms(2) by (simp add: waitFdReady_def)
  then have "send_loop os fd d t 0 w = send_loop os fd d t (length d) (after_send d w)"
    using taken [OF assms(1) n] assms(1) n by (subst send_loop.simps) simp
  then show ?thesis by (simp add: sendAllWithTimeout_def send_loop.simps [of _ _ _ _ "length d"])
qed

lemma encode_command_ne: "encodeRespArrayCommand args \<noteq> []"
  by (simp add: encodeRespArrayCommand_def)



lemma command_reply:
  assumes "cl_fd c = fd" "0 \<le> fd" "args \<noteq> []" "0 \<le> opt_read_timeout_ms (cl_options c)" "0 \<le> opt_write_timeout_ms (cl_options c)"
    and "client_ok v" "cl_inbuf c @ incoming (after_send (encodeRespArrayCommand args) w) = encode v @ rest"
  shows "\<exists>inbuf' w'. client_command os args c w =
      Some (if rv_type (client_value v) = Error then Failure ServerError (rv_str (client_value v)) else Success (client_value v),
        c\<lparr>cl_inbuf := inbuf'\<rparr>, w') \<and>
    inbuf' @ incoming w' = rest \<and> peer w' = peer (after_send (encodeRespArrayCommand args) w)"
  using recv_reply [OF assms(6,7,4)] send_whole [OF encode_command_ne assms(5), of args w] assms(1-3)
  by (auto simp: client_command_def isConnected_def)

lemma pipeline_replies:
  assumes "cl_fd c = fd" "0 \<le> fd" "cmds \<noteq> []" "[] \<notin> set cmds" "0 \<le> opt_read_timeout_ms (cl_options c)" "0 \<le> opt_write_timeout_ms (cl_options c)"
    and "list_all client_ok vs" "length vs = length cmds" "\<not> fail_on_server_error opts"
    and "cl_inbuf c @ incoming (after_send (concat (map encodeRespArrayCommand cmds)) w) = concat (map encode vs) @ rest"
  shows "\<exists>inbuf' w'. client_pipeline os cmds opts c w = Some (Success (map client_value vs), c\<lparr>cl_inbuf := inbuf'\<rparr>, w') \<and>
    inbuf' @ incoming w' = rest \<and> peer w' = peer (after_send (concat (map encodeRespArrayCommand cmds)) w)"
proof -
  have "concat (map encodeRespArrayCommand cmds) \<noteq> []" using assms(3) encode_command_ne by (cases cmds) auto
  from send_whole [OF this assms(6), of w] recv_replies [OF assms(7,10,1,5,9), of 0 "[]"] assms(1-4,8)
  show ?thesis by (auto simp: client_pipeline_def isConnected_def)
qed

end

end
