(* ===== verification/Std_Containers.thy ===== *)
theory Std_Containers
  imports SunKV_Prelude
begin

text \<open>
  The ordered containers of the C++ standard library that the data model uses,
  \<^verbatim>\<open>std::set<std::string>\<close> and \<^verbatim>\<open>std::map<std::string, std::string>\<close>, as strictly sorted lists,
  with the interface that the engine relies on: how membership and size change under insertion
  and erasure, for one element and for a loop over several.
\<close>

section \<open>Ordered containers\<close>

text \<open>
  \<^verbatim>\<open>std::set\<close> and \<^verbatim>\<open>std::map\<close> over strings iterate in lexicographic order of unsigned
  characters, which is the order of \<^typ>\<open>string\<close> here. A set is its strictly increasing list of
  elements, a map its list of pairs with strictly increasing keys.
\<close>

abbreviation ordered :: "'a::linorder list \<Rightarrow> bool" where
  "ordered xs \<equiv> sorted_wrt (<) xs"

abbreviation key_ordered :: "('a::linorder \<times> 'b) list \<Rightarrow> bool" where
  "key_ordered ps \<equiv> sorted_wrt (<) (map fst ps)"

fun std_set_insert :: "'a::linorder \<Rightarrow> 'a list \<Rightarrow> 'a list" where
  "std_set_insert x [] = [x]"
| "std_set_insert x (y # ys) =
     (if y < x then y # std_set_insert x ys else if x = y then y # ys else x # y # ys)"

definition std_set_erase :: "'a::linorder \<Rightarrow> 'a list \<Rightarrow> 'a list" where
  "std_set_erase x ys = filter (\<lambda>y. y \<noteq> x) ys"

fun std_map_assign :: "'a::linorder \<Rightarrow> 'b \<Rightarrow> ('a \<times> 'b) list \<Rightarrow> ('a \<times> 'b) list" where
  "std_map_assign k v [] = [(k, v)]"
| "std_map_assign k v ((k', v') # ps) =
     (if k' < k then (k', v') # std_map_assign k v ps
      else if k = k' then (k, v) # ps else (k, v) # (k', v') # ps)"

definition std_map_emplace :: "'a::linorder \<Rightarrow> 'b \<Rightarrow> ('a \<times> 'b) list \<Rightarrow> ('a \<times> 'b) list" where
  "std_map_emplace k v ps = (if map_of ps k = None then std_map_assign k v ps else ps)"

definition std_map_erase :: "'a::linorder \<Rightarrow> ('a \<times> 'b) list \<Rightarrow> ('a \<times> 'b) list" where
  "std_map_erase k ps = filter (\<lambda>p. fst p \<noteq> k) ps"

lemma set_std_set_insert [simp]: "set (std_set_insert x ys) = insert x (set ys)"
  by (induction ys) auto

lemma ordered_std_set_insert: "ordered ys \<Longrightarrow> ordered (std_set_insert x ys)"
  by (induction ys) auto

lemma set_std_set_erase [simp]: "set (std_set_erase x ys) = set ys - {x}"
  by (auto simp: std_set_erase_def)

lemma ordered_std_set_erase: "ordered ys \<Longrightarrow> ordered (std_set_erase x ys)"
  by (auto simp: std_set_erase_def sorted_wrt_filter)

lemma map_of_std_map_assign [simp]: "map_of (std_map_assign k v ps) = (map_of ps)(k \<mapsto> v)"
  by (induction ps) (auto simp: fun_eq_iff)

lemma keys_std_map_assign [simp]:
  "fst ` set (std_map_assign k v ps) = insert k (fst ` set ps)"
  by (induction k v ps rule: std_map_assign.induct) (simp_all add: insert_commute)

lemma key_ordered_std_map_assign: "key_ordered ps \<Longrightarrow> key_ordered (std_map_assign k v ps)"
proof (induction ps)
  case (Cons p ps)
  then show ?case
    using keys_std_map_assign [of k v ps] by (cases p) auto
qed simp

lemma map_of_std_map_erase [simp]: "map_of (std_map_erase k ps) = (map_of ps)(k := None)"
  by (induction ps) (auto simp: fun_eq_iff std_map_erase_def)

lemma key_ordered_std_map_erase: "key_ordered ps \<Longrightarrow> key_ordered (std_map_erase k ps)"
  by (induction ps) (auto simp: std_map_erase_def)

lemma ordered_distinct: "ordered xs \<Longrightarrow> distinct (xs :: 'a::linorder list)"
  by (induction xs) auto

text \<open>
  Building a container by inserting its own elements in order gives the container back: the
  decoders rely on it.
\<close>

lemma std_set_insert_snoc:
  "ordered (xs @ [x]) \<Longrightarrow> std_set_insert x xs = xs @ [x]"
  by (induction xs) auto

lemma std_map_assign_snoc:
  "key_ordered (ps @ [(k, v)]) \<Longrightarrow> std_map_assign k v ps = ps @ [(k, v)]"
  by (induction ps) auto

lemma std_map_emplace_snoc:
  assumes "key_ordered (ps @ [(k, v)])"
  shows "std_map_emplace k v ps = ps @ [(k, v)]"
proof -
  have "map_of ps k = None"
    using assms by (auto simp: map_of_eq_None_iff sorted_wrt_append)
  then show ?thesis
    using assms by (simp add: std_map_emplace_def std_map_assign_snoc)
qed

section \<open>The interface the engine relies on\<close>

locale set_container =
  fixes ins :: "'a \<Rightarrow> 's \<Rightarrow> 's"
    and del :: "'a \<Rightarrow> 's \<Rightarrow> 's"
    and elems :: "'s \<Rightarrow> 'a list"
    and ok :: "'s \<Rightarrow> bool"
  assumes set_ins: "ok s \<Longrightarrow> set (elems (ins x s)) = insert x (set (elems s))"
    and set_del: "ok s \<Longrightarrow> set (elems (del x s)) = set (elems s) - {x}"
    and ok_ins: "ok s \<Longrightarrow> ok (ins x s)"
    and ok_del: "ok s \<Longrightarrow> ok (del x s)"
    and distinct_elems: "ok s \<Longrightarrow> distinct (elems s)"
begin

lemma size_card: "ok s \<Longrightarrow> length (elems s) = card (set (elems s))"
  by (simp add: distinct_elems distinct_card)

lemma ok_fold_ins: "ok s \<Longrightarrow> ok (fold ins xs s)"
  by (induction xs arbitrary: s) (auto simp: ok_ins)

lemma set_fold_ins: "ok s \<Longrightarrow> set (elems (fold ins xs s)) = set xs \<union> set (elems s)"
  by (induction xs arbitrary: s) (auto simp: ok_ins set_ins)

lemma size_fold_ins:
  assumes "ok s"
  shows "length (elems (fold ins xs s)) = length (elems s) + card (set xs - set (elems s))"
proof -
  have "set xs \<union> set (elems s) = (set xs - set (elems s)) \<union> set (elems s)" by blast
  moreover have "card ((set xs - set (elems s)) \<union> set (elems s))
      = card (set xs - set (elems s)) + card (set (elems s))"
    by (rule card_Un_disjoint) auto
  ultimately show ?thesis
    using assms by (simp add: size_card ok_fold_ins set_fold_ins)
qed

lemma ok_fold_del: "ok s \<Longrightarrow> ok (fold del xs s)"
  by (induction xs arbitrary: s) (auto simp: ok_del)

lemma set_fold_del: "ok s \<Longrightarrow> set (elems (fold del xs s)) = set (elems s) - set xs"
  by (induction xs arbitrary: s) (auto simp: ok_del set_del)

lemma size_fold_del:
  assumes "ok s"
  shows "length (elems (fold del xs s)) + card (set xs \<inter> set (elems s)) = length (elems s)"
proof -
  have eq: "set (elems s) = (set (elems s) - set xs) \<union> (set xs \<inter> set (elems s))" by blast
  have "card ((set (elems s) - set xs) \<union> (set xs \<inter> set (elems s)))
      = card (set (elems s) - set xs) + card (set xs \<inter> set (elems s))"
    by (rule card_Un_disjoint) auto
  with eq have "card (set (elems s)) = card (set (elems s) - set xs) + card (set xs \<inter> set (elems s))"
    by metis
  then show ?thesis
    using assms by (simp add: size_card ok_fold_del set_fold_del)
qed

end

interpretation sset: set_container "std_set_insert :: string \<Rightarrow> string list \<Rightarrow> string list"
    std_set_erase id "\<lambda>s. ordered s"
  by unfold_locales (auto simp: ordered_std_set_insert ordered_std_set_erase ordered_distinct)

text \<open>
  A map container is a set container on its keys, together with the lookup laws.
\<close>

locale map_container = set_container ins0 del keys ok
  for ins0 :: "'k \<Rightarrow> 'm \<Rightarrow> 'm" and del :: "'k \<Rightarrow> 'm \<Rightarrow> 'm" and keys :: "'m \<Rightarrow> 'k list"
    and ok :: "'m \<Rightarrow> bool" +
  fixes find :: "'m \<Rightarrow> 'k \<Rightarrow> 'v option"
    and assign :: "'k \<Rightarrow> 'v \<Rightarrow> 'm \<Rightarrow> 'm"
  assumes find_keys: "ok m \<Longrightarrow> (find m k \<noteq> None) = (k \<in> set (keys m))"
    and find_assign: "ok m \<Longrightarrow> find (assign k v m) = (find m)(k \<mapsto> v)"
    and find_del: "ok m \<Longrightarrow> find (del k m) = (find m)(k := None)"
    and ok_assign: "ok m \<Longrightarrow> ok (assign k v m)"
    and keys_assign: "ok m \<Longrightarrow> set (keys (assign k v m)) = insert k (set (keys m))"
begin

lemma find_dom: "ok m \<Longrightarrow> dom (find m) = set (keys m)"
  by (auto simp: find_keys [symmetric])

lemma find_fold_del: "ok m \<Longrightarrow> find (fold del ks m) = (\<lambda>k. if k \<in> set ks then None else find m k)"
proof (induction ks arbitrary: m)
  case (Cons x ks)
  then show ?case by (simp add: ok_del find_del fun_eq_iff)
qed simp

lemma empty_iff: "ok m \<Longrightarrow> (keys m = []) = (find m = Map.empty)"
  using find_dom [of m] by auto

end

interpretation smap: map_container "\<lambda>k. std_map_emplace (k :: string) ([] :: string)"
    std_map_erase "map fst" "\<lambda>m. key_ordered m" map_of std_map_assign
proof unfold_locales
  fix x and s :: "(string \<times> string) list"
  assume s: "key_ordered s"
  show "set (map fst (std_map_emplace x [] s)) = insert x (set (map fst s))"
    by (simp add: std_map_emplace_def map_of_eq_None_iff insert_absorb)
  show "set (map fst (std_map_erase x s)) = set (map fst s) - {x}"
    by (auto simp: std_map_erase_def)
  show "key_ordered (std_map_emplace x [] s)"
    using s by (simp add: std_map_emplace_def key_ordered_std_map_assign)
  show "key_ordered (std_map_erase x s)"
    using s by (rule key_ordered_std_map_erase)
  show "distinct (map fst s)"
    using s by (rule ordered_distinct)
next
  fix m :: "(string \<times> string) list" and k v :: string
  assume m: "key_ordered m"
  show "(map_of m k \<noteq> None) = (k \<in> set (map fst m))"
    by (simp add: map_of_eq_None_iff)
  show "map_of (std_map_assign k v m) = (map_of m)(k \<mapsto> v)" by simp
  show "map_of (std_map_erase k m) = (map_of m)(k := None)" by simp
  show "key_ordered (std_map_assign k v m)"
    using m by (rule key_ordered_std_map_assign)
  show "set (map fst (std_map_assign k v m)) = insert k (set (map fst m))" by simp
qed

end
