(* ===== verification/Data_Model.thy ===== *)
theory Data_Model
  imports Std_Containers
begin

text \<open>
  The data model of \<^verbatim>\<open>storage2\<close>: stored values, records, mutations and results of storage calls
  (\<^verbatim>\<open>storage2/model\<close>, \<^verbatim>\<open>storage2/engine/Mutation.h\<close>, \<^verbatim>\<open>storage2/api\<close>). A \<^verbatim>\<open>DataValue\<close> keeps its
  type tag and one field for each kind of value, as the struct does; \<open>dv_wf\<close> says that only the
  field of its type is used. The two \<^verbatim>\<open>steady_clock\<close> time points of the struct are left out: no
  code of the storage reads them.
\<close>

section \<open>Values and records\<close>

datatype DataType = STRING | LIST | SET | HASH

record DataValue =
  dv_type :: DataType
  string_value :: string
  list_value :: "string list"
  set_value :: "string list"
  hash_value :: "(string \<times> string) list"
  ttl_seconds :: int

definition NO_TTL :: int where
  "NO_TTL = -1"

text \<open>The default constructor and the constructor from a string.\<close>

definition DataValue0 :: DataValue where
  "DataValue0 = \<lparr>dv_type = STRING, string_value = [], list_value = [], set_value = [],
     hash_value = [], ttl_seconds = NO_TTL\<rparr>"

definition DataValue_str :: "string \<Rightarrow> DataValue" where
  "DataValue_str s = DataValue0\<lparr>dv_type := STRING, string_value := s\<rparr>"

record Record =
  rec_value :: DataValue
  expire_at_us :: int
  version :: u64

definition Record0 :: Record where
  "Record0 = \<lparr>rec_value = DataValue0, expire_at_us = -1, version = 0\<rparr>"

definition dv_wf :: "DataValue \<Rightarrow> bool" where
  "dv_wf v \<longleftrightarrow>
     (dv_type v \<noteq> STRING \<longrightarrow> string_value v = []) \<and>
     (dv_type v \<noteq> LIST \<longrightarrow> list_value v = []) \<and>
     (dv_type v \<noteq> SET \<longrightarrow> set_value v = []) \<and>
     (dv_type v \<noteq> HASH \<longrightarrow> hash_value v = []) \<and>
     ordered (set_value v) \<and> key_ordered (hash_value v) \<and> ttl_seconds v = NO_TTL"

definition rec_wf :: "Record \<Rightarrow> bool" where
  "rec_wf r \<longleftrightarrow> dv_wf (rec_value r) \<and> in_i64 (expire_at_us r)"

lemma dv_wf_DataValue0 [simp]: "dv_wf DataValue0"
  by (simp add: dv_wf_def DataValue0_def)

lemma dv_wf_DataValue_str [simp]: "dv_wf (DataValue_str s)"
  by (simp add: dv_wf_def DataValue_str_def DataValue0_def)

section \<open>Mutations\<close>

text \<open>
  The enumeration \<^verbatim>\<open>MutationType\<close> is also the target of a cast from a byte of a WAL file, which
  can leave a value that is none of the three enumerators: \<open>MutationRaw\<close>.
\<close>

datatype MutationType = PutRecord | DelKey | ClearAll | MutationRaw byte

record Mutation =
  mut_type :: MutationType
  mut_key :: string
  mut_record :: "Record option"
  ts_us :: int

definition mut_put :: "string \<Rightarrow> Record \<Rightarrow> int \<Rightarrow> Mutation" where
  "mut_put k r t = \<lparr>mut_type = PutRecord, mut_key = k, mut_record = Some r, ts_us = t\<rparr>"

definition mut_del :: "string \<Rightarrow> int \<Rightarrow> Mutation" where
  "mut_del k t = \<lparr>mut_type = DelKey, mut_key = k, mut_record = None, ts_us = t\<rparr>"

definition mut_clear :: "int \<Rightarrow> Mutation" where
  "mut_clear t = \<lparr>mut_type = ClearAll, mut_key = [], mut_record = None, ts_us = t\<rparr>"

lemmas mut_defs = mut_put_def mut_del_def mut_clear_def

section \<open>Results of storage calls\<close>

datatype StatusCode =
  Ok | NotFound | WrongType | InvalidArg | InternalError | NotImplemented | QuotaExceeded

record 'a StorageResult =
  sr_status :: StatusCode
  sr_value :: 'a
  sr_mutations :: "Mutation list"

definition sr_ok :: "'a \<Rightarrow> Mutation list \<Rightarrow> 'a StorageResult" where
  "sr_ok v ms = \<lparr>sr_status = Ok, sr_value = v, sr_mutations = ms\<rparr>"

text \<open>\<open>sr_err d s\<close>: the value of an error result is the default value \<open>d\<close> of its type.\<close>

definition sr_err :: "'a \<Rightarrow> StatusCode \<Rightarrow> 'a StorageResult" where
  "sr_err d s = \<lparr>sr_status = s, sr_value = d, sr_mutations = []\<rparr>"

lemma sr_ok_simps [simp]:
  "sr_status (sr_ok v ms) = Ok" "sr_value (sr_ok v ms) = v" "sr_mutations (sr_ok v ms) = ms"
  by (simp_all add: sr_ok_def)

lemma sr_err_simps [simp]:
  "sr_status (sr_err d s) = s" "sr_value (sr_err d s) = d" "sr_mutations (sr_err d s) = []"
  by (simp_all add: sr_err_def)

section \<open>The effect of a mutation on a keyspace\<close>

text \<open>
  The meaning of the mutation log: what a list of mutations does to a map from keys to records.
  A mutation that cannot be applied (a put without its record, an unknown type) has no effect
  here; the engine reports it as a failure.
\<close>

type_synonym keyspace = "string \<rightharpoonup> Record"

definition mut_ok :: "Mutation \<Rightarrow> bool" where
  "mut_ok m = (case mut_type m of PutRecord \<Rightarrow> mut_record m \<noteq> None | DelKey \<Rightarrow> True
     | ClearAll \<Rightarrow> True | MutationRaw b \<Rightarrow> False)"

text \<open>A well-formed mutation carries a record exactly when it is a put.\<close>

definition mut_wf :: "Mutation \<Rightarrow> bool" where
  "mut_wf m \<longleftrightarrow> mut_ok m \<and> in_i64 (ts_us m) \<and>
     (\<forall>r. mut_record m = Some r \<longrightarrow> mut_type m = PutRecord \<and> rec_wf r)"

definition mut_effect :: "Mutation \<Rightarrow> keyspace \<Rightarrow> keyspace" where
  "mut_effect m ks = (case mut_type m of
      PutRecord \<Rightarrow> (case mut_record m of None \<Rightarrow> ks | Some r \<Rightarrow> ks(mut_key m \<mapsto> r))
    | DelKey \<Rightarrow> ks(mut_key m := None)
    | ClearAll \<Rightarrow> Map.empty
    | MutationRaw b \<Rightarrow> ks)"

definition replay :: "Mutation list \<Rightarrow> keyspace \<Rightarrow> keyspace" where
  "replay ms ks = fold mut_effect ms ks"

lemma mut_effect_simps [simp]:
  "mut_effect (mut_put k r t) ks = ks(k \<mapsto> r)"
  "mut_effect (mut_del k t) ks = ks(k := None)"
  "mut_effect (mut_clear t) ks = Map.empty"
  by (simp_all add: mut_effect_def mut_defs)

lemma mut_ok_simps [simp]:
  "mut_ok (mut_put k r t)" "mut_ok (mut_del k t)" "mut_ok (mut_clear t)"
  by (simp_all add: mut_ok_def mut_defs)

lemma mut_key_simps [simp]:
  "mut_key (mut_put k r t) = k" "mut_key (mut_del k t) = k"
  by (simp_all add: mut_defs)

lemma replay_simps [simp]:
  "replay [] ks = ks"
  "replay (m # ms) ks = replay ms (mut_effect m ks)"
  "replay (ms @ ns) ks = replay ns (replay ms ks)"
  by (simp_all add: replay_def)

text \<open>
  What replaying leaves at a key is decided by the log alone once the log touches that key: the
  reason why replaying the whole log over a snapshot taken in the middle of it is harmless.
\<close>

definition touches :: "Mutation list \<Rightarrow> string \<Rightarrow> bool" where
  "touches ms k \<longleftrightarrow> (\<exists>m \<in> set ms. mut_ok m \<and> (mut_type m = ClearAll \<or> mut_key m = k))"

lemma mut_effect_cong: "ks k = ks' k \<Longrightarrow> mut_effect m ks k = mut_effect m ks' k"
  by (auto simp: mut_effect_def split: MutationType.splits option.splits)

lemma replay_cong: "ks k = ks' k \<Longrightarrow> replay ms ks k = replay ms ks' k"
proof (induction ms arbitrary: ks ks')
  case (Cons m ms)
  then have "mut_effect m ks k = mut_effect m ks' k" by (intro mut_effect_cong)
  then show ?case unfolding replay_simps by (rule Cons.IH)
qed simp

lemma mut_effect_touch:
  "mut_ok m \<Longrightarrow> mut_type m = ClearAll \<or> mut_key m = k \<Longrightarrow> mut_effect m ks k = mut_effect m ks' k"
  by (auto simp: mut_effect_def mut_ok_def split: MutationType.splits option.splits)

lemma mut_effect_untouched:
  "mut_ok m \<Longrightarrow> mut_type m \<noteq> ClearAll \<Longrightarrow> mut_key m \<noteq> k \<Longrightarrow> mut_effect m ks k = ks k"
  by (auto simp: mut_effect_def mut_ok_def split: MutationType.splits option.splits)

lemma replay_touched: "touches ms k \<Longrightarrow> replay ms ks k = replay ms ks' k"
proof (induction ms arbitrary: ks ks')
  case (Cons m ms)
  show ?case
  proof (cases "touches ms k")
    case True
    then have "replay ms (mut_effect m ks) k = replay ms (mut_effect m ks') k" by (rule Cons.IH)
    then show ?thesis by simp
  next
    case False
    with Cons.prems have "mut_ok m" "mut_type m = ClearAll \<or> mut_key m = k"
      by (auto simp: touches_def)
    then have "mut_effect m ks k = mut_effect m ks' k" by (rule mut_effect_touch)
    then have "replay ms (mut_effect m ks) k = replay ms (mut_effect m ks') k" by (rule replay_cong)
    then show ?thesis by simp
  qed
qed (simp add: touches_def)

lemma replay_untouched: "\<not> touches ms k \<Longrightarrow> \<forall>m \<in> set ms. mut_ok m \<Longrightarrow> replay ms ks k = ks k"
  by (induction ms arbitrary: ks) (auto simp: touches_def mut_effect_untouched)

end
