(* ===== verification/Codec_Base.thy ===== *)
theory Codec_Base
  imports Data_Model
begin

text \<open>
  The byte-level readers and writers that the three codecs of \<^verbatim>\<open>storage2/persistence\<close> share (each
  file has its own copy of these static functions): little-endian integers and length-prefixed
  strings. A reader takes the buffer and an offset and returns the value and the next offset, or
  nothing where the C++ function returns false. Offsets are natural numbers: an offset is at most
  the length of the buffer and grows by less than \<open>2 ^ 32\<close>, so that \<^verbatim>\<open>size_t\<close> does not wrap.
\<close>

unbundle bit_operations_syntax

section \<open>Readers and writers\<close>

definition appendU8 :: "byte \<Rightarrow> byte list" where
  "appendU8 v = [v]"

definition appendU32 :: "u32 \<Rightarrow> byte list" where
  "appendU32 v = map (\<lambda>i. ucast (drop_bit (i * 8) v AND 0xFF)) [0..<4]"

definition appendU64 :: "u64 \<Rightarrow> byte list" where
  "appendU64 v = map (\<lambda>i. ucast (drop_bit (i * 8) v AND 0xFF)) [0..<8]"

definition appendI64 :: "int \<Rightarrow> byte list" where
  "appendI64 v = appendU64 (word_of_int v)"

definition appendString :: "string \<Rightarrow> byte list" where
  "appendString s = appendU32 (word_of_nat (length s)) @ bytes_of s"

definition readU8 :: "byte list \<Rightarrow> nat \<Rightarrow> (byte \<times> nat) option" where
  "readU8 data off = (if off + 1 > length data then None else Some (data ! off, off + 1))"

definition readU32 :: "byte list \<Rightarrow> nat \<Rightarrow> (u32 \<times> nat) option" where
  "readU32 data off =
     (if off + 4 > length data then None
      else Some (foldl (\<lambda>v i. v OR push_bit (i * 8) (ucast (data ! (off + i)))) 0 [0..<4], off + 4))"

definition readU64 :: "byte list \<Rightarrow> nat \<Rightarrow> (u64 \<times> nat) option" where
  "readU64 data off =
     (if off + 8 > length data then None
      else Some (foldl (\<lambda>v i. v OR push_bit (i * 8) (ucast (data ! (off + i)))) 0 [0..<8], off + 8))"

definition readI64 :: "byte list \<Rightarrow> nat \<Rightarrow> (int \<times> nat) option" where
  "readI64 data off = (case readU64 data off of None \<Rightarrow> None | Some (v, off) \<Rightarrow> Some (sint v, off))"

definition readString :: "byte list \<Rightarrow> nat \<Rightarrow> (string \<times> nat) option" where
  "readString data off = (case readU32 data off of
      None \<Rightarrow> None
    | Some (n, off) \<Rightarrow>
        if off + unat n > length data then None
        else Some (string_of (take (unat n) (drop off data)), off + unat n))"

section \<open>Little-endian integers\<close>

lemma byte_at:
  fixes v :: "'a::len word"
  assumes "8 \<le> LENGTH('a)"
  shows "(ucast (ucast (drop_bit n v AND 0xFF) :: byte) :: 'a word) = take_bit 8 (drop_bit n v)"
proof -
  have m: "drop_bit n v AND 0xFF = take_bit 8 (drop_bit n v)"
    by (simp add: take_bit_eq_mask mask_eq_exp_minus_1)
  show ?thesis
    unfolding m using assms by (intro bit_word_eqI) (auto simp: bit_simps)
qed

lemma or_next_byte:
  "take_bit (n * 8) v OR push_bit (n * 8) (take_bit 8 (drop_bit (n * 8) v)) =
     take_bit (Suc n * 8) (v :: 'a::len word)"
  by (rule bit_word_eqI) (auto simp: bit_simps)

lemma foldl_bytes:
  fixes v :: "'a::len word"
  assumes "8 \<le> LENGTH('a)"
    and "\<And>i. i < n \<Longrightarrow> bs i = (ucast (drop_bit (i * 8) v AND 0xFF) :: byte)"
  shows "foldl (\<lambda>w i. w OR push_bit (i * 8) (ucast (bs i))) 0 [0..<n] = take_bit (n * 8) v"
  using assms(2)
proof (induction n)
  case (Suc n)
  then show ?case
    using or_next_byte [of n v] byte_at [OF assms(1)] by simp
qed simp

section \<open>The interface of a wire format\<close>

text \<open>
  A reader and a writer fit together if the reader finds the value at any offset and moves behind
  it, and reads the same value from a buffer that is cut off, unless the cut is in front of
  its new offset: then it refuses.
\<close>

locale wire_format =
  fixes enc :: "'a \<Rightarrow> byte list"
    and dec :: "byte list \<Rightarrow> nat \<Rightarrow> ('a \<times> nat) option"
    and valid :: "'a \<Rightarrow> bool"
  assumes dec_enc: "valid x \<Longrightarrow> dec (pre @ enc x @ post) (length pre) = Some (x, length pre + length (enc x))"
    and dec_take: "n \<le> length data \<Longrightarrow> dec (take n data) off =
      (case dec data off of None \<Rightarrow> None | Some (x, off') \<Rightarrow> if off' \<le> n then Some (x, off') else None)"
begin

lemma dec_short:
  assumes "valid x" "n < length (enc x)"
  shows "dec (pre @ take n (enc x)) (length pre) = None"
  using dec_take [of "length pre + n" "pre @ enc x" "length pre"] dec_enc [OF assms(1), of pre "[]"] assms(2)
  by simp

lemma dec_at:
  "valid x \<Longrightarrow> data = pre @ enc x @ post \<Longrightarrow> off = length pre \<Longrightarrow>
     dec data off = Some (x, off + length (enc x))"
  by (simp add: dec_enc)

lemma dec_only: "valid x \<Longrightarrow> dec (enc x) 0 = Some (x, length (enc x))"
  using dec_enc [of x "[]" "[]"] by simp

text \<open>Encodings are prefix free: the value and the rest are determined by the bytes.\<close>

lemma prefix_free: "valid x \<Longrightarrow> valid y \<Longrightarrow> enc x @ r = enc y @ s \<Longrightarrow> x = y \<and> r = s"
  using dec_enc [of x "[]" r] dec_enc [of y "[]" s] by auto

end

lemma readU32_enc:
  "readU32 (pre @ appendU32 v @ post) (length pre) = Some (v, length pre + length (appendU32 v))"
  using foldl_bytes [of 4 "\<lambda>i. (pre @ appendU32 v @ post) ! (length pre + i)" v]
  by (simp add: readU32_def appendU32_def nth_append take_bit_word_eq_self)

lemma readU64_enc:
  "readU64 (pre @ appendU64 v @ post) (length pre) = Some (v, length pre + length (appendU64 v))"
  using foldl_bytes [of 8 "\<lambda>i. (pre @ appendU64 v @ post) ! (length pre + i)" v]
  by (simp add: readU64_def appendU64_def nth_append take_bit_word_eq_self)

lemma length_enc [simp]:
  "length (appendU8 b) = 1" "length (appendU32 v) = 4" "length (appendU64 w) = 8"
  "length (appendI64 x) = 8" "length (appendString s) = 4 + length s"
  by (simp_all add: appendU8_def appendU32_def appendU64_def appendI64_def appendString_def)

interpretation wu8: wire_format appendU8 readU8 "\<lambda>_. True"
  by unfold_locales (auto simp: readU8_def appendU8_def nth_append)

interpretation wu32: wire_format appendU32 readU32 "\<lambda>_. True"
proof unfold_locales
  fix n off and data :: "byte list"
  assume "n \<le> length data"
  then show "readU32 (take n data) off = (case readU32 data off of None \<Rightarrow> None
      | Some (x, off') \<Rightarrow> if off' \<le> n then Some (x, off') else None)"
    by (auto simp: readU32_def intro!: foldl_cong)
qed (rule readU32_enc)

interpretation wu64: wire_format appendU64 readU64 "\<lambda>_. True"
proof unfold_locales
  fix n off and data :: "byte list"
  assume "n \<le> length data"
  then show "readU64 (take n data) off = (case readU64 data off of None \<Rightarrow> None
      | Some (x, off') \<Rightarrow> if off' \<le> n then Some (x, off') else None)"
    by (auto simp: readU64_def intro!: foldl_cong)
qed (rule readU64_enc)

interpretation wi64: wire_format appendI64 readI64 in_i64
  by unfold_locales (auto simp: readI64_def appendI64_def wu64.dec_enc wu64.dec_take sint_word_of_int_i64_id
      split: option.split)

interpretation wstr: wire_format appendString readString "\<lambda>s. length s < 2 ^ 32"
proof unfold_locales
  fix s :: string and pre post
  assume "length s < 2 ^ 32"
  then show "readString (pre @ appendString s @ post) (length pre) = Some (s, length pre + length (appendString s))"
    using wu32.dec_enc [where x = "word_of_nat (length s)" and pre = pre and post = "bytes_of s @ post"]
    by (simp add: readString_def appendString_def unat_of_nat)
next
  fix n off and data :: "byte list"
  assume "n \<le> length data"
  then show "readString (take n data) off = (case readString data off of None \<Rightarrow> None
      | Some (x, off') \<Rightarrow> if off' \<le> n then Some (x, off') else None)"
    by (auto simp: readString_def wu32.dec_take take_drop min_def split: option.split)
qed

end
