(* ===== verification/Codecs.thy ===== *)
theory Codecs
  imports Codec_Base "HOL-Library.Monad_Syntax"
begin

text \<open>
  \<^verbatim>\<open>DataValueCodec\<close>, \<^verbatim>\<open>RecordCodec\<close> and \<^verbatim>\<open>WalCodec\<close> of \<^verbatim>\<open>storage2/persistence\<close>: the binary form of
  values, records and mutations. A decoder gets exactly the bytes its caller passes; \<^verbatim>\<open>false\<close> is
  \<open>None\<close>.
\<close>

section \<open>Values\<close>

definition kVersion :: byte where
  "kVersion = 1"

definition type_byte :: "DataType \<Rightarrow> byte" where
  "type_byte t = (case t of STRING \<Rightarrow> 0 | LIST \<Rightarrow> 1 | SET \<Rightarrow> 2 | HASH \<Rightarrow> 3)"

definition appendCount :: "nat \<Rightarrow> byte list" where
  "appendCount n = appendU32 (word_of_nat n)"

definition DataValueCodec_payload :: "DataValue \<Rightarrow> byte list" where
  "DataValueCodec_payload v = (case dv_type v of
      STRING \<Rightarrow> appendString (string_value v)
    | LIST \<Rightarrow> appendCount (length (list_value v)) @ concat (map appendString (list_value v))
    | SET \<Rightarrow> appendCount (length (set_value v)) @ concat (map appendString (set_value v))
    | HASH \<Rightarrow> appendCount (length (hash_value v)) @
        concat (map (\<lambda>kv. appendString (fst kv) @ appendString (snd kv)) (hash_value v)))"

definition DataValueCodec_encode :: "DataValue \<Rightarrow> int \<Rightarrow> byte list" where
  "DataValueCodec_encode v expire_at =
     (let payload = DataValueCodec_payload v in
      appendU8 (byte_of_char CHR ''D'') @ appendU8 (byte_of_char CHR ''V'') @ appendU8 kVersion @
      appendU8 (type_byte (dv_type v)) @ appendU8 0 @ appendU8 0 @ appendI64 expire_at @
      appendCount (length payload) @ payload)"

fun readItems ::
    "nat \<Rightarrow> (string \<Rightarrow> 'c \<Rightarrow> 'c) \<Rightarrow> byte list \<Rightarrow> nat \<Rightarrow> 'c \<Rightarrow> ('c \<times> nat) option" where
  "readItems 0 ins p off acc = Some (acc, off)"
| "readItems (Suc n) ins p off acc = do {
     (item, off) \<leftarrow> readString p off;
     readItems n ins p off (ins item acc) }"

fun readPairs ::
    "nat \<Rightarrow> byte list \<Rightarrow> nat \<Rightarrow> (string \<times> string) list \<Rightarrow> ((string \<times> string) list \<times> nat) option" where
  "readPairs 0 p off acc = Some (acc, off)"
| "readPairs (Suc n) p off acc = do {
     (k, off) \<leftarrow> readString p off;
     (val, off) \<leftarrow> readString p off;
     readPairs n p off (std_map_emplace k val acc) }"

definition DataValueCodec_body :: "byte \<Rightarrow> byte list \<Rightarrow> DataValue option" where
  "DataValueCodec_body t p =
     (if t = 0 then do {
        (s, _) \<leftarrow> readString p 0;
        Some (DataValue0\<lparr>dv_type := STRING, string_value := s, ttl_seconds := -1\<rparr>) }
      else if t = 1 then do {
        (n, off) \<leftarrow> readU32 p 0;
        (l, _) \<leftarrow> readItems (unat n) (\<lambda>x l. l @ [x]) p off [];
        Some (DataValue0\<lparr>dv_type := LIST, list_value := l, ttl_seconds := -1\<rparr>) }
      else if t = 2 then do {
        (n, off) \<leftarrow> readU32 p 0;
        (s, _) \<leftarrow> readItems (unat n) std_set_insert p off [];
        Some (DataValue0\<lparr>dv_type := SET, set_value := s, ttl_seconds := -1\<rparr>) }
      else if t = 3 then do {
        (n, off) \<leftarrow> readU32 p 0;
        (h, _) \<leftarrow> readPairs (unat n) p off [];
        Some (DataValue0\<lparr>dv_type := HASH, hash_value := h, ttl_seconds := -1\<rparr>) }
      else None)"

definition DataValueCodec_decode :: "byte list \<Rightarrow> (DataValue \<times> int) option" where
  "DataValueCodec_decode data = do {
     (m1, off) \<leftarrow> readU8 data 0;
     (m2, off) \<leftarrow> readU8 data off;
     if m1 \<noteq> byte_of_char CHR ''D'' \<or> m2 \<noteq> byte_of_char CHR ''V'' then None else do {
     (ver, off) \<leftarrow> readU8 data off;
     if ver \<noteq> kVersion then None else do {
     (type_u8, off) \<leftarrow> readU8 data off;
     (flags, off) \<leftarrow> readU8 data off;
     (reserved, off) \<leftarrow> readU8 data off;
     (exp, off) \<leftarrow> readI64 data off;
     (payload_len, off) \<leftarrow> readU32 data off;
     if off + unat payload_len > length data then None else do {
     v \<leftarrow> DataValueCodec_body type_u8 (take (unat payload_len) (drop off data));
     Some (v, exp) }}}}"

section \<open>Records\<close>

definition RecordCodec_encode :: "Record \<Rightarrow> byte list" where
  "RecordCodec_encode r =
     (let dv = DataValueCodec_encode (rec_value r) (expire_at_us r) in
      appendU8 (byte_of_char CHR ''R'') @ appendU8 (byte_of_char CHR ''C'') @ appendU8 kVersion @
      appendU64 (version r) @ appendCount (length dv) @ dv)"

definition RecordCodec_decode :: "byte list \<Rightarrow> Record option" where
  "RecordCodec_decode data = do {
     (b0, off) \<leftarrow> readU8 data 0;
     (b1, off) \<leftarrow> readU8 data off;
     if b0 \<noteq> byte_of_char CHR ''R'' \<or> b1 \<noteq> byte_of_char CHR ''C'' then None else do {
     (ver, off) \<leftarrow> readU8 data off;
     if ver \<noteq> kVersion then None else do {
     (record_ver, off) \<leftarrow> readU64 data off;
     (dv_len, off) \<leftarrow> readU32 data off;
     if off + unat dv_len > length data then None else do {
     (v, exp) \<leftarrow> DataValueCodec_decode (take (unat dv_len) (drop off data));
     Some \<lparr>rec_value = v, expire_at_us = exp, version = record_ver\<rparr> }}}}"

section \<open>Mutations\<close>

definition mutation_byte :: "MutationType \<Rightarrow> byte" where
  "mutation_byte t = (case t of PutRecord \<Rightarrow> 0 | DelKey \<Rightarrow> 1 | ClearAll \<Rightarrow> 2 | MutationRaw b \<Rightarrow> b)"

definition mutation_of_byte :: "byte \<Rightarrow> MutationType" where
  "mutation_of_byte b = (if b = 0 then PutRecord else if b = 1 then DelKey else if b = 2 then ClearAll
     else MutationRaw b)"

definition record_part :: "Mutation \<Rightarrow> byte list" where
  "record_part m = (if mut_type m = PutRecord
     then (case mut_record m of None \<Rightarrow> [] | Some r \<Rightarrow> RecordCodec_encode r) else [])"

definition appendMutation :: "Mutation \<Rightarrow> byte list" where
  "appendMutation m =
     appendU8 (byte_of_char CHR ''W'') @ appendU8 (byte_of_char CHR ''2'') @ appendU8 kVersion @
     appendI64 (ts_us m) @ appendU8 (mutation_byte (mut_type m)) @ appendString (mut_key m) @
     appendCount (length (record_part m)) @ record_part m"

definition encodeBatch :: "Mutation list \<Rightarrow> byte list" where
  "encodeBatch batch = concat (map appendMutation batch)"

text \<open>
  \<^verbatim>\<open>decodeOneStatus\<close>: with \<^verbatim>\<open>Ok\<close> come the mutation and the new offset; with \<^verbatim>\<open>IncompleteTail\<close> the
  offset is reset to where the entry starts; with \<^verbatim>\<open>Corrupt\<close> it is not used any more.
\<close>

datatype DecodeStatus = DecodeOk Mutation nat | IncompleteTail | Corrupt

definition wal_header :: "byte list \<Rightarrow> nat \<Rightarrow> ((byte \<times> byte \<times> byte) \<times> nat) option" where
  "wal_header data off = do {
     (m0, off) \<leftarrow> readU8 data off;
     (m1, off) \<leftarrow> readU8 data off;
     (ver, off) \<leftarrow> readU8 data off;
     Some ((m0, m1, ver), off) }"

definition wal_body :: "byte list \<Rightarrow> nat \<Rightarrow> ((int \<times> byte \<times> string \<times> byte list) \<times> nat) option" where
  "wal_body data off = do {
     (ts, off) \<leftarrow> readI64 data off;
     (t, off) \<leftarrow> readU8 data off;
     (key, off) \<leftarrow> readString data off;
     (rb_len, off) \<leftarrow> readU32 data off;
     if off + unat rb_len > length data then None
     else Some ((ts, t, key, take (unat rb_len) (drop off data)), off + unat rb_len) }"

definition decodeOneStatus :: "byte list \<Rightarrow> nat \<Rightarrow> DecodeStatus" where
  "decodeOneStatus data off = (case wal_header data off of
      None \<Rightarrow> IncompleteTail
    | Some ((m0, m1, ver), off) \<Rightarrow>
        if m0 \<noteq> byte_of_char CHR ''W'' \<or> m1 \<noteq> byte_of_char CHR ''2'' then Corrupt
        else if ver \<noteq> kVersion then Corrupt
        else (case wal_body data off of
            None \<Rightarrow> IncompleteTail
          | Some ((ts, t, key, rb), off) \<Rightarrow>
              if rb \<noteq> [] then
                (case RecordCodec_decode rb of
                   None \<Rightarrow> Corrupt
                 | Some r \<Rightarrow> DecodeOk
                     \<lparr>mut_type = mutation_of_byte t, mut_key = key, mut_record = Some r, ts_us = ts\<rparr> off)
              else DecodeOk
                \<lparr>mut_type = mutation_of_byte t, mut_key = key, mut_record = None, ts_us = ts\<rparr> off))"

definition decodeOne :: "byte list \<Rightarrow> nat \<Rightarrow> (Mutation \<times> nat) option" where
  "decodeOne data off = (case decodeOneStatus data off of DecodeOk m off \<Rightarrow> Some (m, off) | _ \<Rightarrow> None)"

section \<open>Round trip of values and records\<close>

lemma unat_count [simp]: "n < 2 ^ 32 \<Longrightarrow> unat (word_of_nat n :: u32) = n"
  by (simp add: unat_of_nat)

lemma length_appendCount [simp]: "length (appendCount n) = 4"
  by (simp add: appendCount_def)

lemma readItems_enc:
  "\<forall>s \<in> set xs. length s < 2 ^ 32 \<Longrightarrow>
     readItems (length xs) ins (pre @ concat (map appendString xs) @ post) (length pre) acc =
     Some (fold ins xs acc, length pre + length (concat (map appendString xs)))"
proof (induction xs arbitrary: pre acc)
  case (Cons x xs)
  have "readString (pre @ appendString x @ concat (map appendString xs) @ post) (length pre) =
      Some (x, length (pre @ appendString x))"
    using wstr.dec_enc [of x pre] Cons.prems by simp
  then show ?case
    using Cons.IH [of "pre @ appendString x" "ins x acc"] Cons.prems by simp
qed simp

abbreviation appendPair :: "string \<times> string \<Rightarrow> byte list" where
  "appendPair kv \<equiv> appendString (fst kv) @ appendString (snd kv)"

lemma readPairs_enc:
  "\<forall>kv \<in> set xs. length (fst kv) < 2 ^ 32 \<and> length (snd kv) < 2 ^ 32 \<Longrightarrow>
     readPairs (length xs) (pre @ concat (map appendPair xs) @ post) (length pre) acc =
     Some (fold (\<lambda>kv. std_map_emplace (fst kv) (snd kv)) xs acc,
       length pre + length (concat (map appendPair xs)))"
proof (induction xs arbitrary: pre acc)
  case (Cons x xs)
  have "readString (pre @ appendPair x @ concat (map appendPair xs) @ post) (length pre) =
      Some (fst x, length (pre @ appendString (fst x)))"
    using wstr.dec_enc [of "fst x" pre "appendString (snd x) @ concat (map appendPair xs) @ post"] Cons.prems
    by simp
  moreover have "readString (pre @ appendPair x @ concat (map appendPair xs) @ post)
      (length (pre @ appendString (fst x))) = Some (snd x, length (pre @ appendPair x))"
    using wstr.dec_enc [of "snd x" "pre @ appendString (fst x)" "concat (map appendPair xs) @ post"] Cons.prems
    by simp
  ultimately show ?case
    using Cons.IH [of "pre @ appendPair x" "std_map_emplace (fst x) (snd x) acc"] Cons.prems
    by (simp del: length_enc)
qed simp

lemma fold_push_all: "fold (\<lambda>x l. l @ [x]) xs ys = ys @ xs"
  by (induction xs arbitrary: ys) auto

lemma fold_set_insert_ordered: "ordered (ys @ xs) \<Longrightarrow> fold std_set_insert xs ys = ys @ xs"
proof (induction xs arbitrary: ys)
  case (Cons x xs)
  then have "std_set_insert x ys = ys @ [x]"
    by (intro std_set_insert_snoc) (auto simp: sorted_wrt_append)
  then show ?case using Cons.IH [of "ys @ [x]"] Cons.prems by simp
qed simp

lemma fold_map_emplace_ordered:
  "key_ordered (ys @ xs) \<Longrightarrow> fold (\<lambda>kv. std_map_emplace (fst kv) (snd kv)) xs ys = ys @ xs"
proof (induction xs arbitrary: ys)
  case (Cons x xs)
  then have "std_map_emplace (fst x) (snd x) ys = ys @ [x]"
    using std_map_emplace_snoc [of ys "fst x" "snd x"] by (auto simp: sorted_wrt_append)
  then show ?case using Cons.IH [of "ys @ [x]"] Cons.prems by simp
qed simp

lemma member_length: "x \<in> set xs \<Longrightarrow> length (f x) \<le> length (concat (map f xs))"
  by (induction xs) auto

lemma count_le_length:
  "(\<And>x. x \<in> set xs \<Longrightarrow> 1 \<le> length (f x)) \<Longrightarrow> length xs \<le> length (concat (map f xs))"
proof (induction xs)
  case (Cons x xs)
  then have "1 \<le> length (f x)" "length xs \<le> length (concat (map f xs))" by auto
  then show ?case by simp
qed simp

lemma readCount_enc: "n < 2 ^ 32 \<Longrightarrow> readU32 (appendCount n @ post) 0 = Some (word_of_nat n, 4)"
  using wu32.dec_enc [where pre = "[]" and x = "word_of_nat n" and post = post] by (simp add: appendCount_def)

lemma strings_fit:
  assumes "length (concat (map appendString xs)) < 2 ^ 32"
  shows "length xs < 2 ^ 32" and "s \<in> set xs \<Longrightarrow> length s < 2 ^ 32"
  using assms count_le_length [of xs appendString] member_length [of s xs appendString] by auto

lemma pairs_fit:
  assumes "length (concat (map appendPair xs)) < 2 ^ 32"
  shows "length xs < 2 ^ 32"
    and "kv \<in> set xs \<Longrightarrow> length (fst kv) < 2 ^ 32 \<and> length (snd kv) < 2 ^ 32"
  using assms count_le_length [of xs appendPair] member_length [of kv xs appendPair] by auto

lemma body_items:
  assumes "length (appendCount (length xs) @ concat (map appendString xs)) < 2 ^ 32"
  shows "readU32 (appendCount (length xs) @ concat (map appendString xs)) 0 = Some (word_of_nat (length xs), 4)"
    and "readItems (length xs) ins (appendCount (length xs) @ concat (map appendString xs)) 4 acc =
      Some (fold ins xs acc, 4 + length (concat (map appendString xs)))"
    and "length xs < 2 ^ 32"
proof -
  have fit: "length (concat (map appendString xs)) < 2 ^ 32" using assms by simp
  note f = strings_fit [OF fit]
  show "length xs < 2 ^ 32" by (rule f(1))
  then show "readU32 (appendCount (length xs) @ concat (map appendString xs)) 0 = Some (word_of_nat (length xs), 4)"
    by (rule readCount_enc)
  show "readItems (length xs) ins (appendCount (length xs) @ concat (map appendString xs)) 4 acc =
      Some (fold ins xs acc, 4 + length (concat (map appendString xs)))"
    using readItems_enc [of xs ins "appendCount (length xs)" "[]" acc] f(2) by simp
qed

lemma body_pairs:
  assumes "length (appendCount (length xs) @ concat (map appendPair xs)) < 2 ^ 32"
  shows "readU32 (appendCount (length xs) @ concat (map appendPair xs)) 0 = Some (word_of_nat (length xs), 4)"
    and "readPairs (length xs) (appendCount (length xs) @ concat (map appendPair xs)) 4 acc =
      Some (fold (\<lambda>kv. std_map_emplace (fst kv) (snd kv)) xs acc, 4 + length (concat (map appendPair xs)))"
    and "length xs < 2 ^ 32"
proof -
  have fit: "length (concat (map appendPair xs)) < 2 ^ 32" using assms by simp
  note f = pairs_fit [OF fit]
  show "length xs < 2 ^ 32" by (rule f(1))
  then show "readU32 (appendCount (length xs) @ concat (map appendPair xs)) 0 = Some (word_of_nat (length xs), 4)"
    by (rule readCount_enc)
  show "readPairs (length xs) (appendCount (length xs) @ concat (map appendPair xs)) 4 acc =
      Some (fold (\<lambda>kv. std_map_emplace (fst kv) (snd kv)) xs acc, 4 + length (concat (map appendPair xs)))"
    using readPairs_enc [of xs "appendCount (length xs)" "[]" acc] f(2) by simp
qed

lemma dv_eq:
  "dv_wf v \<Longrightarrow> dv_type v = STRING \<Longrightarrow>
     DataValue0\<lparr>dv_type := STRING, string_value := string_value v, ttl_seconds := -1\<rparr> = v"
  "dv_wf v \<Longrightarrow> dv_type v = LIST \<Longrightarrow>
     DataValue0\<lparr>dv_type := LIST, list_value := list_value v, ttl_seconds := -1\<rparr> = v"
  "dv_wf v \<Longrightarrow> dv_type v = SET \<Longrightarrow>
     DataValue0\<lparr>dv_type := SET, set_value := set_value v, ttl_seconds := -1\<rparr> = v"
  "dv_wf v \<Longrightarrow> dv_type v = HASH \<Longrightarrow>
     DataValue0\<lparr>dv_type := HASH, hash_value := hash_value v, ttl_seconds := -1\<rparr> = v"
  by (cases v; simp add: dv_wf_def DataValue0_def NO_TTL_def)+

lemma DataValueCodec_body_payload:
  assumes "dv_wf v" "length (DataValueCodec_payload v) < 2 ^ 32"
  shows "DataValueCodec_body (type_byte (dv_type v)) (DataValueCodec_payload v) = Some v"
proof -
  have o: "ordered (set_value v)" "key_ordered (hash_value v)"
    using assms(1) by (simp_all add: dv_wf_def)
  show ?thesis
  proof (cases "dv_type v")
    case STRING
    then show ?thesis
      using wstr.dec_only [of "string_value v"] assms dv_eq(1) [OF assms(1)]
      by (simp add: DataValueCodec_body_def DataValueCodec_payload_def type_byte_def)
  next
    case LIST
    with assms(2) have f: "length (appendCount (length (list_value v)) @ concat (map appendString (list_value v))) < 2 ^ 32"
      by (simp add: DataValueCodec_payload_def)
    show ?thesis
      using LIST body_items(1,3) [OF f] body_items(2) [OF f, of "\<lambda>x l. l @ [x]" "[]"] dv_eq(2) [OF assms(1)]
      by (simp add: DataValueCodec_body_def DataValueCodec_payload_def type_byte_def fold_push_all)
  next
    case SET
    with assms(2) have f: "length (appendCount (length (set_value v)) @ concat (map appendString (set_value v))) < 2 ^ 32"
      by (simp add: DataValueCodec_payload_def)
    show ?thesis
      using SET body_items(1,3) [OF f] body_items(2) [OF f, of std_set_insert "[]"] dv_eq(3) [OF assms(1)] fold_set_insert_ordered [of "[]" "set_value v"] o
      by (simp add: DataValueCodec_body_def DataValueCodec_payload_def type_byte_def)
  next
    case HASH
    with assms(2) have f: "length (appendCount (length (hash_value v)) @ concat (map appendPair (hash_value v))) < 2 ^ 32"
      by (simp add: DataValueCodec_payload_def)
    show ?thesis
      using HASH body_pairs [OF f] dv_eq(4) [OF assms(1)] fold_map_emplace_ordered [of "[]" "hash_value v"] o
      by (simp add: DataValueCodec_body_def DataValueCodec_payload_def type_byte_def)
  qed
qed

lemma DataValueCodec_decode_encode:
  assumes "dv_wf v" "in_i64 x" "length (DataValueCodec_payload v) < 2 ^ 32"
  shows "DataValueCodec_decode (DataValueCodec_encode v x) = Some (v, x)"
proof -
  let ?p = "DataValueCodec_payload v"
  let ?h = "[byte_of_char CHR ''D'', byte_of_char CHR ''V'', kVersion, type_byte (dv_type v), 0, 0]"
  have enc: "DataValueCodec_encode v x = ?h @ appendI64 x @ appendCount (length ?p) @ ?p"
    by (simp add: DataValueCodec_encode_def Let_def appendU8_def)
  have exp: "readI64 (?h @ appendI64 x @ appendCount (length ?p) @ ?p) 6 = Some (x, 6 + length (appendI64 x))"
    by (rule wi64.dec_at [OF assms(2), where pre = ?h]) simp_all
  have len: "readU32 (?h @ appendI64 x @ appendCount (length ?p) @ ?p) 14 =
      Some (word_of_nat (length ?p), 14 + length (appendU32 (word_of_nat (length ?p))))"
    by (rule wu32.dec_at [OF TrueI, where pre = "?h @ appendI64 x"]) (simp_all add: appendCount_def)
  show ?thesis
    using assms exp len DataValueCodec_body_payload [OF assms(1,3)]
    unfolding enc DataValueCodec_decode_def
    by (simp add: readU8_def del: One_nat_def)
qed

definition rec_fits :: "Record \<Rightarrow> bool" where
  "rec_fits r \<longleftrightarrow> length (RecordCodec_encode r) < 2 ^ 32"

lemma length_encode:
  "length (DataValueCodec_encode v x) = 18 + length (DataValueCodec_payload v)"
  "length (RecordCodec_encode r) = 33 + length (DataValueCodec_payload (rec_value r))"
  by (simp_all add: DataValueCodec_encode_def RecordCodec_encode_def Let_def)

lemma RecordCodec_decode_encode:
  assumes "rec_wf r" "rec_fits r"
  shows "RecordCodec_decode (RecordCodec_encode r) = Some r"
proof -
  let ?dv = "DataValueCodec_encode (rec_value r) (expire_at_us r)"
  let ?h = "[byte_of_char CHR ''R'', byte_of_char CHR ''C'', kVersion]"
  have fit: "length (DataValueCodec_payload (rec_value r)) < 2 ^ 32" "length ?dv < 2 ^ 32"
    using assms(2) by (simp_all add: rec_fits_def length_encode)
  have dv: "DataValueCodec_decode ?dv = Some (rec_value r, expire_at_us r)"
    using assms(1) fit(1) by (simp add: rec_wf_def DataValueCodec_decode_encode)
  have enc: "RecordCodec_encode r = ?h @ appendU64 (version r) @ appendCount (length ?dv) @ ?dv"
    by (simp add: RecordCodec_encode_def Let_def appendU8_def)
  have ver: "readU64 (?h @ appendU64 (version r) @ appendCount (length ?dv) @ ?dv) 3 =
      Some (version r, 3 + length (appendU64 (version r)))"
    by (rule wu64.dec_at [OF TrueI, where pre = ?h]) simp_all
  have len: "readU32 (?h @ appendU64 (version r) @ appendCount (length ?dv) @ ?dv) 11 =
      Some (word_of_nat (length ?dv), 11 + length (appendU32 (word_of_nat (length ?dv))))"
    by (rule wu32.dec_at [OF TrueI, where pre = "?h @ appendU64 (version r)"]) (simp_all add: appendCount_def)
  show ?thesis
    using ver len dv fit(2) unfolding enc RecordCodec_decode_def
    by (simp add: readU8_def del: One_nat_def)
qed

section \<open>Round trip of mutations\<close>

definition mut_fits :: "Mutation \<Rightarrow> bool" where
  "mut_fits m \<longleftrightarrow> length (mut_key m) < 2 ^ 32 \<and> length (record_part m) < 2 ^ 32"

lemma mutation_of_byte_inv: "mut_ok m \<Longrightarrow> mutation_of_byte (mutation_byte (mut_type m)) = mut_type m"
  by (cases "mut_type m") (auto simp: mutation_of_byte_def mutation_byte_def mut_ok_def)

text \<open>The fields of an encoded mutation, at any offset of a buffer.\<close>

lemma fields_at:
  assumes "mut_wf m" "mut_fits m" "data = pre @ appendMutation m @ post" "off = length pre"
  shows "readU8 data off = Some (byte_of_char CHR ''W'', off + 1)"
    and "readU8 data (off + 1) = Some (byte_of_char CHR ''2'', off + 2)"
    and "readU8 data (off + 2) = Some (kVersion, off + 3)"
    and "readI64 data (off + 3) = Some (ts_us m, off + 11)"
    and "readU8 data (off + 11) = Some (mutation_byte (mut_type m), off + 12)"
    and "readString data (off + 12) = Some (mut_key m, off + 16 + length (mut_key m))"
    and "readU32 data (off + 16 + length (mut_key m)) =
      Some (word_of_nat (length (record_part m)), off + 20 + length (mut_key m))"
proof -
  let ?h = "appendU8 (byte_of_char CHR ''W'') @ appendU8 (byte_of_char CHR ''2'') @ appendU8 kVersion"
  note m = assms(3,4) appendMutation_def appendCount_def
  show "readU8 data off = Some (byte_of_char CHR ''W'', off + 1)"
    using wu8.dec_at [OF TrueI _ assms(4), where data = data and x = "byte_of_char CHR ''W''"] by (simp add: m)
  show "readU8 data (off + 1) = Some (byte_of_char CHR ''2'', off + 2)"
    using wu8.dec_at [OF TrueI, where data = data and off = "off + 1" and x = "byte_of_char CHR ''2''"
      and pre = "pre @ appendU8 (byte_of_char CHR ''W'')"] by (simp add: m)
  show "readU8 data (off + 2) = Some (kVersion, off + 3)"
    using wu8.dec_at [OF TrueI, where data = data and off = "off + 2" and x = kVersion
      and pre = "pre @ appendU8 (byte_of_char CHR ''W'') @ appendU8 (byte_of_char CHR ''2'')"] by (simp add: m)
  show "readI64 data (off + 3) = Some (ts_us m, off + 11)"
    using wi64.dec_at [where data = data and off = "off + 3" and x = "ts_us m" and pre = "pre @ ?h"] assms(1)
    by (simp add: m mut_wf_def)
  show "readU8 data (off + 11) = Some (mutation_byte (mut_type m), off + 12)"
    using wu8.dec_at [OF TrueI, where data = data and off = "off + 11" and x = "mutation_byte (mut_type m)"
      and pre = "pre @ ?h @ appendI64 (ts_us m)"] by (simp add: m)
  show "readString data (off + 12) = Some (mut_key m, off + 16 + length (mut_key m))"
    using wstr.dec_at [where data = data and off = "off + 12" and x = "mut_key m"
      and pre = "pre @ ?h @ appendI64 (ts_us m) @ appendU8 (mutation_byte (mut_type m))"] assms(2)
    by (simp add: m mut_fits_def)
  show "readU32 data (off + 16 + length (mut_key m)) =
      Some (word_of_nat (length (record_part m)), off + 20 + length (mut_key m))"
    using wu32.dec_at [OF TrueI, where data = data and off = "off + 16 + length (mut_key m)"
      and x = "word_of_nat (length (record_part m))"
      and pre = "pre @ ?h @ appendI64 (ts_us m) @ appendU8 (mutation_byte (mut_type m)) @ appendString (mut_key m)"]
    by (simp add: m)
qed

lemma length_appendMutation:
  "length (appendMutation m) = 20 + length (mut_key m) + length (record_part m)"
  by (simp add: appendMutation_def)

lemma record_part_decode:
  assumes "mut_wf m" "mut_fits m"
  shows "if record_part m = [] then mut_record m = None
    else \<exists>r. mut_record m = Some r \<and> RecordCodec_decode (record_part m) = Some r"
proof (cases "mut_record m")
  case None
  then show ?thesis by (simp add: record_part_def)
next
  case (Some r)
  with assms have p: "mut_type m = PutRecord" "rec_wf r" by (simp_all add: mut_wf_def)
  with Some have part: "record_part m = RecordCodec_encode r" by (simp add: record_part_def)
  then have "rec_fits r" using assms(2) by (simp add: mut_fits_def rec_fits_def)
  then show ?thesis
    using Some p part RecordCodec_decode_encode [of r] length_encode(2) [of r] by fastforce
qed

lemma decodeOneStatus_enc:
  assumes "mut_wf m" "mut_fits m"
  shows "decodeOneStatus (pre @ appendMutation m @ post) (length pre) =
    DecodeOk m (length pre + length (appendMutation m))"
proof -
  let ?data = "pre @ appendMutation m @ post"
  have fit: "length (record_part m) < 2 ^ 32" using assms(2) by (simp add: mut_fits_def)
  have tail: "take (length (record_part m)) (drop (length pre + 20 + length (mut_key m)) ?data) = record_part m"
    by (simp add: appendMutation_def)
  have m: "\<lparr>mut_type = mut_type m, mut_key = mut_key m, mut_record = mut_record m, ts_us = ts_us m\<rparr> = m"
    by simp
  have ok: "mut_ok m" using assms(1) by (simp add: mut_wf_def)
  show ?thesis
    using fields_at [OF assms refl refl, of pre post] record_part_decode [OF assms] tail fit m
      mutation_of_byte_inv [OF ok] length_appendMutation [of m]
    by (auto simp: decodeOneStatus_def wal_header_def wal_body_def split: if_splits simp del: One_nat_def)
qed

end
