(* ===== verification/Wal_Reader.thy ===== *)
theory Wal_Reader
  imports Codecs
begin

text \<open>
  Reading write-ahead log files, \<^verbatim>\<open>storage2/persistence/WalReader.cpp\<close>: the streaming decoder of one
  file, which reads chunks of a megabyte and keeps the undecoded rest, and the chain of rotated
  files. A file is the list of its bytes; reads do not fail halfway.
\<close>

section \<open>Facts about the entry decoder\<close>

lemma read_bounds:
  "readU8 data off = Some (b, off') \<Longrightarrow> off < off' \<and> off' \<le> length data"
  "readU32 data off = Some (v, off') \<Longrightarrow> off < off' \<and> off' \<le> length data"
  "readI64 data off = Some (i, off') \<Longrightarrow> off < off' \<and> off' \<le> length data"
  "readString data off = Some (s, off') \<Longrightarrow> off < off' \<and> off' \<le> length data"
  by (auto simp: readU8_def readU32_def readI64_def readU64_def readString_def
      split: option.splits if_splits)

lemma bind_Some_prod:
  "(x \<bind> (\<lambda>(a, b). f a b) = Some y) \<longleftrightarrow> (\<exists>a b. x = Some (a, b) \<and> f a b = Some y)"
  by (cases x) auto

lemma decode_bounds:
  "decodeOneStatus data off = DecodeOk m off' \<Longrightarrow> off < off' \<and> off' \<le> length data"
  by (auto simp: decodeOneStatus_def wal_header_def wal_body_def bind_Some_prod
      split: option.splits if_splits dest!: read_bounds)

lemma header_take:
  assumes "n \<le> length data"
  shows "wal_header (take n data) off = (case wal_header data off of None \<Rightarrow> None
    | Some (x, off') \<Rightarrow> if off' \<le> n then Some (x, off') else None)"
  by (auto simp: wal_header_def wu8.dec_take [OF assms] split: option.split bind_split
      dest: read_bounds)

lemma body_take:
  assumes "n \<le> length data"
  shows "wal_body (take n data) off = (case wal_body data off of None \<Rightarrow> None
    | Some (x, off') \<Rightarrow> if off' \<le> n then Some (x, off') else None)"
  using assms
  by (auto simp: wal_body_def wu8.dec_take [OF assms] wu32.dec_take [OF assms] wi64.dec_take [OF assms]
      wstr.dec_take [OF assms] take_drop min_def split: option.split bind_split dest: read_bounds)

text \<open>
  A cut-off buffer is decoded like the whole one up to the cut: an entry that does not fit is an
  incomplete tail, never a corrupt entry, and an entry that is corrupt in the cut-off buffer is
  corrupt.
\<close>

lemma decode_take:
  assumes "n \<le> length data"
  shows "decodeOneStatus data off = DecodeOk m off' \<Longrightarrow>
      decodeOneStatus (take n data) off = (if off' \<le> n then DecodeOk m off' else IncompleteTail)"
    and "decodeOneStatus data off = IncompleteTail \<Longrightarrow> decodeOneStatus (take n data) off = IncompleteTail"
    and "decodeOneStatus data off = Corrupt \<Longrightarrow>
      decodeOneStatus (take n data) off = Corrupt \<or> decodeOneStatus (take n data) off = IncompleteTail"
proof -
  have b: "wal_body data o1 = Some (x, o2) \<Longrightarrow> o1 < o2" for o1 o2 x
    by (auto simp: wal_body_def bind_Some_prod split: if_splits dest!: read_bounds)
  show "decodeOneStatus data off = DecodeOk m off' \<Longrightarrow>
      decodeOneStatus (take n data) off = (if off' \<le> n then DecodeOk m off' else IncompleteTail)"
    by (auto simp: decodeOneStatus_def header_take [OF assms] body_take [OF assms]
        split: option.splits if_splits) (use b in fastforce)+
  show "decodeOneStatus data off = IncompleteTail \<Longrightarrow> decodeOneStatus (take n data) off = IncompleteTail"
    by (auto simp: decodeOneStatus_def header_take [OF assms] body_take [OF assms]
        split: option.splits if_splits)
  show "decodeOneStatus data off = Corrupt \<Longrightarrow>
      decodeOneStatus (take n data) off = Corrupt \<or> decodeOneStatus (take n data) off = IncompleteTail"
    by (auto simp: decodeOneStatus_def header_take [OF assms] body_take [OF assms]
        split: option.splits if_splits)
qed

interpretation wmut: wire_format appendMutation decodeOne "\<lambda>m. mut_wf m \<and> mut_fits m"
proof unfold_locales
  fix n off and data :: "byte list"
  assume "n \<le> length data"
  note t = decode_take [OF this, of off]
  show "decodeOne (take n data) off = (case decodeOne data off of None \<Rightarrow> None
      | Some (x, off') \<Rightarrow> if off' \<le> n then Some (x, off') else None)"
    using t by (cases "decodeOneStatus data off") (auto simp: decodeOne_def)
qed (simp add: decodeOne_def decodeOneStatus_enc)

section \<open>Decoding one file\<close>

text \<open>
  The inner loop of \<^verbatim>\<open>readAll\<close>: decode entries from \<open>off\<close> on, until the buffer is used up, an entry
  needs more bytes, or an entry is corrupt.
\<close>

datatype drain_end = Drained | NeedMore | BadEntry

function drain ::
    "byte list \<Rightarrow> nat \<Rightarrow> Mutation list list \<Rightarrow> drain_end \<times> nat \<times> Mutation list list" where
  "drain pending off out =
     (if off < length pending then
        (case decodeOneStatus pending off of
           DecodeOk mu probe \<Rightarrow> drain pending probe (out @ [[mu]])
         | IncompleteTail \<Rightarrow> (NeedMore, off, out)
         | Corrupt \<Rightarrow> (BadEntry, off, out))
      else (Drained, off, out))"
  by pat_completeness auto
termination
  by (relation "measure (\<lambda>(pending, off, _). length pending - off)")
    (auto dest!: decode_bounds)

declare drain.simps [simp del]

record ReadStats =
  file_bytes :: nat
  decoded_mutations :: nat
  stopped_offset :: nat
  saw_incomplete_tail :: bool
  saw_corrupt :: bool

definition kChunkBytes :: nat where
  "kChunkBytes = 1024 * 1024"

lemma kChunkBytes_pos [simp]: "0 < kChunkBytes"
  by (simp add: kChunkBytes_def)

text \<open>
  The outer loop: \<open>rest\<close> is what the stream has not delivered yet; \<^verbatim>\<open>eof\<close> is set when a read gets
  less than a whole chunk.
\<close>

function readAll_loop ::
    "ReadStats \<Rightarrow> byte list \<Rightarrow> byte list \<Rightarrow> nat \<Rightarrow> Mutation list list \<Rightarrow> bool \<times> Mutation list list \<times> ReadStats" where
  "readAll_loop stats rest pending consumed_prefix out =
     (let chunk = take kChunkBytes rest; eof = length chunk < kChunkBytes;
          pending = pending @ chunk;
          (st, off, out) = drain pending 0 out;
          stats = stats\<lparr>decoded_mutations := length out\<rparr>
      in if st = NeedMore \<and> eof then
           (True, out, stats\<lparr>saw_incomplete_tail := True, stopped_offset := consumed_prefix + off\<rparr>)
         else if st = BadEntry then
           (False, out, stats\<lparr>saw_corrupt := True, stopped_offset := consumed_prefix + off\<rparr>)
         else let pending = drop off pending; consumed_prefix = consumed_prefix + off
           in if eof then
                (True, out, stats\<lparr>saw_incomplete_tail := pending \<noteq> [], stopped_offset := consumed_prefix\<rparr>)
              else readAll_loop stats (drop kChunkBytes rest) pending consumed_prefix out)"
  by pat_completeness auto
termination
  by (relation "measure (\<lambda>(_, rest, _, _, _). length rest)")
    (auto intro!: diff_less less_le_trans [OF kChunkBytes_pos])

declare readAll_loop.simps [simp del]

text \<open>\<open>None\<close> is a file that cannot be opened; it counts as an empty log.\<close>

definition readAll :: "byte list option \<Rightarrow> bool \<times> Mutation list list \<times> ReadStats" where
  "readAll file =
     (let stats = \<lparr>file_bytes = 0, decoded_mutations = 0, stopped_offset = 0,
            saw_incomplete_tail = False, saw_corrupt = False\<rparr>
      in case file of None \<Rightarrow> (True, [], stats)
        | Some bytes \<Rightarrow> readAll_loop (stats\<lparr>file_bytes := length bytes\<rparr>) bytes [] 0 [])"

definition readAllMutations :: "byte list option \<Rightarrow> Mutation list option" where
  "readAllMutations file =
     (let (ok, batches, _) = readAll file
      in if \<not> ok then None else Some (map hd (filter (\<lambda>b. b \<noteq> []) batches)))"

section \<open>Streaming is the same as decoding the whole file\<close>

lemma drain_take:
  "drain (take n data) off out = (st, o', out') \<Longrightarrow> n \<le> length data \<Longrightarrow> off \<le> n \<Longrightarrow>
     o' \<le> n \<and> (st = Drained \<longrightarrow> o' = n) \<and>
     (if st = BadEntry then drain data off out = (BadEntry, o', out')
      else drain data off out = drain data o' out')"
proof (induction "take n data" off out arbitrary: st o' out' rule: drain.induct)
  case (1 off out)
  note prems = "1.prems" and step = drain.simps [of "take n data" off out] drain.simps [of data off out]
  show ?case
  proof (cases "off < n")
    case False
    then show ?thesis using prems step by (auto split: if_splits)
  next
    case True
    then have lt: "off < length (take n data)" "off < length data" using prems by auto
    show ?thesis
    proof (cases "decodeOneStatus (take n data) off")
      case (DecodeOk m p)
      then have "p \<le> n" using decode_bounds [OF DecodeOk] prems by simp
      moreover from DecodeOk have "decodeOneStatus data off = DecodeOk m p"
        using decode_take [OF prems(2), of off] by (cases "decodeOneStatus data off") (auto split: if_splits)
      ultimately show ?thesis
        using "1.hyps" [OF lt(1) DecodeOk, of st o' out'] prems step lt DecodeOk by simp
    next
      case IncompleteTail
      then show ?thesis using prems step lt by auto
    next
      case Corrupt
      then have "decodeOneStatus data off = Corrupt"
        using decode_take [OF prems(2), of off] by (cases "decodeOneStatus data off") (auto split: if_splits)
      with Corrupt show ?thesis using prems step lt by auto
    qed
  qed
qed

text \<open>Decoding does not depend on the bytes in front of the offset.\<close>

abbreviation behind :: "byte list \<Rightarrow> ('a \<times> nat) option \<Rightarrow> ('a \<times> nat) option" where
  "behind pre \<equiv> map_option (\<lambda>(x, q). (x, length pre + q))"

lemma read_behind:
  "readU8 (pre @ d) (length pre + off) = behind pre (readU8 d off)"
  "readU32 (pre @ d) (length pre + off) = behind pre (readU32 d off)"
  "readI64 (pre @ d) (length pre + off) = behind pre (readI64 d off)"
  by (auto simp: readU8_def readU32_def readU64_def readI64_def nth_append add.assoc)

lemma readString_behind: "readString (pre @ d) (length pre + off) = behind pre (readString d off)"
  by (auto simp: readString_def read_behind add.assoc split: option.split)

lemma header_behind: "wal_header (pre @ d) (length pre + off) = behind pre (wal_header d off)"
  by (auto simp: wal_header_def read_behind split: bind_split)

lemma body_behind: "wal_body (pre @ d) (length pre + off) = behind pre (wal_body d off)"
  by (auto simp: wal_body_def read_behind readString_behind add.assoc split: bind_split)

lemma decode_behind:
  "decodeOneStatus (pre @ d) (length pre + off) = (case decodeOneStatus d off of
     DecodeOk m q \<Rightarrow> DecodeOk m (length pre + q) | st \<Rightarrow> st)"
  by (auto simp: decodeOneStatus_def header_behind body_behind split: option.split)

lemma drain_behind:
  "drain (pre @ d) (length pre + off) out = (case drain d off out of (st, q, out') \<Rightarrow> (st, length pre + q, out'))"
proof (induction d off out rule: drain.induct)
  case (1 d off out)
  show ?case
    using 1 by (auto simp: drain.simps [of d off out] drain.simps [of "pre @ d" "length pre + off" out]
        decode_behind split: DecodeStatus.split)
qed

text \<open>
  The streaming loop gives what decoding the pending bytes and the rest of the file at once gives.
\<close>

definition read_result ::
    "ReadStats \<Rightarrow> nat \<Rightarrow> drain_end \<times> nat \<times> Mutation list list \<Rightarrow> bool \<times> Mutation list list \<times> ReadStats" where
  "read_result stats consumed x = (case x of (st, off, out) \<Rightarrow>
     (st \<noteq> BadEntry, out, stats\<lparr>decoded_mutations := length out, stopped_offset := consumed + off,
        saw_incomplete_tail := (st = NeedMore), saw_corrupt := (st = BadEntry)\<rparr>))"

lemma readAll_loop_drain:
  "\<not> saw_incomplete_tail stats \<Longrightarrow> \<not> saw_corrupt stats \<Longrightarrow>
     readAll_loop stats rest pending consumed out = read_result stats consumed (drain (pending @ rest) 0 out)"
proof (induction stats rest pending consumed out rule: readAll_loop.induct)
  case (1 stats rest pending consumed out)
  let ?chunk = "take kChunkBytes rest" and ?rest = "drop kChunkBytes rest"
  let ?p = "pending @ ?chunk"
  obtain st q out' where d: "drain ?p 0 out = (st, q, out')" by (metis prod_cases3)
  have p: "?p = take (length ?p) (pending @ rest)" by (simp add: min_def)
  have d': "drain (take (length ?p) (pending @ rest)) 0 out = (st, q, out')"
    by (subst p [symmetric]) (rule d)
  have q: "q \<le> length ?p" "st = Drained \<longrightarrow> q = length ?p"
    and full: "if st = BadEntry then drain (pending @ rest) 0 out = (BadEntry, q, out')
      else drain (pending @ rest) 0 out = drain (pending @ rest) q out'"
    using drain_take [OF d'] by auto
  show ?case
  proof (cases "length ?chunk < kChunkBytes")
    case True
    then have "?chunk = rest" by simp
    then show ?thesis
      using True d q "1.prems" by (cases st) (auto simp: readAll_loop.simps read_result_def)
  next
    case False
    show ?thesis
    proof (cases "st = BadEntry")
      case True
      then show ?thesis
        using d full "1.prems" by (auto simp: readAll_loop.simps Let_def read_result_def)
    next
      case nb: False
      let ?stats = "stats\<lparr>decoded_mutations := length out'\<rparr>"
      have split: "pending @ rest = take q ?p @ (drop q ?p @ ?rest)"
        by (metis append.assoc append_take_drop_id)
      have "drain (pending @ rest) 0 out = (case drain (drop q ?p @ ?rest) 0 out' of
          (st, q', out'') \<Rightarrow> (st, q + q', out''))"
        using drain_behind [of "take q ?p" "drop q ?p @ ?rest" 0 out'] full nb q(1)
        by (simp add: split [symmetric] min_absorb2 del: drop_append take_append)
      moreover have "readAll_loop stats rest pending consumed out =
          readAll_loop ?stats ?rest (drop q ?p) (consumed + q) out'"
        using False nb d by (subst readAll_loop.simps) (simp add: Let_def)
      moreover have "readAll_loop ?stats ?rest (drop q ?p) (consumed + q) out' =
          read_result ?stats (consumed + q) (drain (drop q ?p @ ?rest) 0 out')"
        using "1.IH" [OF refl refl refl d [symmetric] refl refl refl _ nb refl refl False] "1.prems" False by simp
      ultimately show ?thesis
        by (auto simp: read_result_def add.assoc split: prod.split)
    qed
  qed
qed

lemma readAll_drain:
  "readAll (Some bytes) = read_result \<lparr>file_bytes = length bytes, decoded_mutations = 0, stopped_offset = 0,
     saw_incomplete_tail = False, saw_corrupt = False\<rparr> 0 (drain bytes 0 [])"
  by (simp add: readAll_def readAll_loop_drain)

section \<open>Logs written by the encoder\<close>

text \<open>The entries that lie completely within the first \<open>n\<close> bytes of a log.\<close>

fun whole :: "nat \<Rightarrow> Mutation list \<Rightarrow> Mutation list" where
  "whole n [] = []"
| "whole n (m # ms) =
     (if length (appendMutation m) \<le> n then m # whole (n - length (appendMutation m)) ms else [])"

abbreviation log_ok :: "Mutation list \<Rightarrow> bool" where
  "log_ok ms \<equiv> \<forall>m \<in> set ms. mut_wf m \<and> mut_fits m"

lemma encodeBatch_simps [simp]:
  "encodeBatch [] = []" "encodeBatch (m # ms) = appendMutation m @ encodeBatch ms"
  "encodeBatch (ms @ ns) = encodeBatch ms @ encodeBatch ns"
  by (simp_all add: encodeBatch_def)

lemma whole_all: "length (encodeBatch ms) \<le> n \<Longrightarrow> whole n ms = ms"
  by (induction ms arbitrary: n) auto

lemma whole_prefix: "\<exists>j \<le> length ms. whole n ms = take j ms"
proof (induction n ms rule: whole.induct)
  case (2 n m ms)
  then show ?case
  proof (cases "length (appendMutation m) \<le> n")
    case True
    then obtain j where "j \<le> length ms" "whole (n - length (appendMutation m)) ms = take j ms"
      using 2 by blast
    with True show ?thesis by (intro exI [of _ "Suc j"]) simp
  qed (auto intro: exI [of _ 0])
qed simp

lemma whole_max:
  "length (encodeBatch (take j ms)) \<le> n \<Longrightarrow> j \<le> length ms \<Longrightarrow> \<exists>rest. whole n ms = take j ms @ rest"
proof (induction ms arbitrary: j n)
  case (Cons m ms)
  then show ?case
  proof (cases j)
    case (Suc i)
    with Cons have "length (encodeBatch (take i ms)) \<le> n - length (appendMutation m)" by simp
    with Cons Suc show ?thesis by auto
  qed simp
qed simp

lemma length_encodeBatch_whole: "length (encodeBatch (whole n ms)) \<le> n"
  by (induction n ms rule: whole.induct) auto

lemma appendMutation_pos: "0 < length (appendMutation m)"
  by (simp add: length_appendMutation)

lemma drain_log:
  "log_ok ms \<Longrightarrow> n \<le> length (encodeBatch ms) \<Longrightarrow>
     drain (take n (encodeBatch ms)) 0 out =
       (if length (encodeBatch (whole n ms)) = n then Drained else NeedMore,
        length (encodeBatch (whole n ms)), out @ map (\<lambda>m. [m]) (whole n ms))"
proof (induction ms arbitrary: n out)
  case Nil
  then show ?case by (simp add: drain.simps)
next
  case (Cons m ms)
  let ?e = "appendMutation m" and ?data = "take n (encodeBatch (m # ms))"
  have full: "decodeOneStatus (encodeBatch (m # ms)) 0 = DecodeOk m (length ?e)"
    using decodeOneStatus_enc [of m "[]" "encodeBatch ms"] Cons.prems(1) by simp
  then have st: "decodeOneStatus ?data 0 = (if length ?e \<le> n then DecodeOk m (length ?e) else IncompleteTail)"
    by (rule decode_take(1) [OF Cons.prems(2)])
  show ?case
  proof (cases "length ?e \<le> n")
    case True
    let ?r = "n - length ?e"
    have split: "?data = ?e @ take ?r (encodeBatch ms)" using True by simp
    have "drain ?data 0 out = drain ?data (length ?e) (out @ [[m]])"
      using st True appendMutation_pos [of m] Cons.prems(2) by (subst drain.simps) auto
    also have "\<dots> = (case drain (take ?r (encodeBatch ms)) 0 (out @ [[m]]) of
        (st, q, out') \<Rightarrow> (st, length ?e + q, out'))"
      using drain_behind [of ?e "take ?r (encodeBatch ms)" 0] unfolding split by simp
    finally show ?thesis
      using Cons.IH [of ?r "out @ [[m]]"] Cons.prems True by auto
  next
    case False
    then show ?thesis
      using st Cons.prems(2) by (subst drain.simps) auto
  qed
qed

lemma readAll_log:
  assumes "log_ok ms" "n \<le> length (encodeBatch ms)"
  shows "readAll (Some (take n (encodeBatch ms))) = (True, map (\<lambda>m. [m]) (whole n ms),
     \<lparr>file_bytes = n, decoded_mutations = length (whole n ms),
      stopped_offset = length (encodeBatch (whole n ms)),
      saw_incomplete_tail = (length (encodeBatch (whole n ms)) \<noteq> n), saw_corrupt = False\<rparr>)"
  using assms by (simp add: readAll_drain drain_log read_result_def min_absorb2)

lemma readAllMutations_log:
  assumes "log_ok ms" "n \<le> length (encodeBatch ms)"
  shows "readAllMutations (Some (take n (encodeBatch ms))) = Some (whole n ms)"
  using readAll_log [OF assms] by (simp add: readAllMutations_def filter_map comp_def)

lemma readAllMutations_whole_log:
  "log_ok ms \<Longrightarrow> readAllMutations (Some (encodeBatch ms)) = Some ms"
  using readAllMutations_log [of ms "length (encodeBatch ms)"] by (simp add: whole_all)

end
