(* ===== verification/Wal_Files.thy ===== *)
theory Wal_Files
  imports Wal_Reader
begin

text \<open>
  The files of the write-ahead log: the chain of rotated files \<^verbatim>\<open><path>.<N>\<close> and the primary file
  (\<^verbatim>\<open>WalReader.cpp\<close>) and the writer that appends to the primary file and rotates it at its size limit
  (\<^verbatim>\<open>WalWriter.cpp\<close>). The directory of the log is an association list from file names to contents;
  the names in it are listed in its order. The system calls are parameters: for each call in turn,
  the environment says what it returns. A \<^verbatim>\<open>write\<close> never takes more than it is offered.
\<close>

section \<open>The chain of files\<close>

type_synonym directory = "(string \<times> byte list) list"

definition allDigits :: "string \<Rightarrow> bool" where
  "allDigits s \<longleftrightarrow> s \<noteq> [] \<and> list_all is_digit s"

definition int_max :: nat where
  "int_max = 2147483647"

definition suffix_number :: "string \<Rightarrow> string \<Rightarrow> nat option" where
  "suffix_number base fn =
     (if length fn \<le> length base + 1 then None
      else if take (length base) fn \<noteq> base then None
      else if fn ! length base \<noteq> CHR ''.'' then None
      else let suf = drop (length base + 1) fn in
        if \<not> allDigits suf then None
        else if digits_value suf > int_max then None else Some (digits_value suf))"

definition numbered :: "string \<Rightarrow> directory \<Rightarrow> (nat \<times> string) list" where
  "numbered base dir =
     List.map_filter (\<lambda>(fn, _). map_option (\<lambda>n. (n, fn)) (suffix_number base fn)) dir"

definition walSegmentPathsOrdered :: "string \<Rightarrow> directory \<Rightarrow> string list" where
  "walSegmentPathsOrdered base dir =
     map snd (sort_key fst (numbered base dir)) @ (if map_of dir base \<noteq> None then [base] else [])"

definition maxNumericWalSuffix :: "string \<Rightarrow> directory \<Rightarrow> nat" where
  "maxNumericWalSuffix base dir =
     foldl (\<lambda>max_n (n, _). if n > max_n then n else max_n) 0 (numbered base dir)"

fun read_chain :: "directory \<Rightarrow> string list \<Rightarrow> Mutation list option" where
  "read_chain dir [] = Some []"
| "read_chain dir (path # paths) = (case readAllMutations (map_of dir path) of
      None \<Rightarrow> None
    | Some chunk \<Rightarrow> map_option (\<lambda>ms. chunk @ ms) (read_chain dir paths))"

definition readAllMutationsWalChain :: "string \<Rightarrow> directory \<Rightarrow> Mutation list option" where
  "readAllMutationsWalChain base dir = read_chain dir (walSegmentPathsOrdered base dir)"

definition walChainFileBytesTotal :: "string \<Rightarrow> directory \<Rightarrow> nat" where
  "walChainFileBytesTotal base dir =
     sum_list (map (\<lambda>path. case map_of dir path of None \<Rightarrow> 0 | Some c \<Rightarrow> length c)
       (walSegmentPathsOrdered base dir))"

section \<open>The writer\<close>

record WalEnv =
  sys_write :: "nat \<Rightarrow> int"
  sys_rename :: "nat \<Rightarrow> bool"
  sys_open :: "nat \<Rightarrow> bool"
  sys_fstat :: "nat \<Rightarrow> bool"

record WalWriter =
  ww_dir :: directory
  ww_base :: string
  max_file_bytes :: nat
  ww_fd :: bool
  ww_calls :: nat

definition base_content :: "WalWriter \<Rightarrow> byte list" where
  "base_content w = (case map_of (ww_dir w) (ww_base w) of None \<Rightarrow> [] | Some c \<Rightarrow> c)"

definition append_base :: "byte list \<Rightarrow> WalWriter \<Rightarrow> WalWriter" where
  "append_base bs w = w\<lparr>ww_dir := AList.update (ww_base w) (base_content w @ bs) (ww_dir w)\<rparr>"

definition tick :: "WalWriter \<Rightarrow> WalWriter" where
  "tick w = w\<lparr>ww_calls := Suc (ww_calls w)\<rparr>"

definition open_base :: "WalEnv \<Rightarrow> WalWriter \<Rightarrow> bool \<times> WalWriter" where
  "open_base env w =
     (if sys_open env (ww_calls w)
      then (True, (append_base [] (tick w))\<lparr>ww_fd := True\<rparr>)
      else (False, (tick w)\<lparr>ww_fd := False\<rparr>))"

definition new_WalWriter :: "WalEnv \<Rightarrow> directory \<Rightarrow> string \<Rightarrow> nat \<Rightarrow> WalWriter" where
  "new_WalWriter env dir base max_bytes =
     snd (open_base env \<lparr>ww_dir = dir, ww_base = base, max_file_bytes = max_bytes, ww_fd = False, ww_calls = 0\<rparr>)"

function writeAll :: "WalEnv \<Rightarrow> byte list \<Rightarrow> WalWriter \<Rightarrow> bool \<times> WalWriter" where
  "writeAll env p w =
     (if p = [] then (True, w)
      else let r = sys_write env (ww_calls w); w = tick w in
        if r \<le> 0 then (False, w)
        else let k = min (nat r) (length p)
          in writeAll env (drop k p) (append_base (take k p) w))"
  by pat_completeness auto
termination
  by (relation "measure (\<lambda>(_, p, _). length p)") auto

declare writeAll.simps [simp del]

definition rotate :: "WalEnv \<Rightarrow> WalWriter \<Rightarrow> bool \<times> WalWriter" where
  "rotate env w =
     (let w = w\<lparr>ww_fd := False\<rparr> in
      if map_of (ww_dir w) (ww_base w) \<noteq> None \<and> base_content w \<noteq> [] then
        (let dest = ww_base w @ ''.'' @ nat_to_string (maxNumericWalSuffix (ww_base w) (ww_dir w) + 1) in
         if \<not> sys_rename env (ww_calls w) then (False, tick w)
         else open_base env (tick w\<lparr>ww_dir :=
           AList.update dest (base_content w) (AList.delete (ww_base w) (ww_dir w))\<rparr>))
      else open_base env w)"

lemma base_content_append [simp]: "base_content (append_base bs w) = base_content w @ bs"
  by (simp add: base_content_def append_base_def update_conv')

lemma writer_config [simp]:
  "max_file_bytes (append_base bs w) = max_file_bytes w" "ww_base (append_base bs w) = ww_base w"
  "max_file_bytes (tick w) = max_file_bytes w" "ww_base (tick w) = ww_base w"
  "ww_dir (tick w) = ww_dir w" "base_content (tick w) = base_content w"
  "base_content (w\<lparr>ww_fd := b\<rparr>) = base_content w" "ww_fd (append_base bs w) = ww_fd w" "ww_fd (tick w) = ww_fd w"
  by (simp_all add: append_base_def tick_def base_content_def)

lemma writeAll_effect:
  "writeAll env p w = (ok, w') \<Longrightarrow>
     (\<exists>n \<le> length p. base_content w' = base_content w @ take n p \<and> (ok \<longrightarrow> n = length p)) \<and>
     max_file_bytes w' = max_file_bytes w \<and> ww_base w' = ww_base w \<and> ww_fd w' = ww_fd w"
proof (induction env p w arbitrary: ok w' rule: writeAll.induct)
  case (1 env p w)
  show ?case
  proof (cases "p = [] \<or> sys_write env (ww_calls w) \<le> 0")
    case True
    then show ?thesis
      using "1.prems" by (subst (asm) writeAll.simps) (auto simp: Let_def split: if_splits)
  next
    case False
    let ?k = "min (nat (sys_write env (ww_calls w))) (length p)"
    have rec: "writeAll env (drop ?k p) (append_base (take ?k p) (tick w)) = (ok, w')"
      using False "1.prems" by (subst (asm) writeAll.simps) (simp add: Let_def)
    obtain n where n: "n \<le> length (drop ?k p)" "ok \<longrightarrow> n = length (drop ?k p)"
      "base_content w' = base_content w @ take ?k p @ take n (drop ?k p)"
      and c: "max_file_bytes w' = max_file_bytes w \<and> ww_base w' = ww_base w \<and> ww_fd w' = ww_fd w"
      using "1.IH" [OF _ refl refl _ refl rec] False by auto
    have "take ?k p @ take n (drop ?k p) = take (?k + n) p" by (simp add: take_add)
    with n c show ?thesis by (intro conjI exI [of _ "?k + n"]) auto
  qed
qed

lemma base_content_dir [simp]:
  "base_content (w\<lparr>ww_dir := d\<rparr>) = (case map_of d (ww_base w) of None \<Rightarrow> [] | Some c \<Rightarrow> c)"
  by (simp add: base_content_def)

lemma base_content_none: "map_of (ww_dir w) (ww_base w) = None \<Longrightarrow> base_content w = []"
  by (simp add: base_content_def)

lemma rotate_fresh:
  "rotate env w = (True, w') \<Longrightarrow> base_content w' = [] \<and> max_file_bytes w' = max_file_bytes w \<and>
     ww_base w' = ww_base w \<and> ww_fd w'"
  by (auto simp: rotate_def open_base_def Let_def update_conv' delete_conv' base_content_none
      split: if_splits)

text \<open>
  The loop of \<^verbatim>\<open>appendBytes\<close>: \<open>data\<close> are the bytes that are still to be written. The limit 0 (no
  limit) is tested once before the loop in the source; it does not change in the loop.
\<close>

function appendBytes_loop :: "WalEnv \<Rightarrow> byte list \<Rightarrow> WalWriter \<Rightarrow> bool \<times> WalWriter" where
  "appendBytes_loop env data w =
     (if data = [] then (True, w)
      else if max_file_bytes w = 0 then writeAll env data w
      else if \<not> sys_fstat env (ww_calls w) then (False, tick w)
      else let w = tick w; cur = length (base_content w) in
        if cur \<ge> max_file_bytes w then
          (let (rotated, w) = rotate env w in
           if \<not> rotated then (False, w) else appendBytes_loop env data w)
        else let room = max_file_bytes w - cur; chunk = min (length data) room;
               (written, w) = writeAll env (take chunk data) w
          in if \<not> written then (False, w) else appendBytes_loop env (drop chunk data) w)"
  by pat_completeness auto
termination
proof (relation "measure (\<lambda>(_, data, w).
    2 * length data + (if length (base_content w) \<ge> max_file_bytes w then 1 else 0))", goal_cases)
  case (2 env data w x xa xb xc xd)
  then show ?case using rotate_fresh [of env x xd] by auto
next
  case (3 env data w x xa xb xc xd xe xf)
  then have "0 < length data" "0 < max_file_bytes w - length (base_content w)" by auto
  with 3 show ?case by (auto simp: min_def simp del: length_greater_0_conv split: if_splits)
qed auto

declare appendBytes_loop.simps [simp del]

definition appendBytes :: "WalEnv \<Rightarrow> byte list \<Rightarrow> WalWriter \<Rightarrow> bool \<times> WalWriter" where
  "appendBytes env data w =
     (if \<not> ww_fd w then (False, w) else if data = [] then (True, w) else appendBytes_loop env data w)"

definition append :: "WalEnv \<Rightarrow> Mutation list \<Rightarrow> WalWriter \<Rightarrow> bool \<times> WalWriter" where
  "append env batch w =
     (if \<not> ww_fd w then (False, w) else if batch = [] then (True, w)
      else appendBytes env (encodeBatch batch) w)"

section \<open>The writer keeps the chain\<close>

text \<open>The bytes of the log: the rotated files in order, then the primary file.\<close>

definition chain_bytes :: "string \<Rightarrow> directory \<Rightarrow> byte list" where
  "chain_bytes base dir =
     concat (map (\<lambda>p. case map_of dir p of None \<Rightarrow> [] | Some c \<Rightarrow> c) (walSegmentPathsOrdered base dir))"

definition segments :: "string \<Rightarrow> directory \<Rightarrow> string list" where
  "segments base dir = map snd (sort_key fst (numbered base dir))"

definition writer_ok :: "WalWriter \<Rightarrow> bool" where
  "writer_ok w \<longleftrightarrow> (ww_fd w \<longrightarrow> map_of (ww_dir w) (ww_base w) \<noteq> None) \<and>
     maxNumericWalSuffix (ww_base w) (ww_dir w) < int_max"

lemma base_not_numbered: "suffix_number base base = None"
  by (simp add: suffix_number_def)

lemma numbered_simps [simp]:
  "numbered base [] = []"
  "numbered base ((fn, c) # dir) = (case suffix_number base fn of None \<Rightarrow> numbered base dir
     | Some n \<Rightarrow> (n, fn) # numbered base dir)"
  "numbered base (dir @ dir') = numbered base dir @ numbered base dir'"
  by (auto simp: numbered_def List.map_filter_def split: option.split)

lemma numbered_update_base: "numbered base (AList.update base c dir) = numbered base dir"
  by (induction dir) (auto simp: base_not_numbered split: option.split)

lemma numbered_delete_base: "numbered base (AList.delete base dir) = numbered base dir"
  by (induction dir) (auto simp: base_not_numbered split: option.split)

lemma numberedI: "suffix_number base fn = Some n \<Longrightarrow> (fn, c) \<in> set dir \<Longrightarrow> (n, fn) \<in> set (numbered base dir)"
  by (induction dir) (auto split: option.splits)

lemma numbered_dom: "(n, fn) \<in> set (numbered base dir) \<Longrightarrow> fn \<noteq> base \<and> suffix_number base fn = Some n \<and> map_of dir fn \<noteq> None"
  by (induction dir) (auto simp: base_not_numbered split: option.splits)

lemma max_fold: "foldl (\<lambda>m (n, _). if n > m then n else m) m0 xs = fold (\<lambda>x m. max (fst x) m) xs (m0 :: nat)"
  by (induction xs arbitrary: m0) (auto simp: max_def split: prod.splits intro!: arg_cong2 [where f = "fold _"])

lemma fold_max_ge: "m0 \<le> fold (\<lambda>x m. max (fst x) m) xs (m0 :: nat) \<and>
     (x \<in> set xs \<longrightarrow> fst x \<le> fold (\<lambda>x m. max (fst x) m) xs m0)"
  by (induction xs arbitrary: m0) (auto, (meson le_trans max.cobounded1 max.cobounded2)+)

lemma numbered_le_max: "(n, fn) \<in> set (numbered base dir) \<Longrightarrow> n \<le> maxNumericWalSuffix base dir"
  using fold_max_ge [of 0 "numbered base dir" "(n, fn)"] by (simp add: maxNumericWalSuffix_def max_fold)

lemma suffix_number_dest:
  "n \<le> int_max \<Longrightarrow> suffix_number base (base @ ''.'' @ nat_to_string n) = Some n"
  using nat_to_string_digits by (auto simp: suffix_number_def allDigits_def list_all_iff nth_append)

lemma update_absent: "map_of xs k = None \<Longrightarrow> AList.update k v xs = xs @ [(k, v)]"
  by (induction xs) (auto split: if_splits)

lemma insort_key_last: "f x < f y \<Longrightarrow> insort_key f x (zs @ [y]) = insort_key f x zs @ [y]"
  by (induction zs) auto

lemma sort_key_last:
  "(\<And>x. x \<in> set xs \<Longrightarrow> f x < f y) \<Longrightarrow> sort_key f (xs @ [y]) = sort_key f xs @ [y]"
  by (induction xs) (auto simp: insort_key_last)

abbreviation content :: "directory \<Rightarrow> string \<Rightarrow> byte list" where
  "content dir p \<equiv> (case map_of dir p of None \<Rightarrow> [] | Some c \<Rightarrow> c)"

lemma chain_bytes_eq: "chain_bytes base dir = concat (map (content dir) (segments base dir)) @ content dir base"
  by (auto simp: chain_bytes_def walSegmentPathsOrdered_def segments_def)

lemma segments_not_base: "p \<in> set (segments base dir) \<Longrightarrow> p \<noteq> base \<and> map_of dir p \<noteq> None"
  by (auto simp: segments_def dest: numbered_dom)

lemma segments_update_base [simp]: "segments base (AList.update base c dir) = segments base dir"
  by (simp add: segments_def numbered_update_base)

lemma content_update:
  "content (AList.update q c dir) p = (if p = q then c else content dir p)"
  by (simp add: update_conv')

lemma chain_append_base:
  "chain_bytes (ww_base w) (ww_dir (append_base bs w)) = chain_bytes (ww_base w) (ww_dir w) @ bs"
proof -
  have "map (content (ww_dir (append_base bs w))) (segments (ww_base w) (ww_dir w)) =
      map (content (ww_dir w)) (segments (ww_base w) (ww_dir w))"
    using segments_not_base by (intro map_cong refl) (auto simp: append_base_def content_update)
  moreover have "segments (ww_base w) (ww_dir (append_base bs w)) = segments (ww_base w) (ww_dir w)"
    by (simp add: append_base_def)
  moreover have "content (ww_dir (append_base bs w)) (ww_base w) = content (ww_dir w) (ww_base w) @ bs"
    by (simp add: append_base_def content_update base_content_def)
  ultimately show ?thesis by (simp only: chain_bytes_eq append_assoc)
qed

text \<open>Rotation moves the primary file to the end of the chain.\<close>

definition rotated_dir :: "WalWriter \<Rightarrow> directory" where
  "rotated_dir w = AList.update (ww_base w @ ''.'' @ nat_to_string (maxNumericWalSuffix (ww_base w) (ww_dir w) + 1))
     (base_content w) (AList.delete (ww_base w) (ww_dir w))"

lemma rotated_dir_facts:
  assumes "maxNumericWalSuffix (ww_base w) (ww_dir w) < int_max"
  defines "n \<equiv> maxNumericWalSuffix (ww_base w) (ww_dir w) + 1"
  defines "dest \<equiv> ww_base w @ ''.'' @ nat_to_string n"
  shows "numbered (ww_base w) (rotated_dir w) = numbered (ww_base w) (ww_dir w) @ [(n, dest)]"
    and "dest \<noteq> ww_base w" and "map_of (ww_dir w) dest = None"
    and "maxNumericWalSuffix (ww_base w) (rotated_dir w) = n"
    and "segments (ww_base w) (rotated_dir w) = segments (ww_base w) (ww_dir w) @ [dest]"
proof -
  have sn: "suffix_number (ww_base w) dest = Some n"
    using assms(1) unfolding dest_def n_def by (intro suffix_number_dest) simp
  show ne: "dest \<noteq> ww_base w" by (simp add: dest_def)
  have fresh: "fn \<noteq> dest" if "fn \<in> fst ` set (ww_dir w)" for fn
  proof
    assume "fn = dest"
    with that sn have "(n, dest) \<in> set (numbered (ww_base w) (ww_dir w))"
      by (auto intro: numberedI)
    from numbered_le_max [OF this] show False by (simp add: n_def)
  qed
  then show none: "map_of (ww_dir w) dest = None"
    by (auto simp: map_of_eq_None_iff)
  then have "AList.update dest (base_content w) (AList.delete (ww_base w) (ww_dir w)) =
      AList.delete (ww_base w) (ww_dir w) @ [(dest, base_content w)]"
    by (intro update_absent) (simp add: delete_conv')
  then show num: "numbered (ww_base w) (rotated_dir w) = numbered (ww_base w) (ww_dir w) @ [(n, dest)]"
    using sn by (simp add: rotated_dir_def n_def dest_def numbered_delete_base)
  show "maxNumericWalSuffix (ww_base w) (rotated_dir w) = n"
    by (simp add: maxNumericWalSuffix_def num) (simp add: maxNumericWalSuffix_def n_def)
  have "\<And>x. x \<in> set (numbered (ww_base w) (ww_dir w)) \<Longrightarrow> fst x < fst (n, dest)"
    using numbered_le_max by (auto simp: n_def less_Suc_eq_le)
  then show "segments (ww_base w) (rotated_dir w) = segments (ww_base w) (ww_dir w) @ [dest]"
    by (simp add: segments_def num sort_key_last)
qed

lemma rotated_dir_chain:
  assumes "maxNumericWalSuffix (ww_base w) (ww_dir w) < int_max"
  shows "chain_bytes (ww_base w) (rotated_dir w) = chain_bytes (ww_base w) (ww_dir w)"
    and "content (rotated_dir w) (ww_base w) = []"
proof -
  note f = rotated_dir_facts [OF assms]
  show b: "content (rotated_dir w) (ww_base w) = []"
    by (simp add: rotated_dir_def update_conv' delete_conv')
  have m: "map (content (rotated_dir w)) (segments (ww_base w) (ww_dir w)) =
      map (content (ww_dir w)) (segments (ww_base w) (ww_dir w))"
  proof (rule map_cong [OF refl])
    fix p assume "p \<in> set (segments (ww_base w) (ww_dir w))"
    then have "p \<noteq> ww_base w" "map_of (ww_dir w) p \<noteq> None" using segments_not_base by blast+
    moreover from this f(3)
    have "p \<noteq> ww_base w @ ''.'' @ nat_to_string (maxNumericWalSuffix (ww_base w) (ww_dir w) + 1)" by auto
    ultimately show "content (rotated_dir w) p = content (ww_dir w) p"
      by (simp add: rotated_dir_def update_conv' delete_conv')
  qed
  have c: "content (rotated_dir w) (ww_base w @ ''.'' @
      nat_to_string (maxNumericWalSuffix (ww_base w) (ww_dir w) + 1)) = content (ww_dir w) (ww_base w)"
    by (simp add: rotated_dir_def update_conv' base_content_def)
  show "chain_bytes (ww_base w) (rotated_dir w) = chain_bytes (ww_base w) (ww_dir w)"
    by (simp only: chain_bytes_eq f(5) map_append concat_append list.map concat.simps m c b append_Nil2)
qed

definition log_bytes :: "WalWriter \<Rightarrow> byte list" where
  "log_bytes w = chain_bytes (ww_base w) (ww_dir w)"

definition max_suffix :: "WalWriter \<Rightarrow> nat" where
  "max_suffix w = maxNumericWalSuffix (ww_base w) (ww_dir w)"

lemma log_bytes_config [simp]:
  "log_bytes (tick w) = log_bytes w" "max_suffix (tick w) = max_suffix w"
  "log_bytes (w\<lparr>ww_fd := b\<rparr>) = log_bytes w" "max_suffix (w\<lparr>ww_fd := b\<rparr>) = max_suffix w"
  by (simp_all add: log_bytes_def max_suffix_def)

definition sizes_ok :: "WalWriter \<Rightarrow> bool" where
  "sizes_ok w \<longleftrightarrow> (\<forall>p. p = ww_base w \<or> p \<in> set (segments (ww_base w) (ww_dir w)) \<longrightarrow>
     length (content (ww_dir w) p) \<le> max_file_bytes w)"

lemma append_base_effect:
  "ww_base (append_base bs w) = ww_base w" "log_bytes (append_base bs w) = log_bytes w @ bs"
  "max_suffix (append_base bs w) = max_suffix w"
  by (simp_all add: log_bytes_def max_suffix_def chain_append_base)
    (simp add: append_base_def maxNumericWalSuffix_def numbered_update_base)

lemma append_base_sizes:
  "sizes_ok w \<Longrightarrow> length (base_content w @ bs) \<le> max_file_bytes w \<Longrightarrow> sizes_ok (append_base bs w)"
  by (auto simp: sizes_ok_def append_base_def content_update)

lemma tick_effect [simp]: "sizes_ok (tick w) = sizes_ok w" "sizes_ok (w\<lparr>ww_fd := b\<rparr>) = sizes_ok w"
  by (simp_all add: sizes_ok_def)

lemma open_base_effect:
  assumes "open_base env w = (ok, w')"
  shows "log_bytes w' = log_bytes w" "max_suffix w' = max_suffix w" "ww_base w' = ww_base w"
    "max_file_bytes w' = max_file_bytes w" "sizes_ok w \<Longrightarrow> sizes_ok w'"
proof -
  have s: "sizes_ok w \<Longrightarrow> sizes_ok (append_base [] (tick w))"
    by (rule append_base_sizes) (simp_all add: sizes_ok_def base_content_def)
  show "log_bytes w' = log_bytes w" "max_suffix w' = max_suffix w" "ww_base w' = ww_base w"
    "max_file_bytes w' = max_file_bytes w" "sizes_ok w \<Longrightarrow> sizes_ok w'"
    using assms append_base_effect [of "[]" "tick w"] s
    by (auto simp: open_base_def split: if_splits)
qed

lemma rotated_sizes:
  assumes "maxNumericWalSuffix (ww_base w) (ww_dir w) < int_max" "sizes_ok w"
  shows "sizes_ok (w\<lparr>ww_dir := rotated_dir w\<rparr>)"
proof -
  note f = rotated_dir_facts [OF assms(1)] and c = rotated_dir_chain(2) [OF assms(1)]
  have "length (content (rotated_dir w) p) \<le> max_file_bytes w"
    if "p \<in> set (segments (ww_base w) (rotated_dir w))" for p
    using that assms(2) segments_not_base [of p "ww_base w" "rotated_dir w"] unfolding f(5)
    by (auto simp: sizes_ok_def rotated_dir_def update_conv' delete_conv' base_content_def)
  with c show ?thesis by (auto simp: sizes_ok_def)
qed

lemma rotate_effect:
  assumes "rotate env w = (ok, w')" "max_suffix w < int_max"
  shows "log_bytes w' = log_bytes w" "max_suffix w' \<le> max_suffix w + 1" "ww_base w' = ww_base w"
    "max_file_bytes w' = max_file_bytes w" "sizes_ok w \<Longrightarrow> sizes_ok w'"
proof -
  let ?w = "w\<lparr>ww_fd := False\<rparr>"
  let ?r = "tick ?w\<lparr>ww_dir := rotated_dir w\<rparr>"
  note lim = assms(2) [unfolded max_suffix_def]
  have r: "log_bytes ?r = log_bytes w" "max_suffix ?r = max_suffix w + 1"
    using rotated_dir_chain(1) [OF lim] rotated_dir_facts(4) [OF lim]
    by (simp_all add: log_bytes_def max_suffix_def)
  have s: "sizes_ok w \<Longrightarrow> sizes_ok ?r"
    using rotated_sizes [OF lim] by (simp add: sizes_ok_def)
  consider "open_base env ?w = (ok, w')" | "w' = tick ?w" | "open_base env ?r = (ok, w')"
    using assms(1) by (auto simp: rotate_def Let_def rotated_dir_def split: if_splits)
  then show "log_bytes w' = log_bytes w" "max_suffix w' \<le> max_suffix w + 1" "ww_base w' = ww_base w"
    "max_file_bytes w' = max_file_bytes w" "sizes_ok w \<Longrightarrow> sizes_ok w'"
    by (cases; use open_base_effect [of env ?w ok w'] open_base_effect [of env ?r ok w'] r s in force)+
qed

lemma writeAll_log:
  "writeAll env p w = (ok, w') \<Longrightarrow>
     (\<exists>n \<le> length p. log_bytes w' = log_bytes w @ take n p \<and> (ok \<longrightarrow> n = length p)) \<and>
     max_suffix w' = max_suffix w \<and> ww_base w' = ww_base w \<and> max_file_bytes w' = max_file_bytes w \<and>
     (sizes_ok w \<longrightarrow> length (base_content w @ p) \<le> max_file_bytes w \<longrightarrow> sizes_ok w')"
proof (induction env p w arbitrary: ok w' rule: writeAll.induct)
  case (1 env p w)
  show ?case
  proof (cases "p = [] \<or> sys_write env (ww_calls w) \<le> 0")
    case True
    then show ?thesis
      using "1.prems" by (subst (asm) writeAll.simps) (auto simp: Let_def split: if_splits)
  next
    case False
    define k where "k = min (nat (sys_write env (ww_calls w))) (length p)"
    let ?w = "append_base (take k p) (tick w)"
    have rec: "writeAll env (drop k p) ?w = (ok, w')"
      using False "1.prems" by (subst (asm) writeAll.simps) (simp add: Let_def k_def)
    have e: "log_bytes ?w = log_bytes w @ take k p" "max_suffix ?w = max_suffix w"
      using append_base_effect [of "take k p" "tick w"] by simp_all
    from "1.IH" [OF _ refl refl _ k_def rec] False
    have ih: "\<exists>n \<le> length (drop k p). log_bytes w' = log_bytes ?w @ take n (drop k p) \<and> (ok \<longrightarrow> n = length (drop k p))"
        "max_suffix w' = max_suffix ?w" "ww_base w' = ww_base ?w" "max_file_bytes w' = max_file_bytes ?w"
        "sizes_ok ?w \<longrightarrow> length (base_content ?w @ drop k p) \<le> max_file_bytes ?w \<longrightarrow> sizes_ok w'"
      by blast+
    from ih(1) obtain n where n: "n \<le> length (drop k p)" "ok \<longrightarrow> n = length (drop k p)"
      "log_bytes w' = log_bytes ?w @ take n (drop k p)"
      by blast
    have k: "k \<le> length p" by (simp add: k_def)
    have "log_bytes w' = log_bytes w @ take (k + n) p"
      by (simp only: n(3) e(1) take_add append_assoc)
    moreover have "sizes_ok w \<longrightarrow> length (base_content w @ p) \<le> max_file_bytes w \<longrightarrow> sizes_ok w'"
      using ih(5) append_base_sizes [of "tick w" "take k p"] k by auto
    ultimately show ?thesis
      using n(1,2) k ih(2-4) e(2) by (intro conjI exI [of _ "k + n"]) simp_all
  qed
qed

text \<open>
  A whole \<^verbatim>\<open>appendBytes\<close>: the log grows by a prefix of the data, by all of it on success, whatever
  the system calls return, and no file exceeds the limit. The bound on the suffix number leaves
  room for one rotation per loop iteration below \<^verbatim>\<open>INT_MAX\<close>.
\<close>

abbreviation full :: "WalWriter \<Rightarrow> nat" where
  "full w \<equiv> (if length (base_content w) \<ge> max_file_bytes w then 1 else 0)"

definition append_effect :: "byte list \<Rightarrow> WalWriter \<Rightarrow> bool \<Rightarrow> WalWriter \<Rightarrow> bool" where
  "append_effect data w ok w' \<longleftrightarrow>
     (\<exists>n \<le> length data. log_bytes w' = log_bytes w @ take n data \<and> (ok \<longrightarrow> n = length data)) \<and>
     ww_base w' = ww_base w \<and> max_file_bytes w' = max_file_bytes w \<and>
     (sizes_ok w \<longrightarrow> 0 < max_file_bytes w \<longrightarrow> sizes_ok w') \<and>
     max_suffix w' \<le> max_suffix w + 2 * length data + full w"

lemma append_effect_none: "log_bytes w' = log_bytes w \<Longrightarrow> ww_base w' = ww_base w \<Longrightarrow>
    max_file_bytes w' = max_file_bytes w \<Longrightarrow> (sizes_ok w \<Longrightarrow> sizes_ok w') \<Longrightarrow>
    max_suffix w' \<le> max_suffix w + full w \<Longrightarrow> append_effect data w False w'"
  by (auto simp: append_effect_def intro: exI [of _ 0])

lemma append_effect_same:
  "append_effect data w1 ok w' \<Longrightarrow> log_bytes w1 = log_bytes w \<Longrightarrow> ww_base w1 = ww_base w \<Longrightarrow>
    max_file_bytes w1 = max_file_bytes w \<Longrightarrow> (sizes_ok w \<Longrightarrow> sizes_ok w1) \<Longrightarrow>
    max_suffix w1 + full w1 \<le> max_suffix w + full w \<Longrightarrow> append_effect data w ok w'"
  unfolding append_effect_def by force

lemma append_effect_part:
  assumes "append_effect (drop k data) w1 ok w'" "log_bytes w1 = log_bytes w @ take k data"
    "ww_base w1 = ww_base w" "max_file_bytes w1 = max_file_bytes w" "sizes_ok w \<Longrightarrow> sizes_ok w1" "k \<le> length data"
    "max_suffix w1 = max_suffix w" "0 < k"
  shows "append_effect data w ok w'"
proof -
  obtain n where n: "n \<le> length (drop k data)" "log_bytes w' = log_bytes w1 @ take n (drop k data)"
    "ok \<longrightarrow> n = length (drop k data)"
    using assms(1) unfolding append_effect_def by blast
  have "log_bytes w' = log_bytes w @ take (k + n) data"
    by (simp only: n(2) assms(2) take_add append_assoc)
  moreover have "max_suffix w' \<le> max_suffix w + 2 * length data + full w"
    using assms(1,6,7,8) by (auto simp: append_effect_def split: if_splits)
  ultimately show ?thesis
    using assms n(1,3) by (auto simp: append_effect_def intro!: exI [of _ "k + n"])
qed

lemma writeAll_append_effect:
  assumes "writeAll env data w = (ok, w')"
    and "0 < max_file_bytes w \<Longrightarrow> length (base_content w @ data) \<le> max_file_bytes w"
  shows "append_effect data w ok w'"
  using writeAll_log [OF assms(1)] assms(2) by (auto simp: append_effect_def)

lemma appendBytes_loop_effect:
  "appendBytes_loop env data w = (ok, w') \<Longrightarrow> max_suffix w + 2 * length data + full w < int_max \<Longrightarrow>
     append_effect data w ok w'"
proof (induction "2 * length data + full w" arbitrary: data w rule: less_induct)
  case less
  note step = less.prems(1) [unfolded appendBytes_loop.simps [of env data w]]
  show ?case
  proof (cases "data = [] \<or> max_file_bytes w = 0 \<or> \<not> sys_fstat env (ww_calls w)")
    case True
    then show ?thesis
      using step writeAll_append_effect [of env data w ok w']
      by (auto simp: append_effect_none split: if_splits) (auto simp: append_effect_def)
  next
    case go: False
    show ?thesis
    proof (cases "length (base_content w) \<ge> max_file_bytes w")
      case full: True
      obtain rot w1 where r: "rotate env (tick w) = (rot, w1)" by (metis prod.exhaust)
      have lim: "max_suffix (tick w) < int_max" using less.prems(2) by simp
      note e = rotate_effect [OF r lim]
      show ?thesis
      proof (cases rot)
        case True
        have rec: "appendBytes_loop env data w1 = (ok, w')"
          using step go r True full by (simp add: Let_def)
        have f: "full w1 = 0" "full w = 1" using rotate_fresh [of env "tick w" w1] r True go full by auto
        have "append_effect data w1 ok w'"
          by (rule less.hyps [OF _ rec]) (use f e(2) less.prems(2) in simp_all)
        then show ?thesis by (rule append_effect_same) (use e f in simp_all)
      next
        case False
        with step go r full have "w' = w1" "\<not> ok" by (simp_all add: Let_def)
        then show ?thesis using e full by (simp add: append_effect_none)
      qed
    next
      case room: False
      define k where "k = min (length data) (max_file_bytes w - length (base_content w))"
      obtain wr w1 where r: "writeAll env (take k data) (tick w) = (wr, w1)" by (metis prod.exhaust)
      have "0 < length data" using go by simp
      with room have k: "0 < k" "k \<le> length data" by (auto simp: k_def simp del: length_greater_0_conv)
      have fit: "length (base_content w) + k \<le> max_file_bytes w" using room by (simp add: k_def)
      have w1: "append_effect (take k data) (tick w) wr w1" "max_suffix w1 = max_suffix w"
        using writeAll_log [OF r] k(2) fit by (auto simp: append_effect_def)
      show ?thesis
      proof (cases wr)
        case True
        have rec: "appendBytes_loop env (drop k data) w1 = (ok, w')"
          using step go r True room by (simp add: Let_def k_def)
        have "append_effect (drop k data) w1 ok w'"
          by (rule less.hyps [OF _ rec]) (use k w1(2) less.prems(2) in \<open>auto split: if_splits\<close>)
        then show ?thesis
          by (rule append_effect_part) (use w1 True k go in \<open>auto simp: append_effect_def\<close>)
      next
        case False
        with step go r room have "w' = w1" "\<not> ok" by (simp_all add: Let_def k_def)
        moreover obtain n where n: "n \<le> length (take k data)" "log_bytes w1 = log_bytes w @ take n (take k data)"
          using w1(1) unfolding append_effect_def log_bytes_config by blast
        moreover have "n \<le> length data" "take n (take k data) = take n data"
          using n(1) k(2) by (auto simp: min_def split: if_splits)
        ultimately show ?thesis
          using w1 by (auto simp: append_effect_def simp del: take_take)
      qed
    qed
  qed
qed

lemma appendBytes_effect:
  assumes "appendBytes env data w = (ok, w')" "max_suffix w + 2 * length data + 1 < int_max"
  shows "append_effect data w ok w'"
proof -
  have "max_suffix w + 2 * length data + full w < int_max" using assms(2) by simp
  then show ?thesis
    using appendBytes_loop_effect [of env data w ok w'] assms(1)
    by (cases "data = []")
      (auto simp: appendBytes_def append_effect_none append_effect_def [of "[]"] split: if_splits)
qed

text \<open>If no system call fails, neither does the writer.\<close>

definition no_failures :: "WalEnv \<Rightarrow> bool" where
  "no_failures env \<longleftrightarrow> (\<forall>n. 0 < sys_write env n \<and> sys_rename env n \<and> sys_open env n \<and> sys_fstat env n)"

lemma writeAll_succeeds: "no_failures env \<Longrightarrow> fst (writeAll env p w)"
proof (induction env p w rule: writeAll.induct)
  case (1 env p w)
  then show ?case
    by (subst writeAll.simps) (auto simp: Let_def no_failures_def not_le [symmetric])
qed

lemma rotate_succeeds: "no_failures env \<Longrightarrow> fst (rotate env w)"
  by (simp add: rotate_def open_base_def no_failures_def Let_def)

lemma appendBytes_loop_succeeds:
  "no_failures env \<Longrightarrow> ww_fd w \<Longrightarrow> fst (appendBytes_loop env data w) \<and> ww_fd (snd (appendBytes_loop env data w))"
proof (induction "2 * length data + full w" arbitrary: data w rule: less_induct)
  case less
  have wr: "fst (writeAll env p v)" "ww_fd (snd (writeAll env p v)) = ww_fd v" for p v
    using writeAll_succeeds [OF less.prems(1)] writeAll_effect [of env p v, OF prod.collapse [symmetric]] by auto
  have fstat: "sys_fstat env (ww_calls w)" using less.prems(1) by (simp add: no_failures_def)
  show ?case
  proof (cases "data = [] \<or> max_file_bytes w = 0")
    case True
    then show ?thesis using wr less.prems(2) by (subst (1 2) appendBytes_loop.simps) auto
  next
    case go: False
    show ?thesis
    proof (cases "length (base_content w) \<ge> max_file_bytes w")
      case True
      obtain w1 where r: "rotate env (tick w) = (True, w1)"
        using rotate_succeeds [OF less.prems(1), of "tick w"] by (cases "rotate env (tick w)") auto
      have "fst (appendBytes_loop env data w1) \<and> ww_fd (snd (appendBytes_loop env data w1))"
        using rotate_fresh [OF r] go True less.prems by (intro less.hyps) auto
      then show ?thesis
        using r go True fstat by (subst (1 2) appendBytes_loop.simps) (simp add: Let_def)
    next
      case False
      define k where "k = min (length data) (max_file_bytes w - length (base_content w))"
      obtain w1 where r: "writeAll env (take k data) (tick w) = (True, w1)" "ww_fd w1"
        using wr [of "take k data" "tick w"] less.prems(2) by (cases "writeAll env (take k data) (tick w)") auto
      have "0 < length data" using go by simp
      with False have "0 < k" "k \<le> length data" by (auto simp: k_def simp del: length_greater_0_conv)
      then have "fst (appendBytes_loop env (drop k data) w1) \<and> ww_fd (snd (appendBytes_loop env (drop k data) w1))"
        using r(2) less.prems by (intro less.hyps) auto
      then show ?thesis
        using r go False fstat by (subst (1 2) appendBytes_loop.simps) (simp add: Let_def k_def)
    qed
  qed
qed

lemma appendBytes_succeeds:
  "no_failures env \<Longrightarrow> ww_fd w \<Longrightarrow> fst (appendBytes env data w) \<and> ww_fd (snd (appendBytes env data w))"
  by (simp add: appendBytes_def appendBytes_loop_succeeds)

lemma appendBytes_log:
  assumes "no_failures env" "ww_fd w" "max_suffix w + 2 * length data + 1 < int_max"
  shows "log_bytes (snd (appendBytes env data w)) = log_bytes w @ data"
    and "max_suffix (snd (appendBytes env data w)) \<le> max_suffix w + 2 * length data + 1"
    and "ww_fd (snd (appendBytes env data w))"
proof -
  note ok = appendBytes_succeeds [OF assms(1,2), of data]
  have e: "append_effect data w True (snd (appendBytes env data w))"
    using appendBytes_effect [of env data w, OF prod.collapse [symmetric] assms(3)] ok by simp
  from e show "log_bytes (snd (appendBytes env data w)) = log_bytes w @ data"
    by (auto simp: append_effect_def)
  from e show "max_suffix (snd (appendBytes env data w)) \<le> max_suffix w + 2 * length data + 1"
    by (auto simp: append_effect_def split: if_splits)
  show "ww_fd (snd (appendBytes env data w))" using ok by simp
qed

section \<open>Entries that straddle two files\<close>

text \<open>
  The reader decodes each file of the chain by itself. If every file holds whole entries, the chain
  gives all of them.
\<close>

lemma read_chain_whole:
  "list_all2 (\<lambda>p ms. map_of dir p = Some (encodeBatch ms) \<and> log_ok ms) paths mss \<Longrightarrow>
     read_chain dir paths = Some (concat mss)"
proof (induction paths arbitrary: mss)
  case (Cons p paths)
  then obtain ms mss' where m: "mss = ms # mss'" "map_of dir p = Some (encodeBatch ms)" "log_ok ms"
    "list_all2 (\<lambda>p ms. map_of dir p = Some (encodeBatch ms) \<and> log_ok ms) paths mss'"
    by (auto simp: list_all2_Cons1)
  then show ?case
    using Cons.IH [OF m(4)] readAllMutations_whole_log [OF m(3)] by simp
qed simp

text \<open>A file that starts with the rest of an entry is corrupt, unless the rest looks like an entry.\<close>

lemma decode_wrong_magic:
  assumes "3 \<le> length bs" "take 2 bs \<noteq> [byte_of_char CHR ''W'', byte_of_char CHR ''2'']"
  shows "decodeOneStatus bs 0 = Corrupt"
proof -
  obtain a b c r where bs: "bs = a # b # c # r"
    using assms(1) by (auto simp: numeral_3_eq_3 Suc_le_length_iff)
  have "wal_header bs 0 = Some ((a, b, c), 3)"
    by (simp add: wal_header_def readU8_def bs)
  then show ?thesis using assms(2) by (auto simp: decodeOneStatus_def bs)
qed

lemma readAllMutations_wrong_magic:
  assumes "3 \<le> length bs" "take 2 bs \<noteq> [byte_of_char CHR ''W'', byte_of_char CHR ''2'']"
  shows "readAllMutations (Some bs) = None"
proof -
  have "bs \<noteq> []" using assms(1) by auto
  then have "drain bs 0 [] = (BadEntry, 0, [])"
    using decode_wrong_magic [OF assms] by (simp add: drain.simps)
  then show ?thesis by (simp add: readAllMutations_def readAll_drain read_result_def)
qed

end
