(* ===== verification/Backend.thy ===== *)
theory Backend
  imports Data_Model
begin

text \<open>
  The record store below the engine: \<^verbatim>\<open>storage2/backend/InMemoryBackend\<close>, the implementation of
  \<^verbatim>\<open>IBackend\<close>. The \<^verbatim>\<open>unordered_map\<close> is an association list in some iteration order, so that
  facts about an enumeration of the keys are stated up to their order; sizes are \<^verbatim>\<open>size_t\<close>, 64-bit
  words that wrap. The size of a \<^verbatim>\<open>Record\<close> object is a constant of the ABI, a field of the model.
  Each method holds the mutex of the store for its whole body, so it is one function on the state.
\<close>

section \<open>State and operations\<close>

record Backend =
  be_map :: "(string \<times> Record) list"
  max_storage_bytes :: u64
  bytes_used :: u64
  bypass_limit :: bool
  sizeof_Record :: u64

definition InMemoryBackend :: "u64 \<Rightarrow> u64 \<Rightarrow> Backend" where
  "InMemoryBackend szrec max_bytes =
     \<lparr>be_map = [], max_storage_bytes = max_bytes, bytes_used = 0, bypass_limit = False,
      sizeof_Record = szrec\<rparr>"

definition str_size :: "string \<Rightarrow> u64" where
  "str_size s = of_nat (length s)"

definition estimateDataValue :: "DataValue \<Rightarrow> u64" where
  "estimateDataValue v = (case dv_type v of
      STRING \<Rightarrow> 32 + str_size (string_value v)
    | LIST \<Rightarrow> foldl (\<lambda>n s. n + str_size s) 32 (list_value v)
    | SET \<Rightarrow> foldl (\<lambda>n s. n + str_size s) 32 (set_value v)
    | HASH \<Rightarrow> foldl (\<lambda>n kv. n + (str_size (fst kv) + str_size (snd kv))) 32 (hash_value v))"

definition estimateFootprint :: "u64 \<Rightarrow> string \<Rightarrow> Record \<Rightarrow> u64" where
  "estimateFootprint szrec key r = str_size key + estimateDataValue (rec_value r) + szrec div 2"

definition setBypassStorageLimit :: "bool \<Rightarrow> Backend \<Rightarrow> Backend" where
  "setBypassStorageLimit on b = b\<lparr>bypass_limit := on\<rparr>"

definition estimatedBytesUsed :: "Backend \<Rightarrow> u64" where
  "estimatedBytesUsed b = bytes_used b"

definition getRecord :: "string \<Rightarrow> Backend \<Rightarrow> Record option" where
  "getRecord key b = map_of (be_map b) key"

definition putRecord :: "string \<Rightarrow> Record \<Rightarrow> Backend \<Rightarrow> bool \<times> Backend" where
  "putRecord key record b =
     (let old_fp = (case map_of (be_map b) key of
             None \<Rightarrow> 0 | Some r \<Rightarrow> estimateFootprint (sizeof_Record b) key r);
          new_fp = estimateFootprint (sizeof_Record b) key record;
          projected = bytes_used b - old_fp + new_fp
      in if \<not> bypass_limit b \<and> max_storage_bytes b > 0 \<and> projected > max_storage_bytes b
         then (False, b)
         else (True, b\<lparr>be_map := AList.update key record (be_map b),
                       bytes_used := bytes_used b - old_fp + new_fp\<rparr>))"

definition delKey :: "string \<Rightarrow> Backend \<Rightarrow> bool \<times> Backend" where
  "delKey key b = (case map_of (be_map b) key of
      None \<Rightarrow> (False, b)
    | Some r \<Rightarrow> (True, b\<lparr>be_map := AList.delete key (be_map b),
          bytes_used := bytes_used b - estimateFootprint (sizeof_Record b) key r\<rparr>))"

definition clearAll :: "Backend \<Rightarrow> Backend" where
  "clearAll b = b\<lparr>be_map := [], bytes_used := 0\<rparr>"

definition be_size :: "Backend \<Rightarrow> int" where
  "be_size b = to_i64 (int (length (be_map b)))"

definition be_keys :: "Backend \<Rightarrow> string list" where
  "be_keys b = map fst (be_map b)"

section \<open>Invariant: distinct keys and exact accounting\<close>

definition footprint_sum :: "u64 \<Rightarrow> (string \<times> Record) list \<Rightarrow> u64" where
  "footprint_sum sz kvs = sum_list (map (\<lambda>(k, r). estimateFootprint sz k r) kvs)"

definition be_inv :: "Backend \<Rightarrow> bool" where
  "be_inv b \<longleftrightarrow> distinct (map fst (be_map b)) \<and>
     bytes_used b = footprint_sum (sizeof_Record b) (be_map b)"

abbreviation be_view :: "Backend \<Rightarrow> keyspace" where
  "be_view b \<equiv> (\<lambda>k. getRecord k b)"

lemma footprint_sum_update:
  "distinct (map fst kvs) \<Longrightarrow> footprint_sum sz (AList.update k r kvs) =
     footprint_sum sz kvs - (case map_of kvs k of None \<Rightarrow> 0 | Some r' \<Rightarrow> estimateFootprint sz k r')
       + estimateFootprint sz k r"
  by (induction kvs) (auto simp: footprint_sum_def dest: weak_map_of_SomeI split: option.splits)

lemma delete_absent: "map_of kvs k = None \<Longrightarrow> AList.delete k kvs = kvs"
  by (induction kvs) (auto split: if_splits)

lemma footprint_sum_delete:
  "distinct (map fst kvs) \<Longrightarrow> map_of kvs k = Some r \<Longrightarrow>
     footprint_sum sz (AList.delete k kvs) = footprint_sum sz kvs - estimateFootprint sz k r"
  by (induction kvs) (auto simp: footprint_sum_def delete_absent map_of_eq_None_iff split: if_splits)

lemma be_inv_init [simp]: "be_inv (InMemoryBackend sz m)"
  by (simp add: be_inv_def InMemoryBackend_def footprint_sum_def)

lemma be_inv_put [simp]: "be_inv b \<Longrightarrow> be_inv (snd (putRecord k r b))"
  by (auto simp: be_inv_def putRecord_def Let_def footprint_sum_update distinct_update)

lemma be_inv_del [simp]: "be_inv b \<Longrightarrow> be_inv (snd (delKey k b))"
  by (auto simp: be_inv_def delKey_def footprint_sum_delete distinct_delete split: option.splits)

lemma be_inv_clear [simp]: "be_inv (clearAll b)"
  by (simp add: be_inv_def clearAll_def footprint_sum_def)

lemma be_inv_bypass [simp]: "be_inv (setBypassStorageLimit on b) = be_inv b"
  by (simp add: be_inv_def setBypassStorageLimit_def)

section \<open>The contract of the record store\<close>

text \<open>
  \<^verbatim>\<open>IBackend\<close>: a finite map of records, whose \<open>put\<close> may refuse a record and then changes nothing.
  \<open>unlimited\<close> holds when no \<open>put\<close> can be refused.
\<close>

locale kv_backend =
  fixes get :: "string \<Rightarrow> 'b \<Rightarrow> Record option"
    and put :: "string \<Rightarrow> Record \<Rightarrow> 'b \<Rightarrow> bool \<times> 'b"
    and del :: "string \<Rightarrow> 'b \<Rightarrow> bool \<times> 'b"
    and clr :: "'b \<Rightarrow> 'b"
    and ok :: "'b \<Rightarrow> bool"
    and unlimited :: "'b \<Rightarrow> bool"
  assumes get_put: "get k' (snd (put k r b)) =
      (if fst (put k r b) \<and> k' = k then Some r else get k' b)"
    and put_refused: "\<not> fst (put k r b) \<Longrightarrow> snd (put k r b) = b"
    and put_accepts: "unlimited b \<Longrightarrow> fst (put k r b)"
    and get_del: "get k' (snd (del k b)) = (if k' = k then None else get k' b)"
    and del_found: "fst (del k b) \<longleftrightarrow> get k b \<noteq> None"
    and get_clr: "get k (clr b) = None"
    and ok_put: "ok b \<Longrightarrow> ok (snd (put k r b))"
    and ok_del: "ok b \<Longrightarrow> ok (snd (del k b))"
    and ok_clr: "ok b \<Longrightarrow> ok (clr b)"
    and unlimited_put: "unlimited b \<Longrightarrow> unlimited (snd (put k r b))"
    and unlimited_del: "unlimited b \<Longrightarrow> unlimited (snd (del k b))"
    and unlimited_clr: "unlimited b \<Longrightarrow> unlimited (clr b)"
begin

lemma view_put: "fst (put k r b) \<Longrightarrow> (\<lambda>k'. get k' (snd (put k r b))) = (\<lambda>k'. get k' b)(k \<mapsto> r)"
  by (simp add: get_put fun_eq_iff)

lemma view_del: "(\<lambda>k'. get k' (snd (del k b))) = (\<lambda>k'. get k' b)(k := None)"
  by (simp add: get_del fun_eq_iff)

text \<open>Storing a list of records one after the other: the last one of each key stays.\<close>

lemma ok_fold_put: "ok b \<Longrightarrow> ok (fold (\<lambda>(k, r) b. snd (put k r b)) kvs b)"
  by (induction kvs arbitrary: b) (auto simp: ok_put)

lemma unlimited_fold_put: "unlimited b \<Longrightarrow> unlimited (fold (\<lambda>(k, r) b. snd (put k r b)) kvs b)"
  by (induction kvs arbitrary: b) (auto simp: unlimited_put)

lemma get_fold_put:
  "unlimited b \<Longrightarrow> (\<lambda>k. get k (fold (\<lambda>(k, r) b. snd (put k r b)) kvs b)) =
     (\<lambda>k. get k b) ++ map_of (rev kvs)"
proof (induction kvs arbitrary: b)
  case (Cons kv kvs)
  obtain k r where kv: "kv = (k, r)" by (cases kv)
  have "(\<lambda>k'. get k' (snd (put k r b))) = (\<lambda>k'. get k' b)(k \<mapsto> r)"
    by (rule view_put) (simp add: put_accepts Cons.prems)
  then show ?case
    using Cons.IH [OF unlimited_put [OF Cons.prems, of k r]] by (simp add: kv map_add_upd_left)
qed simp

end

interpretation mem: kv_backend getRecord putRecord delKey clearAll be_inv
  "\<lambda>b. bypass_limit b \<or> max_storage_bytes b = 0"
proof unfold_locales
  show "be_inv b \<Longrightarrow> be_inv (clearAll b)" for b by simp
  show "be_inv b \<Longrightarrow> be_inv (snd (putRecord k r b))" for b k r by simp
  show "be_inv b \<Longrightarrow> be_inv (snd (delKey k b))" for b k by simp
qed (auto simp: getRecord_def putRecord_def delKey_def clearAll_def Let_def update_conv'
      delete_conv' split: option.splits)

section \<open>Further facts of the in-memory store\<close>

lemma getRecord_init [simp]: "getRecord k (InMemoryBackend sz m) = None"
  by (simp add: getRecord_def InMemoryBackend_def)

lemma getRecord_bypass [simp]: "getRecord k (setBypassStorageLimit on b) = getRecord k b"
  by (simp add: getRecord_def setBypassStorageLimit_def)

lemma put_config [simp]:
  "max_storage_bytes (snd (putRecord k r b)) = max_storage_bytes b"
  "bypass_limit (snd (putRecord k r b)) = bypass_limit b"
  "sizeof_Record (snd (putRecord k r b)) = sizeof_Record b"
  by (simp_all add: putRecord_def Let_def)

lemma del_config [simp]:
  "max_storage_bytes (snd (delKey k b)) = max_storage_bytes b"
  "bypass_limit (snd (delKey k b)) = bypass_limit b"
  "sizeof_Record (snd (delKey k b)) = sizeof_Record b"
  by (simp_all add: delKey_def split: option.split)

lemma put_within_quota:
  "fst (putRecord k r b) \<Longrightarrow> \<not> bypass_limit b \<Longrightarrow> max_storage_bytes b > 0 \<Longrightarrow>
     bytes_used (snd (putRecord k r b)) \<le> max_storage_bytes b"
  by (auto simp: putRecord_def Let_def not_less split: if_splits)

lemma set_be_keys: "set (be_keys b) = dom (be_view b)"
  by (simp add: be_keys_def getRecord_def dom_map_of_conv_image_fst)

lemma distinct_be_keys: "be_inv b \<Longrightarrow> distinct (be_keys b)"
  by (simp add: be_inv_def be_keys_def)

lemma finite_be_view: "finite (dom (be_view b))"
  by (metis finite_set set_be_keys)

lemma length_be_map: "be_inv b \<Longrightarrow> length (be_map b) = card (dom (be_view b))"
  by (metis be_keys_def distinct_be_keys distinct_card length_map set_be_keys)

lemma be_size_card:
  "be_inv b \<Longrightarrow> int (card (dom (be_view b))) \<le> i64_max \<Longrightarrow> be_size b = int (card (dom (be_view b)))"
  by (simp add: be_size_def length_be_map in_i64_def i64_min_def to_i64_id)

end
