(* ===== verification/Engine.thy ===== *)
theory Engine
  imports Backend
begin

text \<open>
  The storage engine \<^verbatim>\<open>storage2/engine/StorageEngine.cpp\<close>: every call of \<^verbatim>\<open>IStorageAPI\<close> as a
  function on the engine state, which returns the \<^verbatim>\<open>StorageResult\<close> of the call (status, value and
  the mutations for the log) and the new state. The state is the backend, the sequence of
  values that successive calls of \<^verbatim>\<open>nowEpochUs()\<close> return, and the number of reads so far: the wall
  clock is not under the control of the program and need not be monotonic, so each read of the
  source takes the next element of an arbitrary sequence.
\<close>

section \<open>State, clock and backend access\<close>

record Engine =
  eng_backend :: Backend
  eng_clock :: "nat \<Rightarrow> int"
  eng_reads :: nat

definition clock_now :: "Engine \<Rightarrow> int" where
  "clock_now e = eng_clock e (eng_reads e)"

definition nowEpochUs :: "Engine \<Rightarrow> int \<times> Engine" where
  "nowEpochUs e = (clock_now e, e\<lparr>eng_reads := Suc (eng_reads e)\<rparr>)"

definition eng_get :: "string \<Rightarrow> Engine \<Rightarrow> Record option" where
  "eng_get key e = getRecord key (eng_backend e)"

definition eng_put :: "string \<Rightarrow> Record \<Rightarrow> Engine \<Rightarrow> bool \<times> Engine" where
  "eng_put key r e =
     (fst (putRecord key r (eng_backend e)),
      e\<lparr>eng_backend := snd (putRecord key r (eng_backend e))\<rparr>)"

definition eng_del :: "string \<Rightarrow> Engine \<Rightarrow> bool \<times> Engine" where
  "eng_del key e =
     (fst (delKey key (eng_backend e)), e\<lparr>eng_backend := snd (delKey key (eng_backend e))\<rparr>)"

definition isExpired :: "Record \<Rightarrow> int \<Rightarrow> bool" where
  "isExpired r now_us \<longleftrightarrow> expire_at_us r \<ge> 0 \<and> now_us \<ge> expire_at_us r"

text \<open>
  The common ends of the operations: delete the key and log it, store the record and log it
  (or report that the quota is exceeded). \<open>t\<close> is a time that was read before.
\<close>

definition put_logged ::
    "string \<Rightarrow> Record \<Rightarrow> Mutation list \<Rightarrow> 'a \<Rightarrow> 'a \<Rightarrow> Engine \<Rightarrow> 'a StorageResult \<times> Engine" where
  "put_logged key r muts d v e =
     (let (stored, e) = eng_put key r e in
      if \<not> stored then (sr_err d QuotaExceeded, e)
      else let (now, e) = nowEpochUs e in (sr_ok v (muts @ [mut_put key r now]), e))"

definition put_logged_at ::
    "string \<Rightarrow> Record \<Rightarrow> int \<Rightarrow> 'a \<Rightarrow> 'a \<Rightarrow> Engine \<Rightarrow> 'a StorageResult \<times> Engine" where
  "put_logged_at key r t d v e =
     (let (stored, e) = eng_put key r e in
      if \<not> stored then (sr_err d QuotaExceeded, e) else (sr_ok v [mut_put key r t], e))"

definition del_logged :: "string \<Rightarrow> Mutation list \<Rightarrow> 'a \<Rightarrow> Engine \<Rightarrow> 'a StorageResult \<times> Engine" where
  "del_logged key muts v e =
     (let (_, e) = eng_del key e; (now, e) = nowEpochUs e in (sr_ok v (muts @ [mut_del key now]), e))"

definition del_logged_at :: "string \<Rightarrow> int \<Rightarrow> 'a \<Rightarrow> Engine \<Rightarrow> 'a StorageResult \<times> Engine" where
  "del_logged_at key t v e = (let (_, e) = eng_del key e in (sr_ok v [mut_del key t], e))"

section \<open>Strings and keys\<close>

definition engine_set :: "string \<Rightarrow> string \<Rightarrow> Engine \<Rightarrow> bool StorageResult \<times> Engine" where
  "engine_set key v e =
     put_logged key (Record0\<lparr>rec_value := DataValue_str v, expire_at_us := -1, version := 0\<rparr>) [] False True e"

definition engine_get :: "string \<Rightarrow> Engine \<Rightarrow> string option StorageResult \<times> Engine" where
  "engine_get key e = (case eng_get key e of
      None \<Rightarrow> (sr_ok None [], e)
    | Some r \<Rightarrow>
        let (now, e) = nowEpochUs e in
        if isExpired r now then del_logged_at key now None e
        else if dv_type (rec_value r) \<noteq> STRING then (sr_err None WrongType, e)
        else (sr_ok (Some (string_value (rec_value r))) [], e))"

definition engine_del :: "string \<Rightarrow> Engine \<Rightarrow> int StorageResult \<times> Engine" where
  "engine_del key e =
     (let (removed, e) = eng_del key e in
      if \<not> removed then (sr_ok 0 [], e)
      else let (now, e) = nowEpochUs e in (sr_ok 1 [mut_del key now], e))"

definition engine_exists :: "string \<Rightarrow> Engine \<Rightarrow> int StorageResult \<times> Engine" where
  "engine_exists key e = (case eng_get key e of
      None \<Rightarrow> (sr_ok 0 [], e)
    | Some r \<Rightarrow>
        let (now, e) = nowEpochUs e in
        if isExpired r now then del_logged_at key now 0 e else (sr_ok 1 [], e))"

section \<open>Expiration\<close>

text \<open>
  \<^verbatim>\<open>now + ttl_seconds * 1000'000\<close> is computed in \<^verbatim>\<open>int64_t\<close>; \<open>to_i64\<close> is its wrap-around (an
  overflow is undefined in C++; the commands reject the arguments that reach it).
\<close>

definition engine_expire :: "string \<Rightarrow> int \<Rightarrow> Engine \<Rightarrow> int StorageResult \<times> Engine" where
  "engine_expire key ttl e =
     (if ttl < 0 then (sr_err 0 InvalidArg, e)
      else case eng_get key e of
        None \<Rightarrow> (sr_ok 0 [], e)
      | Some r \<Rightarrow>
          let (now, e) = nowEpochUs e in
          if isExpired r now then del_logged_at key now 0 e
          else if ttl = 0 then del_logged_at key now 1 e
          else put_logged_at key (r\<lparr>expire_at_us := to_i64 (now + to_i64 (ttl * 1000000))\<rparr>) now 0 1 e)"

definition engine_persist :: "string \<Rightarrow> Engine \<Rightarrow> int StorageResult \<times> Engine" where
  "engine_persist key e = (case eng_get key e of
      None \<Rightarrow> (sr_ok 0 [], e)
    | Some r \<Rightarrow>
        let (now, e) = nowEpochUs e in
        if isExpired r now then del_logged_at key now 0 e
        else let had_ttl = expire_at_us r \<ge> 0 in
          put_logged_at key (r\<lparr>expire_at_us := -1\<rparr>) now 0 (if had_ttl then 1 else 0) e)"

text \<open>\<^verbatim>\<open>ttl\<close> and \<^verbatim>\<open>pttl\<close> differ in the unit that divides the remaining microseconds.\<close>

definition engine_ttl :: "string \<Rightarrow> Engine \<Rightarrow> int StorageResult \<times> Engine" where
  "engine_ttl key e = (case eng_get key e of
      None \<Rightarrow> (sr_ok (-2) [], e)
    | Some r \<Rightarrow>
        let (now, e) = nowEpochUs e in
        if isExpired r now then del_logged_at key now (-2) e
        else if expire_at_us r < 0 then (sr_ok (-1) [], e)
        else let remain_us = to_i64 (expire_at_us r - now) in
          if remain_us \<le> 0 then del_logged_at key now (-2) e
          else (sr_ok (remain_us div 1000000) [], e))"

definition engine_pttl :: "string \<Rightarrow> Engine \<Rightarrow> int StorageResult \<times> Engine" where
  "engine_pttl key e = (case eng_get key e of
      None \<Rightarrow> (sr_ok (-2) [], e)
    | Some r \<Rightarrow>
        let (now, e) = nowEpochUs e in
        if isExpired r now then del_logged_at key now (-2) e
        else if expire_at_us r < 0 then (sr_ok (-1) [], e)
        else let remain_us = to_i64 (expire_at_us r - now) in
          if remain_us \<le> 0 then del_logged_at key now (-2) e
          else (sr_ok (remain_us div 1000) [], e))"

definition engine_dbsize :: "Engine \<Rightarrow> int StorageResult \<times> Engine" where
  "engine_dbsize e = (sr_ok (be_size (eng_backend e)) [], e)"

definition engine_keys :: "Engine \<Rightarrow> string list StorageResult \<times> Engine" where
  "engine_keys e = (sr_ok (be_keys (eng_backend e)) [], e)"

section \<open>Containers\<close>

definition getLiveRecordOrExpire ::
    "string \<Rightarrow> Engine \<Rightarrow> Record option \<times> Mutation list \<times> Engine" where
  "getLiveRecordOrExpire key e = (case eng_get key e of
      None \<Rightarrow> (None, [], e)
    | Some r \<Rightarrow>
        let (now, e) = nowEpochUs e in
        if isExpired r now then let (_, e) = eng_del key e in (None, [mut_del key now], e)
        else (Some r, [], e))"

definition getOrInitContainer ::
    "string \<Rightarrow> DataType \<Rightarrow> Engine \<Rightarrow> Record StorageResult \<times> Engine" where
  "getOrInitContainer key want_type e =
     (let (r, muts, e) = getLiveRecordOrExpire key e in
      case r of
        None \<Rightarrow>
          let nr = \<lparr>rec_value = DataValue0\<lparr>dv_type := want_type, string_value := []\<rparr>,
                expire_at_us = -1, version = 0\<rparr>
          in put_logged key nr muts Record0 nr e
      | Some r \<Rightarrow>
          if dv_type (rec_value r) = want_type then (sr_ok r muts, e)
          else (sr_err Record0 WrongType, e))"

definition engine_lpush :: "string \<Rightarrow> string list \<Rightarrow> Engine \<Rightarrow> int StorageResult \<times> Engine" where
  "engine_lpush key vals e =
     (if vals = [] then (sr_err 0 InvalidArg, e)
      else let (r, e) = getOrInitContainer key LIST e in
        if sr_status r \<noteq> Ok then (sr_err 0 (sr_status r), e)
        else let l = fold (\<lambda>v l. v # l) vals (list_value (rec_value (sr_value r)));
                 nr = (sr_value r)\<lparr>rec_value := (rec_value (sr_value r))\<lparr>list_value := l\<rparr>\<rparr>
          in put_logged key nr (sr_mutations r) 0 (to_i64 (int (length l))) e)"

definition engine_rpush :: "string \<Rightarrow> string list \<Rightarrow> Engine \<Rightarrow> int StorageResult \<times> Engine" where
  "engine_rpush key vals e =
     (if vals = [] then (sr_err 0 InvalidArg, e)
      else let (r, e) = getOrInitContainer key LIST e in
        if sr_status r \<noteq> Ok then (sr_err 0 (sr_status r), e)
        else let l = fold (\<lambda>v l. l @ [v]) vals (list_value (rec_value (sr_value r)));
                 nr = (sr_value r)\<lparr>rec_value := (rec_value (sr_value r))\<lparr>list_value := l\<rparr>\<rparr>
          in put_logged key nr (sr_mutations r) 0 (to_i64 (int (length l))) e)"

definition engine_lpop :: "string \<Rightarrow> Engine \<Rightarrow> string option StorageResult \<times> Engine" where
  "engine_lpop key e =
     (let (r, muts, e) = getLiveRecordOrExpire key e in
      case r of
        None \<Rightarrow> (sr_ok None muts, e)
      | Some r \<Rightarrow>
          if dv_type (rec_value r) \<noteq> LIST then (sr_err None WrongType, e)
          else (case list_value (rec_value r) of
              [] \<Rightarrow> (sr_ok None [], e)
            | elem # l \<Rightarrow>
                if l = [] then del_logged key muts (Some elem) e
                else put_logged key (r\<lparr>rec_value := (rec_value r)\<lparr>list_value := l\<rparr>\<rparr>) muts
                  None (Some elem) e))"

definition engine_rpop :: "string \<Rightarrow> Engine \<Rightarrow> string option StorageResult \<times> Engine" where
  "engine_rpop key e =
     (let (r, muts, e) = getLiveRecordOrExpire key e in
      case r of
        None \<Rightarrow> (sr_ok None muts, e)
      | Some r \<Rightarrow>
          if dv_type (rec_value r) \<noteq> LIST then (sr_err None WrongType, e)
          else if list_value (rec_value r) = [] then (sr_ok None [], e)
          else let elem = last (list_value (rec_value r));
                   l = butlast (list_value (rec_value r))
            in if l = [] then del_logged key muts (Some elem) e
               else put_logged key (r\<lparr>rec_value := (rec_value r)\<lparr>list_value := l\<rparr>\<rparr>) muts
                 None (Some elem) e)"

text \<open>
  The read-only container operations share their first lines: \<open>read_container\<close> is that prefix,
  with the type the operation wants, the result for a missing key, and the result for a live record.
\<close>

definition read_container ::
    "DataType \<Rightarrow> 'a \<Rightarrow> 'a \<Rightarrow> (DataValue \<Rightarrow> 'a) \<Rightarrow> string \<Rightarrow> Engine \<Rightarrow> 'a StorageResult \<times> Engine" where
  "read_container want d none f key e =
     (let (r, muts, e) = getLiveRecordOrExpire key e in
      case r of
        None \<Rightarrow> (sr_ok none muts, e)
      | Some r \<Rightarrow>
          if dv_type (rec_value r) \<noteq> want then (sr_err d WrongType, e)
          else (sr_ok (f (rec_value r)) [], e))"

definition engine_llen :: "string \<Rightarrow> Engine \<Rightarrow> int StorageResult \<times> Engine" where
  "engine_llen key e = read_container LIST 0 0 (\<lambda>v. to_i64 (int (length (list_value v)))) key e"

definition lindex_of :: "int \<Rightarrow> string list \<Rightarrow> string option" where
  "lindex_of index l =
     (let n = to_i64 (int (length l)) in
      if n = 0 then None
      else let idx = (if index < 0 then n + index else index) in
        if idx < 0 \<or> idx \<ge> n then None else Some (l ! nat idx))"

definition engine_lindex :: "string \<Rightarrow> int \<Rightarrow> Engine \<Rightarrow> string option StorageResult \<times> Engine" where
  "engine_lindex key index e =
     read_container LIST None None (\<lambda>v. lindex_of index (list_value v)) key e"

definition engine_sadd :: "string \<Rightarrow> string list \<Rightarrow> Engine \<Rightarrow> int StorageResult \<times> Engine" where
  "engine_sadd key members e =
     (if members = [] then (sr_err 0 InvalidArg, e)
      else let (r, e) = getOrInitContainer key SET e in
        if sr_status r \<noteq> Ok then (sr_err 0 (sr_status r), e)
        else let (s, added) = fold (\<lambda>m (s, added).
                   (std_set_insert m s, if m \<in> set s then added else added + 1)) members
                   (set_value (rec_value (sr_value r)), 0);
                 nr = (sr_value r)\<lparr>rec_value := (rec_value (sr_value r))\<lparr>set_value := s\<rparr>\<rparr>
          in put_logged key nr (sr_mutations r) 0 added e)"

definition engine_srem :: "string \<Rightarrow> string list \<Rightarrow> Engine \<Rightarrow> int StorageResult \<times> Engine" where
  "engine_srem key members e =
     (if members = [] then (sr_err 0 InvalidArg, e)
      else let (r, muts, e) = getLiveRecordOrExpire key e in
        case r of
          None \<Rightarrow> (sr_ok 0 muts, e)
        | Some r \<Rightarrow>
            if dv_type (rec_value r) \<noteq> SET then (sr_err 0 WrongType, e)
            else let (s, removed) = fold (\<lambda>m (s, removed).
                       (std_set_erase m s, if m \<in> set s then removed + 1 else removed)) members
                       (set_value (rec_value r), 0)
              in if s = [] then del_logged key muts removed e
                 else put_logged key (r\<lparr>rec_value := (rec_value r)\<lparr>set_value := s\<rparr>\<rparr>) muts 0 removed e)"

definition engine_scard :: "string \<Rightarrow> Engine \<Rightarrow> int StorageResult \<times> Engine" where
  "engine_scard key e = read_container SET 0 0 (\<lambda>v. to_i64 (int (length (set_value v)))) key e"

definition engine_sismember :: "string \<Rightarrow> string \<Rightarrow> Engine \<Rightarrow> int StorageResult \<times> Engine" where
  "engine_sismember key member e =
     read_container SET 0 0 (\<lambda>v. if member \<in> set (set_value v) then 1 else 0) key e"

definition engine_smembers :: "string \<Rightarrow> Engine \<Rightarrow> string list StorageResult \<times> Engine" where
  "engine_smembers key e = read_container SET [] [] set_value key e"

definition engine_hset :: "string \<Rightarrow> string \<Rightarrow> string \<Rightarrow> Engine \<Rightarrow> int StorageResult \<times> Engine" where
  "engine_hset key field v e =
     (let (r, e) = getOrInitContainer key HASH e in
      if sr_status r \<noteq> Ok then (sr_err 0 (sr_status r), e)
      else let h = hash_value (rec_value (sr_value r));
               is_new = (map_of h field = None);
               nr = (sr_value r)\<lparr>rec_value :=
                      (rec_value (sr_value r))\<lparr>hash_value := std_map_assign field v h\<rparr>\<rparr>
        in put_logged key nr (sr_mutations r) 0 (if is_new then 1 else 0) e)"

definition engine_hget :: "string \<Rightarrow> string \<Rightarrow> Engine \<Rightarrow> string option StorageResult \<times> Engine" where
  "engine_hget key field e = read_container HASH None None (\<lambda>v. map_of (hash_value v) field) key e"

definition engine_hdel :: "string \<Rightarrow> string list \<Rightarrow> Engine \<Rightarrow> int StorageResult \<times> Engine" where
  "engine_hdel key flds e =
     (if flds = [] then (sr_err 0 InvalidArg, e)
      else let (r, muts, e) = getLiveRecordOrExpire key e in
        case r of
          None \<Rightarrow> (sr_ok 0 muts, e)
        | Some r \<Rightarrow>
            if dv_type (rec_value r) \<noteq> HASH then (sr_err 0 WrongType, e)
            else let (h, deleted) = fold (\<lambda>f (h, deleted).
                       (std_map_erase f h, if map_of h f = None then deleted else deleted + 1)) flds
                       (hash_value (rec_value r), 0)
              in if h = [] then del_logged key muts deleted e
                 else put_logged key (r\<lparr>rec_value := (rec_value r)\<lparr>hash_value := h\<rparr>\<rparr>) muts 0 deleted e)"

definition engine_hlen :: "string \<Rightarrow> Engine \<Rightarrow> int StorageResult \<times> Engine" where
  "engine_hlen key e = read_container HASH 0 0 (\<lambda>v. to_i64 (int (length (hash_value v)))) key e"

definition engine_hexists :: "string \<Rightarrow> string \<Rightarrow> Engine \<Rightarrow> int StorageResult \<times> Engine" where
  "engine_hexists key field e =
     read_container HASH 0 0 (\<lambda>v. if map_of (hash_value v) field = None then 0 else 1) key e"

definition engine_hgetall :: "string \<Rightarrow> Engine \<Rightarrow> (string \<times> string) list StorageResult \<times> Engine" where
  "engine_hgetall key e = read_container HASH [] [] hash_value key e"

section \<open>Loading, replaying and dumping\<close>

fun put_all :: "(string \<times> Record) list \<Rightarrow> Backend \<Rightarrow> Backend" where
  "put_all [] b = b"
| "put_all ((k, r) # kvs) b =
     (let (stored, b) = putRecord k r b in if \<not> stored then clearAll b else put_all kvs b)"

definition loadSnapshot :: "(string \<times> Record) list \<Rightarrow> Engine \<Rightarrow> Engine" where
  "loadSnapshot records e =
     (let b = clearAll (setBypassStorageLimit True (eng_backend e))
      in e\<lparr>eng_backend := setBypassStorageLimit False (put_all records b)\<rparr>)"

definition applyMutation :: "Mutation \<Rightarrow> Engine \<Rightarrow> bool \<times> Engine" where
  "applyMutation m e =
     (let b = setBypassStorageLimit True (eng_backend e);
          (res, b) = (case mut_type m of
              PutRecord \<Rightarrow> (case mut_record m of None \<Rightarrow> (False, b) | Some r \<Rightarrow> putRecord (mut_key m) r b)
            | DelKey \<Rightarrow> (True, snd (delKey (mut_key m) b))
            | ClearAll \<Rightarrow> (True, clearAll b)
            | MutationRaw _ \<Rightarrow> (False, b))
      in (res, e\<lparr>eng_backend := setBypassStorageLimit False b\<rparr>))"

fun dump_keys :: "string list \<Rightarrow> Engine \<Rightarrow> (string \<times> Record) list \<times> Engine" where
  "dump_keys [] e = ([], e)"
| "dump_keys (k # ks) e =
     (let (r, _, e) = getLiveRecordOrExpire k e; (out, e) = dump_keys ks e
      in (case r of None \<Rightarrow> (out, e) | Some r \<Rightarrow> ((k, r) # out, e)))"

definition dumpAllLiveRecords :: "Engine \<Rightarrow> (string \<times> Record) list \<times> Engine" where
  "dumpAllLiveRecords e = dump_keys (be_keys (eng_backend e)) e"

section \<open>The storage interface as one function\<close>

text \<open>
  \<open>api_call\<close> has one constructor for each method of \<^verbatim>\<open>IStorageAPI\<close>; \<open>api_exec\<close> runs the engine's
  implementation. Properties of all calls are stated with it.
\<close>

datatype api_call =
    ApiSet string string | ApiGet string | ApiDel string | ApiExists string
  | ApiExpire string int | ApiPersist string | ApiTtl string | ApiPttl string
  | ApiDbsize | ApiKeys
  | ApiLpush string "string list" | ApiRpush string "string list" | ApiLpop string | ApiRpop string
  | ApiLlen string | ApiLindex string int
  | ApiSadd string "string list" | ApiSrem string "string list" | ApiScard string
  | ApiSismember string string | ApiSmembers string
  | ApiHset string string string | ApiHget string string | ApiHdel string "string list"
  | ApiHlen string | ApiHexists string string | ApiHgetall string

datatype api_value =
    VBool bool | VInt int | VOpt "string option" | VStrs "string list"
  | VPairs "(string \<times> string) list"

definition sr_map :: "('a \<Rightarrow> 'b) \<Rightarrow> 'a StorageResult \<times> Engine \<Rightarrow> 'b StorageResult \<times> Engine" where
  "sr_map f x = (case x of (r, e) \<Rightarrow>
     (\<lparr>sr_status = sr_status r, sr_value = f (sr_value r), sr_mutations = sr_mutations r\<rparr>, e))"

fun api_exec :: "api_call \<Rightarrow> Engine \<Rightarrow> api_value StorageResult \<times> Engine" where
  "api_exec (ApiSet k v) e = sr_map VBool (engine_set k v e)"
| "api_exec (ApiGet k) e = sr_map VOpt (engine_get k e)"
| "api_exec (ApiDel k) e = sr_map VInt (engine_del k e)"
| "api_exec (ApiExists k) e = sr_map VInt (engine_exists k e)"
| "api_exec (ApiExpire k t) e = sr_map VInt (engine_expire k t e)"
| "api_exec (ApiPersist k) e = sr_map VInt (engine_persist k e)"
| "api_exec (ApiTtl k) e = sr_map VInt (engine_ttl k e)"
| "api_exec (ApiPttl k) e = sr_map VInt (engine_pttl k e)"
| "api_exec ApiDbsize e = sr_map VInt (engine_dbsize e)"
| "api_exec ApiKeys e = sr_map VStrs (engine_keys e)"
| "api_exec (ApiLpush k vs) e = sr_map VInt (engine_lpush k vs e)"
| "api_exec (ApiRpush k vs) e = sr_map VInt (engine_rpush k vs e)"
| "api_exec (ApiLpop k) e = sr_map VOpt (engine_lpop k e)"
| "api_exec (ApiRpop k) e = sr_map VOpt (engine_rpop k e)"
| "api_exec (ApiLlen k) e = sr_map VInt (engine_llen k e)"
| "api_exec (ApiLindex k i) e = sr_map VOpt (engine_lindex k i e)"
| "api_exec (ApiSadd k ms) e = sr_map VInt (engine_sadd k ms e)"
| "api_exec (ApiSrem k ms) e = sr_map VInt (engine_srem k ms e)"
| "api_exec (ApiScard k) e = sr_map VInt (engine_scard k e)"
| "api_exec (ApiSismember k m) e = sr_map VInt (engine_sismember k m e)"
| "api_exec (ApiSmembers k) e = sr_map VStrs (engine_smembers k e)"
| "api_exec (ApiHset k f v) e = sr_map VInt (engine_hset k f v e)"
| "api_exec (ApiHget k f) e = sr_map VOpt (engine_hget k f e)"
| "api_exec (ApiHdel k fs) e = sr_map VInt (engine_hdel k fs e)"
| "api_exec (ApiHlen k) e = sr_map VInt (engine_hlen k e)"
| "api_exec (ApiHexists k f) e = sr_map VInt (engine_hexists k f e)"
| "api_exec (ApiHgetall k) e = sr_map VPairs (engine_hgetall k e)"

fun api_run :: "api_call list \<Rightarrow> Engine \<Rightarrow> api_value StorageResult list \<times> Engine" where
  "api_run [] e = ([], e)"
| "api_run (c # cs) e =
     (let (r, e) = api_exec c e; (rs, e) = api_run cs e in (r # rs, e))"

end
