(* ===== verification/Engine_Inv.thy ===== *)
theory Engine_Inv
  imports Engine
begin

text \<open>
  What every storage call keeps and what its mutations mean. \<open>pend\<close> relates the state before a
  call to an intermediate state and the mutations collected so far; the engine's building blocks
  extend it step by step, and \<open>sound_step\<close> is its form for the result of a whole call: the
  invariant holds again, no other key is touched, and replaying the returned mutations on the old
  contents gives the new contents, unless the call ran out of quota.
\<close>

section \<open>Invariant and step judgement\<close>

abbreviation eng_view :: "Engine \<Rightarrow> keyspace" where
  "eng_view e \<equiv> be_view (eng_backend e)"

definition eng_inv :: "Engine \<Rightarrow> bool" where
  "eng_inv e \<longleftrightarrow> be_inv (eng_backend e) \<and> (\<forall>k r. eng_view e k = Some r \<longrightarrow> rec_wf r) \<and>
     (\<forall>n. in_i64 (eng_clock e n))"

definition same_config :: "Engine \<Rightarrow> Engine \<Rightarrow> bool" where
  "same_config e e' \<longleftrightarrow>
     max_storage_bytes (eng_backend e') = max_storage_bytes (eng_backend e) \<and>
     bypass_limit (eng_backend e') = bypass_limit (eng_backend e) \<and>
     sizeof_Record (eng_backend e') = sizeof_Record (eng_backend e) \<and>
     eng_clock e' = eng_clock e"

definition keeps :: "string \<Rightarrow> Engine \<Rightarrow> Engine \<Rightarrow> bool" where
  "keeps k e0 e \<longleftrightarrow> eng_inv e \<and> same_config e0 e \<and> (\<forall>k'. k' \<noteq> k \<longrightarrow> eng_view e k' = eng_view e0 k')"

definition pend :: "string \<Rightarrow> Engine \<Rightarrow> Mutation list \<Rightarrow> Engine \<Rightarrow> bool" where
  "pend k e0 ms e \<longleftrightarrow> keeps k e0 e \<and> (\<forall>m \<in> set ms. mut_wf m \<and> mut_key m = k) \<and>
     replay ms (eng_view e0) = eng_view e"

definition sound_step :: "string \<Rightarrow> Engine \<Rightarrow> 'a StorageResult \<times> Engine \<Rightarrow> bool" where
  "sound_step k e0 x \<longleftrightarrow>
     (if sr_status (fst x) = QuotaExceeded then keeps k e0 (snd x) \<and> sr_mutations (fst x) = []
      else pend k e0 (sr_mutations (fst x)) (snd x))"

definition unlimited :: "Engine \<Rightarrow> bool" where
  "unlimited e \<longleftrightarrow> bypass_limit (eng_backend e) \<or> max_storage_bytes (eng_backend e) = 0"

section \<open>Building blocks\<close>

lemma nowEpochUs_simps [simp]:
  "eng_backend (snd (nowEpochUs e)) = eng_backend e"
  "eng_clock (snd (nowEpochUs e)) = eng_clock e"
  "fst (nowEpochUs e) = clock_now e"
  by (simp_all add: nowEpochUs_def)

lemma eng_put_simps [simp]:
  "eng_backend (snd (eng_put k r e)) = snd (putRecord k r (eng_backend e))"
  "eng_clock (snd (eng_put k r e)) = eng_clock e"
  "clock_now (snd (eng_put k r e)) = clock_now e"
  "fst (eng_put k r e) = fst (putRecord k r (eng_backend e))"
  by (simp_all add: eng_put_def clock_now_def)

lemma eng_del_simps [simp]:
  "eng_backend (snd (eng_del k e)) = snd (delKey k (eng_backend e))"
  "eng_clock (snd (eng_del k e)) = eng_clock e"
  "clock_now (snd (eng_del k e)) = clock_now e"
  "fst (eng_del k e) = fst (delKey k (eng_backend e))"
  by (simp_all add: eng_del_def clock_now_def)

lemma eng_inv_now: "eng_inv e \<Longrightarrow> eng_inv (snd (nowEpochUs e))"
  by (simp add: eng_inv_def)

lemma in_i64_now: "eng_inv e \<Longrightarrow> in_i64 (clock_now e)"
  by (simp add: eng_inv_def clock_now_def)

lemma eng_inv_put: "eng_inv e \<Longrightarrow> rec_wf r \<Longrightarrow> eng_inv (snd (eng_put k r e))"
  by (auto simp: eng_inv_def mem.get_put split: if_splits)

lemma eng_inv_del: "eng_inv e \<Longrightarrow> eng_inv (snd (eng_del k e))"
  by (auto simp: eng_inv_def mem.get_del split: if_splits)

lemma mut_wf_put: "rec_wf r \<Longrightarrow> in_i64 t \<Longrightarrow> mut_wf (mut_put k r t)"
  by (simp add: mut_wf_def mut_put_def mut_ok_def)

lemma mut_wf_del: "in_i64 t \<Longrightarrow> mut_wf (mut_del k t)"
  by (simp add: mut_wf_def mut_del_def mut_ok_def)

lemma keeps_refl [intro]: "eng_inv e \<Longrightarrow> keeps k e e"
  by (simp add: keeps_def same_config_def)

lemma keeps_now: "keeps k e0 e \<Longrightarrow> keeps k e0 (snd (nowEpochUs e))"
  by (simp add: keeps_def same_config_def eng_inv_now)

lemma keeps_put: "keeps k e0 e \<Longrightarrow> rec_wf r \<Longrightarrow> keeps k e0 (snd (eng_put k r e))"
  by (simp add: keeps_def same_config_def eng_inv_put mem.get_put)

lemma keeps_del: "keeps k e0 e \<Longrightarrow> keeps k e0 (snd (eng_del k e))"
  by (simp add: keeps_def same_config_def eng_inv_del mem.get_del)

lemma pend_refl: "eng_inv e \<Longrightarrow> pend k e [] e"
  by (auto simp: pend_def)

lemma pend_keeps: "pend k e0 ms e \<Longrightarrow> keeps k e0 e"
  by (simp add: pend_def)

lemma pend_inv: "pend k e0 ms e \<Longrightarrow> eng_inv e"
  by (simp add: pend_def keeps_def)

lemma pend_now: "pend k e0 ms e \<Longrightarrow> pend k e0 ms (snd (nowEpochUs e))"
  by (simp add: pend_def keeps_now)

lemma pend_put:
  "pend k e0 ms e \<Longrightarrow> rec_wf r \<Longrightarrow> in_i64 t \<Longrightarrow> fst (putRecord k r (eng_backend e)) \<Longrightarrow>
     pend k e0 (ms @ [mut_put k r t]) (snd (eng_put k r e))"
  by (auto simp: pend_def keeps_put mem.view_put mut_wf_put)

lemma pend_del:
  "pend k e0 ms e \<Longrightarrow> in_i64 t \<Longrightarrow> pend k e0 (ms @ [mut_del k t]) (snd (eng_del k e))"
  by (auto simp: pend_def keeps_del mem.view_del mut_wf_del)

lemma sound_ok: "pend k e0 ms e \<Longrightarrow> sound_step k e0 (sr_ok v ms, e)"
  by (simp add: sound_step_def)

lemma sound_err:
  "pend k e0 [] e \<Longrightarrow> sound_step k e0 (sr_err d s, e)"
  by (simp add: sound_step_def pend_def)

lemma sound_quota: "keeps k e0 e \<Longrightarrow> sound_step k e0 (sr_err d QuotaExceeded, e)"
  by (simp add: sound_step_def)

lemma put_logged_sound:
  assumes "pend k e0 ms e" "rec_wf r"
  shows "sound_step k e0 (put_logged k r ms d v e)"
proof (cases "fst (putRecord k r (eng_backend e))")
  case True
  let ?e = "snd (eng_put k r e)"
  have t: "in_i64 (clock_now ?e)"
    using in_i64_now [of e] pend_inv [OF assms(1)] by simp
  have "pend k e0 (ms @ [mut_put k r (clock_now ?e)]) (snd (nowEpochUs ?e))"
    by (rule pend_now) (rule pend_put [OF assms t True])
  with True show ?thesis
    by (simp add: put_logged_def Let_def split_beta sound_ok)
next
  case False
  then show ?thesis
    using keeps_put [OF pend_keeps [OF assms(1)] assms(2)]
    by (simp add: put_logged_def Let_def split_beta sound_quota)
qed

lemma put_logged_at_sound:
  assumes "pend k e0 [] e" "rec_wf r" "in_i64 t"
  shows "sound_step k e0 (put_logged_at k r t d v e)"
proof (cases "fst (putRecord k r (eng_backend e))")
  case True
  with pend_put [OF assms True] show ?thesis
    by (simp add: put_logged_at_def Let_def split_beta sound_ok)
next
  case False
  then show ?thesis
    using keeps_put [OF pend_keeps [OF assms(1)] assms(2)]
    by (simp add: put_logged_at_def Let_def split_beta sound_quota)
qed

lemma del_logged_sound: "pend k e0 ms e \<Longrightarrow> sound_step k e0 (del_logged k ms v e)"
  unfolding del_logged_def Let_def split_beta
  by (intro sound_ok pend_now, rule pend_del) (auto dest!: pend_inv simp: in_i64_now)

lemma del_logged_at_sound: "pend k e0 [] e \<Longrightarrow> in_i64 t \<Longrightarrow> sound_step k e0 (del_logged_at k t v e)"
  unfolding del_logged_at_def Let_def split_beta
  using pend_del [of k e0 "[]" e t] by (simp add: sound_ok)

lemma eng_get_wf: "eng_inv e \<Longrightarrow> eng_get k e = Some r \<Longrightarrow> rec_wf r"
  by (auto simp: eng_inv_def eng_get_def)

text \<open>The lazily expiring lookup: a record is returned only with no pending mutation.\<close>

lemma getLive_pend:
  assumes "eng_inv e" "getLiveRecordOrExpire k e = (r, ms, e')"
  shows "pend k e ms e'" and "r = Some x \<Longrightarrow> rec_wf x \<and> ms = []"
proof -
  have now: "pend k e [] (snd (nowEpochUs e))"
    using assms(1) by (simp add: pend_refl pend_now)
  have "pend k e [mut_del k (clock_now e)] (snd (eng_del k (snd (nowEpochUs e))))"
    using pend_del [OF now in_i64_now [OF assms(1)]] by simp
  with now assms show "pend k e ms e'"
    by (auto simp: getLiveRecordOrExpire_def Let_def split_beta pend_refl
        split: option.splits if_splits)
  show "r = Some x \<Longrightarrow> rec_wf x \<and> ms = []"
    using assms by (auto simp: getLiveRecordOrExpire_def Let_def split_beta eng_get_wf
        split: option.splits if_splits)
qed

lemma with_live:
  assumes "eng_inv e"
    and "\<And>ms e'. pend k e ms e' \<Longrightarrow> sound_step k e (f None ms e')"
    and "\<And>r e'. pend k e [] e' \<Longrightarrow> rec_wf r \<Longrightarrow> sound_step k e (f (Some r) [] e')"
  shows "sound_step k e (case getLiveRecordOrExpire k e of (r, ms, e') \<Rightarrow> f r ms e')"
proof -
  obtain r ms e' where g: "getLiveRecordOrExpire k e = (r, ms, e')" by (metis prod_cases3)
  then show ?thesis
    using assms(2,3) getLive_pend [OF assms(1) g] by (cases r) auto
qed

lemma with_stored:
  assumes "eng_inv e" and "sound_step k e (f None)"
    and "\<And>r. rec_wf r \<Longrightarrow> sound_step k e (f (Some r))"
  shows "sound_step k e (f (eng_get k e))"
  using assms by (cases "eng_get k e") (auto dest: eng_get_wf)

lemma new_container_wf:
  "rec_wf \<lparr>rec_value = DataValue0\<lparr>dv_type := ty, string_value := []\<rparr>, expire_at_us = -1, version = n\<rparr>"
  by (simp add: rec_wf_def dv_wf_def DataValue0_def in_i64_def i64_min_def i64_max_def)

lemma getOrInit_sound: "eng_inv e \<Longrightarrow> sound_step k e (getOrInitContainer k ty e)"
  unfolding getOrInitContainer_def Let_def
  by (rule with_live) (auto intro: put_logged_sound new_container_wf sound_ok sound_err)

lemma getOrInit_value:
  assumes "eng_inv e" "getOrInitContainer k ty e = (r, e')"
  shows "sr_status r = Ok \<Longrightarrow> rec_wf (sr_value r) \<and> dv_type (rec_value (sr_value r)) = ty"
    and "sr_status r \<noteq> Ok \<Longrightarrow> sr_mutations r = []"
proof -
  obtain x ms e1 where g: "getLiveRecordOrExpire k e = (x, ms, e1)" by (metis prod_cases3)
  show "sr_status r = Ok \<Longrightarrow> rec_wf (sr_value r) \<and> dv_type (rec_value (sr_value r)) = ty"
    using assms g getLive_pend [OF assms(1) g]
    by (cases x) (auto simp: getOrInitContainer_def put_logged_def Let_def split_beta
        new_container_wf split: if_splits)
  show "sr_status r \<noteq> Ok \<Longrightarrow> sr_mutations r = []"
    using assms g by (cases x) (auto simp: getOrInitContainer_def put_logged_def Let_def split_beta
        split: if_splits)
qed

lemma with_container:
  assumes "eng_inv e"
    and "\<And>r e'. pend k e (sr_mutations r) e' \<Longrightarrow> rec_wf (sr_value r) \<Longrightarrow>
      dv_type (rec_value (sr_value r)) = ty \<Longrightarrow> sound_step k e (f r e')"
  shows "sound_step k e (case getOrInitContainer k ty e of (r, e') \<Rightarrow>
      if sr_status r \<noteq> Ok then (sr_err d (sr_status r), e') else f r e')"
proof -
  obtain r e' where g: "getOrInitContainer k ty e = (r, e')" by (metis prod.exhaust)
  with getOrInit_sound [OF assms(1), of k ty] have "sound_step k e (r, e')" by simp
  then show ?thesis
    using assms(2) [of r e'] getOrInit_value [OF assms(1) g]
    by (auto simp: g sound_step_def split: if_splits)
qed

section \<open>Every call\<close>

text \<open>Records stay well formed when the field of their own type changes.\<close>

lemma rec_wf_expire: "rec_wf r \<Longrightarrow> in_i64 t \<Longrightarrow> rec_wf (r\<lparr>expire_at_us := t\<rparr>)"
  by (simp add: rec_wf_def)

lemma rec_wf_list:
  "rec_wf r \<Longrightarrow> dv_type (rec_value r) = LIST \<Longrightarrow>
     rec_wf (r\<lparr>rec_value := (rec_value r)\<lparr>list_value := l\<rparr>\<rparr>)"
  by (simp add: rec_wf_def dv_wf_def)

lemma rec_wf_set:
  "rec_wf r \<Longrightarrow> dv_type (rec_value r) = SET \<Longrightarrow> ordered s \<Longrightarrow>
     rec_wf (r\<lparr>rec_value := (rec_value r)\<lparr>set_value := s\<rparr>\<rparr>)"
  by (simp add: rec_wf_def dv_wf_def)

lemma rec_wf_hash:
  "rec_wf r \<Longrightarrow> dv_type (rec_value r) = HASH \<Longrightarrow> key_ordered h \<Longrightarrow>
     rec_wf (r\<lparr>rec_value := (rec_value r)\<lparr>hash_value := h\<rparr>\<rparr>)"
  by (simp add: rec_wf_def dv_wf_def)

lemma rec_wf_ordered:
  "rec_wf r \<Longrightarrow> ordered (set_value (rec_value r)) \<and> key_ordered (hash_value (rec_value r))"
  by (simp add: rec_wf_def dv_wf_def)

text \<open>The counting loops of \<^verbatim>\<open>sadd\<close>, \<^verbatim>\<open>srem\<close> and \<^verbatim>\<open>hdel\<close>.\<close>

lemma fst_sadd_loop:
  "fst (fold (\<lambda>m (s, n). (std_set_insert m s, if m \<in> set s then n else n + (1::int))) ms (s, n))
     = fold std_set_insert ms s"
  by (induction ms arbitrary: s n) auto

lemma fst_srem_loop:
  "fst (fold (\<lambda>m (s, n). (std_set_erase m s, if m \<in> set s then n + (1::int) else n)) ms (s, n))
     = fold std_set_erase ms s"
  by (induction ms arbitrary: s n) auto

lemma fst_hdel_loop:
  "fst (fold (\<lambda>f (h, n). (std_map_erase f h, if map_of h f = None then n else n + (1::int))) fs (h, n))
     = fold std_map_erase fs h"
  by (induction fs arbitrary: h n) auto

lemmas sound_intros = put_logged_sound put_logged_at_sound del_logged_sound del_logged_at_sound
  sound_ok sound_err rec_wf_expire rec_wf_list rec_wf_set rec_wf_hash

lemma pend_after_now: "eng_inv e \<Longrightarrow> pend k e [] (snd (nowEpochUs e))"
  by (simp add: pend_refl pend_now)

lemma rec_wf_str: "rec_wf (Record0\<lparr>rec_value := DataValue_str v, expire_at_us := -1, version := n\<rparr>)"
  by (simp add: rec_wf_def in_i64_def i64_min_def i64_max_def)

lemma engine_set_sound: "eng_inv e \<Longrightarrow> sound_step k e (engine_set k v e)"
  unfolding engine_set_def by (intro put_logged_sound pend_refl rec_wf_str)

lemma engine_get_sound: "eng_inv e \<Longrightarrow> sound_step k e (engine_get k e)"
  unfolding engine_get_def
  by (rule with_stored)
    (auto simp: Let_def split_beta pend_refl pend_after_now in_i64_now intro: sound_intros)

lemma engine_del_sound:
  assumes "eng_inv e"
  shows "sound_step k e (engine_del k e)"
proof (cases "fst (delKey k (eng_backend e))")
  case True
  then show ?thesis
    using pend_now [OF pend_del [OF pend_refl [OF assms] in_i64_now [OF assms]], of k]
    by (simp add: engine_del_def Let_def split_beta sound_ok)
next
  case False
  then have "eng_view e k = None" by (simp add: mem.del_found)
  then have "eng_view (snd (eng_del k e)) = eng_view e" by (auto simp: mem.get_del)
  then have "pend k e [] (snd (eng_del k e))"
    using keeps_del [OF keeps_refl [OF assms]] by (simp add: pend_def)
  then show ?thesis
    using False by (simp add: engine_del_def Let_def split_beta sound_ok)
qed

lemma engine_exists_sound: "eng_inv e \<Longrightarrow> sound_step k e (engine_exists k e)"
  unfolding engine_exists_def
  by (rule with_stored)
    (auto simp: Let_def split_beta pend_refl pend_after_now in_i64_now intro: sound_intros)

lemma engine_expire_sound: "eng_inv e \<Longrightarrow> sound_step k e (engine_expire k t e)"
  unfolding engine_expire_def
  by (cases "t < 0", simp add: sound_err pend_refl, simp only: if_False, rule with_stored)
    (auto simp: Let_def split_beta pend_refl pend_after_now in_i64_now to_i64_range intro!: sound_intros)

lemma engine_persist_sound: "eng_inv e \<Longrightarrow> sound_step k e (engine_persist k e)"
  unfolding engine_persist_def
  by (rule with_stored)
    (auto simp: Let_def split_beta pend_refl pend_after_now in_i64_now in_i64_def [of "-1"]
      i64_min_def i64_max_def intro!: sound_intros)

lemma engine_ttl_sound: "eng_inv e \<Longrightarrow> sound_step k e (engine_ttl k e)"
  unfolding engine_ttl_def
  by (rule with_stored)
    (auto simp: Let_def split_beta pend_refl pend_after_now in_i64_now intro: sound_intros)

lemma engine_pttl_sound: "eng_inv e \<Longrightarrow> sound_step k e (engine_pttl k e)"
  unfolding engine_pttl_def
  by (rule with_stored)
    (auto simp: Let_def split_beta pend_refl pend_after_now in_i64_now intro: sound_intros)

lemma engine_lpush_sound: "eng_inv e \<Longrightarrow> sound_step k e (engine_lpush k vs e)"
  unfolding engine_lpush_def Let_def
  by (cases "vs = []", simp add: sound_err pend_refl, simp only: if_False, rule with_container)
    (auto intro: sound_intros)

lemma engine_rpush_sound: "eng_inv e \<Longrightarrow> sound_step k e (engine_rpush k vs e)"
  unfolding engine_rpush_def Let_def
  by (cases "vs = []", simp add: sound_err pend_refl, simp only: if_False, rule with_container)
    (auto intro: sound_intros)

lemma engine_lpop_sound: "eng_inv e \<Longrightarrow> sound_step k e (engine_lpop k e)"
  unfolding engine_lpop_def Let_def
  by (rule with_live) (auto intro: sound_intros split: list.split)

lemma engine_rpop_sound: "eng_inv e \<Longrightarrow> sound_step k e (engine_rpop k e)"
  unfolding engine_rpop_def Let_def
  by (rule with_live) (auto intro: sound_intros)

lemma read_container_sound: "eng_inv e \<Longrightarrow> sound_step k e (read_container ty d n f k e)"
  unfolding read_container_def Let_def
  by (rule with_live) (auto intro: sound_intros)

lemma engine_sadd_sound: "eng_inv e \<Longrightarrow> sound_step k e (engine_sadd k ms e)"
  unfolding engine_sadd_def Let_def
  by (cases "ms = []", simp add: sound_err pend_refl, simp only: if_False, rule with_container)
    (auto simp: split_beta fst_sadd_loop rec_wf_ordered sset.ok_fold_ins intro!: sound_intros)

lemma engine_srem_sound: "eng_inv e \<Longrightarrow> sound_step k e (engine_srem k ms e)"
  unfolding engine_srem_def Let_def
  by (cases "ms = []", simp add: sound_err pend_refl, simp only: if_False, rule with_live)
    (auto simp: split_beta fst_srem_loop rec_wf_ordered sset.ok_fold_del intro!: sound_intros)

lemma engine_hset_sound: "eng_inv e \<Longrightarrow> sound_step k e (engine_hset k f v e)"
  unfolding engine_hset_def Let_def
  by (rule with_container)
    (auto simp: rec_wf_ordered smap.ok_assign intro!: sound_intros)

lemma engine_hdel_sound: "eng_inv e \<Longrightarrow> sound_step k e (engine_hdel k fs e)"
  unfolding engine_hdel_def Let_def
  by (cases "fs = []", simp add: sound_err pend_refl, simp only: if_False, rule with_live)
    (auto simp: split_beta fst_hdel_loop rec_wf_ordered smap.ok_fold_del intro!: sound_intros)

lemma sound_step_sr_map: "sound_step k e x \<Longrightarrow> sound_step k e (sr_map f x)"
  by (simp add: sound_step_def sr_map_def split_beta)

text \<open>The key of a call; \<^verbatim>\<open>dbsize\<close> and \<^verbatim>\<open>keys\<close> have none and change nothing.\<close>

fun call_key :: "api_call \<Rightarrow> string option" where
  "call_key (ApiSet k _) = Some k" | "call_key (ApiGet k) = Some k" | "call_key (ApiDel k) = Some k"
| "call_key (ApiExists k) = Some k" | "call_key (ApiExpire k _) = Some k"
| "call_key (ApiPersist k) = Some k" | "call_key (ApiTtl k) = Some k" | "call_key (ApiPttl k) = Some k"
| "call_key ApiDbsize = None" | "call_key ApiKeys = None"
| "call_key (ApiLpush k _) = Some k" | "call_key (ApiRpush k _) = Some k"
| "call_key (ApiLpop k) = Some k" | "call_key (ApiRpop k) = Some k" | "call_key (ApiLlen k) = Some k"
| "call_key (ApiLindex k _) = Some k" | "call_key (ApiSadd k _) = Some k"
| "call_key (ApiSrem k _) = Some k" | "call_key (ApiScard k) = Some k"
| "call_key (ApiSismember k _) = Some k" | "call_key (ApiSmembers k) = Some k"
| "call_key (ApiHset k _ _) = Some k" | "call_key (ApiHget k _) = Some k"
| "call_key (ApiHdel k _) = Some k" | "call_key (ApiHlen k) = Some k"
| "call_key (ApiHexists k _) = Some k" | "call_key (ApiHgetall k) = Some k"

lemmas call_sound = engine_set_sound engine_get_sound engine_del_sound engine_exists_sound
  engine_expire_sound engine_persist_sound engine_ttl_sound engine_pttl_sound engine_lpush_sound
  engine_rpush_sound engine_lpop_sound engine_rpop_sound engine_sadd_sound engine_srem_sound
  engine_hset_sound engine_hdel_sound read_container_sound

lemmas read_only_defs = engine_llen_def engine_lindex_def engine_scard_def engine_sismember_def
  engine_smembers_def engine_hget_def engine_hlen_def engine_hexists_def engine_hgetall_def

lemma api_exec_sound: "eng_inv e \<Longrightarrow> call_key c = Some k \<Longrightarrow> sound_step k e (api_exec c e)"
  by (cases c) (auto simp: call_sound sound_step_sr_map read_only_defs)

lemma api_exec_no_key:
  "call_key c = None \<Longrightarrow> snd (api_exec c e) = e \<and> sr_mutations (fst (api_exec c e)) = [] \<and>
     sr_status (fst (api_exec c e)) = Ok"
  by (cases c) (auto simp: engine_dbsize_def engine_keys_def sr_map_def)

end
