(* ===== verification/Engine_Load.thy ===== *)
theory Engine_Load
  imports Engine_Inv
begin

text \<open>
  Loading a snapshot, replaying mutations and dumping the live records: the operations of the
  engine that persistence uses. Loading and replaying run with the storage quota switched off.
\<close>

lemma put_all_fold:
  "bypass_limit b \<or> max_storage_bytes b = 0 \<Longrightarrow>
     put_all kvs b = fold (\<lambda>(k, r) b. snd (putRecord k r b)) kvs b"
  by (induction kvs arbitrary: b) (auto simp: mem.put_accepts split_beta)

lemma bypass_simps [simp]:
  "bypass_limit (setBypassStorageLimit on b) = on"
  "max_storage_bytes (setBypassStorageLimit on b) = max_storage_bytes b"
  "bypass_limit (clearAll b) = bypass_limit b"
  "max_storage_bytes (clearAll b) = max_storage_bytes b"
  by (simp_all add: setBypassStorageLimit_def clearAll_def)

lemma loadSnapshot_backend:
  "eng_backend (loadSnapshot rs e) = setBypassStorageLimit False
     (fold (\<lambda>(k, r) b. snd (putRecord k r b)) rs (clearAll (setBypassStorageLimit True (eng_backend e))))"
  by (simp add: loadSnapshot_def put_all_fold)

lemma loadSnapshot_clock [simp]: "eng_clock (loadSnapshot rs e) = eng_clock e"
  by (simp add: loadSnapshot_def)

lemma loadSnapshot_view: "eng_view (loadSnapshot rs e) = map_of (rev rs)"
  by (simp add: loadSnapshot_backend mem.get_fold_put mem.get_clr)

lemma loadSnapshot_be_inv: "be_inv (eng_backend (loadSnapshot rs e))"
  by (simp add: loadSnapshot_backend mem.ok_fold_put)

lemma loadSnapshot_inv:
  assumes "eng_inv e" "\<forall>(k, r) \<in> set rs. rec_wf r"
  shows "eng_inv (loadSnapshot rs e)"
  using assms loadSnapshot_be_inv [of rs e]
  by (auto simp: eng_inv_def fun_cong [OF loadSnapshot_view] dest!: map_of_SomeD)

lemma applyMutation_effect:
  "fst (applyMutation m e) = mut_ok m"
  "eng_view (snd (applyMutation m e)) = mut_effect m (eng_view e)"
  by (auto simp: applyMutation_def mut_ok_def mut_effect_def Let_def split_beta fun_eq_iff
      mem.put_accepts mem.get_put mem.get_del mem.get_clr split: MutationType.split option.split)

lemma applyMutation_clock [simp]: "eng_clock (snd (applyMutation m e)) = eng_clock e"
  by (simp add: applyMutation_def Let_def split_beta)

lemma applyMutation_be_inv: "be_inv (eng_backend e) \<Longrightarrow> be_inv (eng_backend (snd (applyMutation m e)))"
  by (auto simp: applyMutation_def Let_def split_beta split: MutationType.split option.split)

lemma mut_effect_wf:
  "mut_wf m \<Longrightarrow> \<forall>k r. ks k = Some r \<longrightarrow> rec_wf r \<Longrightarrow> mut_effect m ks k = Some r \<Longrightarrow> rec_wf r"
  by (auto simp: mut_effect_def mut_wf_def split: MutationType.splits option.splits if_splits)

lemma applyMutation_inv: "eng_inv e \<Longrightarrow> mut_wf m \<Longrightarrow> eng_inv (snd (applyMutation m e))"
  using mut_effect_wf [of m "eng_view e"] applyMutation_be_inv [of e m]
  by (auto simp: eng_inv_def fun_cong [OF applyMutation_effect(2)])

text \<open>The dump returns what the store holds afterwards: expired records are deleted on the way.\<close>

lemma getLive_view:
  assumes "getLiveRecordOrExpire k e = (r, ms, e')"
  shows "eng_view e' = (eng_view e)(k := r)"
    and "r = None \<Longrightarrow> eng_view e k = Some r' \<Longrightarrow> isExpired r' (clock_now e)"
  using assms by (auto simp: getLiveRecordOrExpire_def Let_def split_beta eng_get_def mem.get_del
      fun_eq_iff split: option.splits if_splits)

lemma getLive_clock:
  "getLiveRecordOrExpire k e = (r, ms, e') \<Longrightarrow> eng_clock e' = eng_clock e"
  by (auto simp: getLiveRecordOrExpire_def Let_def split_beta
      split: option.splits if_splits)

lemma dump_keys_view:
  "dump_keys ks e = (out, e') \<Longrightarrow> distinct ks \<Longrightarrow>
     eng_view e' = (\<lambda>k. if k \<in> set ks then map_of out k else eng_view e k) \<and> fst ` set out \<subseteq> set ks"
proof (induction ks arbitrary: e out e')
  case (Cons k ks)
  obtain r ms e1 where g: "getLiveRecordOrExpire k e = (r, ms, e1)" by (metis prod_cases3)
  obtain out1 where d: "dump_keys ks e1 = (out1, e')"
    using Cons.prems(1) g by (cases "dump_keys ks e1") (auto split: option.splits)
  from Cons.IH [OF d] Cons.prems(2)
  have e': "eng_view e' = (\<lambda>k. if k \<in> set ks then map_of out1 k else eng_view e1 k)"
    and sub: "fst ` set out1 \<subseteq> set ks" by simp_all
  have out: "out = (case r of None \<Rightarrow> out1 | Some x \<Rightarrow> (k, x) # out1)"
    using Cons.prems(1) g d by (auto split: option.splits)
  have none: "map_of out1 k = None"
    using sub Cons.prems(2) by (auto simp: map_of_eq_None_iff)
  show ?case
    using getLive_view(1) [OF g] none sub Cons.prems(2)
    by (cases r) (auto simp: e' out fun_eq_iff)
qed simp

lemma dump_keys_distinct:
  "dump_keys ks e = (out, e') \<Longrightarrow> distinct ks \<Longrightarrow> distinct (map fst out)"
proof (induction ks arbitrary: e out e')
  case (Cons k ks)
  obtain r ms e1 where g: "getLiveRecordOrExpire k e = (r, ms, e1)" by (metis prod_cases3)
  obtain out1 where d: "dump_keys ks e1 = (out1, e')"
    using Cons.prems(1) g by (cases "dump_keys ks e1") (auto split: option.splits)
  have "out = (case r of None \<Rightarrow> out1 | Some x \<Rightarrow> (k, x) # out1)"
    using Cons.prems(1) g d by (auto split: option.splits)
  then show ?case
    using Cons.IH [OF d] dump_keys_view [OF d] Cons.prems(2) by (auto split: option.splits)
qed simp

lemma dump_keys_lost:
  "dump_keys ks e = (out, e') \<Longrightarrow> eng_view e k = Some r \<Longrightarrow> eng_view e' k = Some r \<or>
     (\<exists>n. isExpired r (eng_clock e n))"
proof (induction ks arbitrary: e out e')
  case (Cons k' ks)
  obtain x ms e1 where g: "getLiveRecordOrExpire k' e = (x, ms, e1)" by (metis prod_cases3)
  obtain out1 where d: "dump_keys ks e1 = (out1, e')"
    using Cons.prems(1) g by (cases "dump_keys ks e1") (auto split: option.splits)
  show ?case
  proof (cases "eng_view e1 k = Some r")
    case True
    then show ?thesis using Cons.IH [OF d True] getLive_clock [OF g] by simp
  next
    case False
    then have "k' = k" "x = None"
      using getLive_view(1) [OF g] Cons.prems(2) g
      by (auto simp: fun_eq_iff getLiveRecordOrExpire_def eng_get_def Let_def split_beta
          split: if_splits option.splits)
    then show ?thesis
      using getLive_view(2) [OF g] Cons.prems(2) by (auto simp: clock_now_def)
  qed
qed simp

lemma dump_keys_inv: "dump_keys ks e = (out, e') \<Longrightarrow> eng_inv e \<Longrightarrow> eng_inv e'"
proof (induction ks arbitrary: e out e')
  case (Cons k ks)
  obtain r ms e1 where g: "getLiveRecordOrExpire k e = (r, ms, e1)" by (metis prod_cases3)
  obtain out1 where d: "dump_keys ks e1 = (out1, e')"
    using Cons.prems(1) g by (cases "dump_keys ks e1") (auto split: option.splits)
  show ?case
    by (rule Cons.IH [OF d]) (rule pend_inv [OF getLive_pend(1) [OF Cons.prems(2) g]])
qed simp

lemma dump_view:
  assumes "eng_inv e" "dumpAllLiveRecords e = (out, e')"
  shows "map_of out = eng_view e'" "distinct (map fst out)" "eng_inv e'"
proof -
  have d: "dump_keys (be_keys (eng_backend e)) e = (out, e')"
    using assms(2) by (simp add: dumpAllLiveRecords_def)
  have dist: "distinct (be_keys (eng_backend e))"
    using assms(1) by (simp add: eng_inv_def distinct_be_keys)
  from dump_keys_view [OF d dist] show "map_of out = eng_view e'"
    by (auto simp: fun_eq_iff set_be_keys domIff map_of_eq_None_iff)
  show "distinct (map fst out)" by (rule dump_keys_distinct [OF d dist])
  show "eng_inv e'" by (rule dump_keys_inv [OF d assms(1)])
qed

end
