(* ===== verification/Snapshot.thy ===== *)
theory Snapshot
  imports Wal_Reader Engine_Load
begin

text \<open>
  Snapshot files, \<^verbatim>\<open>storage2/persistence/SnapshotWriter.cpp\<close> and \<^verbatim>\<open>SnapshotReader.cpp\<close>. The reader reads
  a stream; its position is the offset here, with the same little-endian readers as the codecs. The
  writer works on two files, the snapshot and its temporary file next to it, and on the outcomes of
  its file operations, which are parameters.
\<close>

section \<open>Format\<close>

definition snapshot_entry :: "string \<times> Record \<Rightarrow> byte list" where
  "snapshot_entry kv =
     (let rb = RecordCodec_encode (snd kv)
      in appendString (fst kv) @ appendCount (length rb) @ rb)"

definition snapshot_bytes :: "(string \<times> Record) list \<Rightarrow> byte list" where
  "snapshot_bytes records =
     appendU8 (byte_of_char CHR ''S'') @ appendU8 (byte_of_char CHR ''2'') @ appendU8 kVersion @
     appendCount (length records) @ concat (map snapshot_entry records)"

definition readBytes :: "u32 \<Rightarrow> byte list \<Rightarrow> nat \<Rightarrow> (byte list \<times> nat) option" where
  "readBytes n data off =
     (if off + unat n > length data then None
      else Some (take (unat n) (drop off data), off + unat n))"

definition readEntry :: "byte list \<Rightarrow> nat \<Rightarrow> ((string \<times> Record) \<times> nat) option" where
  "readEntry data off = do {
     (key, off) \<leftarrow> readString data off;
     (rb_len, off) \<leftarrow> readU32 data off;
     (rb, off) \<leftarrow> readBytes rb_len data off;
     r \<leftarrow> RecordCodec_decode rb;
     Some ((key, r), off) }"

fun readEntries :: "nat \<Rightarrow> byte list \<Rightarrow> nat \<Rightarrow> ((string \<times> Record) list \<times> nat) option" where
  "readEntries 0 data off = Some ([], off)"
| "readEntries (Suc n) data off = do {
     (kv, off) \<leftarrow> readEntry data off;
     (kvs, off) \<leftarrow> readEntries n data off;
     Some (kv # kvs, off) }"

definition readHeader :: "byte list \<Rightarrow> (u32 \<times> nat) option" where
  "readHeader data = do {
     ((m0, m1, ver), off) \<leftarrow> wal_header data 0;
     if m0 \<noteq> byte_of_char CHR ''S'' \<or> m1 \<noteq> byte_of_char CHR ''2'' then None
     else if ver \<noteq> kVersion then None
     else readU32 data off }"

definition readFromFile :: "byte list option \<Rightarrow> (string \<times> Record) list option" where
  "readFromFile file = do {
     data \<leftarrow> file;
     (count, off) \<leftarrow> readHeader data;
     (kvs, off) \<leftarrow> readEntries (unat count) data off;
     Some kvs }"

text \<open>\<^verbatim>\<open>loadFromFile\<close> stores the records in a backend as it reads them.\<close>

fun loadEntries :: "nat \<Rightarrow> byte list \<Rightarrow> nat \<Rightarrow> Backend \<Rightarrow> bool \<times> Backend" where
  "loadEntries 0 data off b = (True, b)"
| "loadEntries (Suc n) data off b = (case readEntry data off of
      None \<Rightarrow> (False, b)
    | Some ((key, r), off) \<Rightarrow>
        let (stored, b) = putRecord key r b in if \<not> stored then (False, b) else loadEntries n data off b)"

definition loadFromFile :: "byte list option \<Rightarrow> Backend \<Rightarrow> bool \<times> Backend" where
  "loadFromFile file b = (case do { data \<leftarrow> file; (count, off) \<leftarrow> readHeader data; Some (data, count, off) } of
      None \<Rightarrow> (False, b)
    | Some (data, count, off) \<Rightarrow> loadEntries (unat count) data off (clearAll b))"

section \<open>Writing\<close>

record SnapEnv =
  dirs_created :: bool
  tmp_opened :: bool
  stream_good :: "nat \<Rightarrow> bool"
  flush_good :: bool
  file_synced :: bool
  rename1_ok :: bool
  removed_final :: bool
  rename2_ok :: bool
  dir_synced :: bool

record SnapFiles =
  final_file :: "byte list option"
  tmp_file :: "byte list option"

text \<open>
  The loop over the records stops at the first one after which the stream is not good; what the
  temporary file holds then does not matter, because it is removed.
\<close>

definition all_written :: "SnapEnv \<Rightarrow> (string \<times> Record) list \<Rightarrow> bool" where
  "all_written env records \<longleftrightarrow> list_all (stream_good env) [0..<length records]"

definition SnapshotWriter_writeToFile ::
    "SnapEnv \<Rightarrow> (string \<times> Record) list \<Rightarrow> SnapFiles \<Rightarrow> bool \<times> SnapFiles" where
  "SnapshotWriter_writeToFile env records fs =
     (if \<not> dirs_created env then (False, fs)
      else if \<not> tmp_opened env then (False, fs)
      else if \<not> all_written env records then (False, fs\<lparr>tmp_file := None\<rparr>)
      else if \<not> flush_good env then (False, fs\<lparr>tmp_file := None\<rparr>)
      else if \<not> file_synced env then (False, fs\<lparr>tmp_file := None\<rparr>)
      else let fs = fs\<lparr>tmp_file := Some (snapshot_bytes records)\<rparr>;
               renamed = fs\<lparr>final_file := tmp_file fs, tmp_file := None\<rparr>
        in if rename1_ok env then (dir_synced env, renamed)
           else let fs = (if removed_final env then fs\<lparr>final_file := None\<rparr> else fs)
             in if \<not> rename2_ok env then (False, fs\<lparr>tmp_file := None\<rparr>)
                else (dir_synced env, fs\<lparr>final_file := tmp_file fs, tmp_file := None\<rparr>))"

definition writeBackendToFile :: "SnapEnv \<Rightarrow> Backend \<Rightarrow> SnapFiles \<Rightarrow> bool \<times> SnapFiles" where
  "writeBackendToFile env b fs =
     (let records = List.map_filter (\<lambda>k. map_option (\<lambda>r. (k, r)) (getRecord k b)) (be_keys b)
      in SnapshotWriter_writeToFile env records fs)"

section \<open>Round trip\<close>

definition entry_fits :: "string \<times> Record \<Rightarrow> bool" where
  "entry_fits kv \<longleftrightarrow> length (fst kv) < 2 ^ 32 \<and> rec_wf (snd kv) \<and> rec_fits (snd kv)"

lemma readBytes_enc:
  "length bs < 2 ^ 32 \<Longrightarrow> readBytes (word_of_nat (length bs)) (pre @ bs @ post) (length pre) =
     Some (bs, length pre + length bs)"
  by (simp add: readBytes_def)

lemma readEntry_enc:
  assumes "entry_fits kv"
  shows "readEntry (pre @ snapshot_entry kv @ post) (length pre) = Some (kv, length pre + length (snapshot_entry kv))"
proof -
  let ?rb = "RecordCodec_encode (snd kv)" and ?data = "pre @ snapshot_entry kv @ post"
  have d: "?data = pre @ appendString (fst kv) @ appendCount (length ?rb) @ ?rb @ post"
    by (simp add: snapshot_entry_def Let_def)
  have "readString ?data (length pre) = Some (fst kv, length pre + length (appendString (fst kv)))"
    unfolding d using assms by (intro wstr.dec_enc) (simp add: entry_fits_def)
  moreover have "readU32 ?data (length pre + length (appendString (fst kv))) =
      Some (word_of_nat (length ?rb), length pre + length (appendString (fst kv)) + length (appendU32 (word_of_nat (length ?rb))))"
    unfolding d by (rule wu32.dec_at [OF TrueI, where pre = "pre @ appendString (fst kv)"]) (simp_all add: appendCount_def)
  moreover have "readBytes (word_of_nat (length ?rb)) ?data (length pre + length (appendString (fst kv)) + 4) =
      Some (?rb, length pre + length (appendString (fst kv)) + 4 + length ?rb)"
    using readBytes_enc [of ?rb "pre @ appendString (fst kv) @ appendCount (length ?rb)" post] assms
    unfolding d by (simp add: entry_fits_def rec_fits_def ac_simps)
  moreover have "RecordCodec_decode ?rb = Some (snd kv)"
    using assms by (simp add: entry_fits_def RecordCodec_decode_encode)
  ultimately show ?thesis
    by (simp add: readEntry_def ac_simps) (simp add: snapshot_entry_def Let_def)
qed

lemma readEntries_enc:
  "\<forall>kv \<in> set kvs. entry_fits kv \<Longrightarrow>
     readEntries (length kvs) (pre @ concat (map snapshot_entry kvs) @ post) (length pre) =
     Some (kvs, length pre + length (concat (map snapshot_entry kvs)))"
proof (induction kvs arbitrary: pre)
  case (Cons kv kvs)
  have "readEntry (pre @ snapshot_entry kv @ concat (map snapshot_entry kvs) @ post) (length pre) =
      Some (kv, length (pre @ snapshot_entry kv))"
    using readEntry_enc [of kv pre] Cons.prems by simp
  then show ?case
    using Cons.IH [of "pre @ snapshot_entry kv"] Cons.prems by simp
qed simp

lemma readHeader_enc:
  assumes "length records < 2 ^ 32"
  shows "readHeader (snapshot_bytes records) = Some (word_of_nat (length records), 7)"
proof -
  let ?h = "[byte_of_char CHR ''S'', byte_of_char CHR ''2'', kVersion]"
  have d: "snapshot_bytes records = ?h @ appendU32 (word_of_nat (length records)) @ concat (map snapshot_entry records)"
    by (simp add: snapshot_bytes_def appendU8_def appendCount_def)
  have "readU32 (snapshot_bytes records) 3 =
      Some (word_of_nat (length records), 3 + length (appendU32 (word_of_nat (length records))))"
    unfolding d by (rule wu32.dec_at [OF TrueI, where pre = ?h]) simp_all
  then show ?thesis
    by (simp add: readHeader_def wal_header_def readU8_def d del: One_nat_def)
qed

lemma readFromFile_enc:
  assumes "\<forall>kv \<in> set records. entry_fits kv" "length records < 2 ^ 32"
  shows "readFromFile (Some (snapshot_bytes records)) = Some records"
proof -
  let ?pre = "[byte_of_char CHR ''S'', byte_of_char CHR ''2'', kVersion] @ appendCount (length records)"
  have "readEntries (length records) (snapshot_bytes records) 7 =
      Some (records, 7 + length (concat (map snapshot_entry records)))"
    using readEntries_enc [OF assms(1), of ?pre "[]"] by (simp add: snapshot_bytes_def appendU8_def)
  then show ?thesis
    using assms(2) by (simp add: readFromFile_def readHeader_enc)
qed

section \<open>Truncated files and failed writes\<close>

lemma readBytes_take:
  "n \<le> length data \<Longrightarrow> readBytes k (take n data) off = (case readBytes k data off of None \<Rightarrow> None
     | Some (x, off') \<Rightarrow> if off' \<le> n then Some (x, off') else None)"
  by (auto simp: readBytes_def take_drop min_def)

lemma readEntry_bounds: "readEntry data off = Some (x, off') \<Longrightarrow> off < off' \<and> off' \<le> length data"
  by (auto simp: readEntry_def readBytes_def bind_Some_prod split: if_splits bind_splits dest!: read_bounds)

lemma readEntry_take:
  assumes "n \<le> length data"
  shows "readEntry (take n data) off = (case readEntry data off of None \<Rightarrow> None
     | Some (x, off') \<Rightarrow> if off' \<le> n then Some (x, off') else None)"
proof -
  have b: "readBytes k data o1 = Some (x, o2) \<Longrightarrow> o1 \<le> o2" for k o1 x o2
    by (auto simp: readBytes_def split: if_splits)
  show ?thesis
    by (auto simp: readEntry_def wstr.dec_take [OF assms] wu32.dec_take [OF assms] readBytes_take [OF assms]
        split: option.split bind_split dest: read_bounds b)
qed

lemma readEntries_mono: "readEntries k data off = Some (x, off') \<Longrightarrow> off \<le> off'"
proof (induction k arbitrary: off x)
  case (Suc k)
  then obtain kv o1 kvs where "readEntry data off = Some (kv, o1)" "readEntries k data o1 = Some (kvs, off')"
    by (auto simp: bind_Some_prod)
  then show ?case using Suc.IH readEntry_bounds by (meson le_trans less_imp_le)
qed simp

lemma readEntries_take:
  assumes "n \<le> length data"
  shows "off \<le> n \<Longrightarrow> readEntries k (take n data) off = (case readEntries k data off of None \<Rightarrow> None
     | Some (x, off') \<Rightarrow> if off' \<le> n then Some (x, off') else None)"
proof (induction k arbitrary: off)
  case (Suc k)
  show ?case
  proof (cases "readEntry data off")
    case None
    then show ?thesis by (simp add: readEntry_take [OF assms])
  next
    case (Some p)
    obtain kv o1 where p: "p = (kv, o1)" by (cases p)
    show ?thesis
    proof (cases "o1 \<le> n")
      case True
      then show ?thesis
        using Some p Suc.IH [OF True] by (auto simp: readEntry_take [OF assms] split: option.splits bind_split)
    next
      case False
      have "readEntries (Suc k) data off = Some (x, o2) \<Longrightarrow> \<not> o2 \<le> n" for x o2
        using Some p False readEntries_mono [of k data o1] by (auto simp: bind_Some_prod)
      with Some p False show ?thesis
        by (auto simp: readEntry_take [OF assms] split: option.splits bind_split)
    qed
  qed
qed simp

lemma readHeader_take:
  assumes "n \<le> length data"
  shows "readHeader (take n data) = (case readHeader data of None \<Rightarrow> None
     | Some (x, off') \<Rightarrow> if off' \<le> n then Some (x, off') else None)"
  by (auto simp: readHeader_def header_take [OF assms] wu32.dec_take [OF assms]
      split: option.split bind_split dest: read_bounds)

lemma length_snapshot_bytes: "length (snapshot_bytes rs) = 7 + length (concat (map snapshot_entry rs))"
  by (simp add: snapshot_bytes_def)

lemma readFromFile_truncated:
  assumes "\<forall>kv \<in> set records. entry_fits kv" "length records < 2 ^ 32" "n < length (snapshot_bytes records)"
  shows "readFromFile (Some (take n (snapshot_bytes records))) = None"
proof -
  let ?data = "snapshot_bytes records"
  let ?pre = "[byte_of_char CHR ''S'', byte_of_char CHR ''2'', kVersion] @ appendCount (length records)"
  have full: "readEntries (length records) ?data 7 = Some (records, length ?data)"
    using readEntries_enc [OF assms(1), of ?pre "[]"]
    by (simp add: length_snapshot_bytes) (simp add: snapshot_bytes_def appendU8_def)
  have n: "n \<le> length ?data" using assms(3) by simp
  show ?thesis
    using readEntries_take [OF n, of 7 "length records"] full assms(2,3)
    by (simp add: readFromFile_def readHeader_take [OF n] readHeader_enc)
qed

end
