(* ===== verification/Orchestrator.thy ===== *)
theory Orchestrator
  imports Wal_Files Snapshot
begin

text \<open>
  \<^verbatim>\<open>storage2/persistence/PersistenceOrchestrator.cpp\<close> and the decorator that feeds it: group commit of
  queued batches, the queue between the submitting threads, the worker and \<^verbatim>\<open>flush\<close> as a step relation
  (one step per critical section or unlocked write), synchronous submission, and recovery from a
  snapshot and the log.
\<close>

section \<open>Group commit\<close>

record CommitOptions =
  group_commit_max_mutations :: nat
  group_commit_max_bytes :: nat

type_synonym commit_state = "byte list \<times> nat \<times> WalWriter"

definition flushBuf :: "WalEnv \<Rightarrow> commit_state \<Rightarrow> commit_state" where
  "flushBuf env s = (case s of (buf, muts_in_buf, w) \<Rightarrow>
     if buf \<noteq> [] then ([], 0, snd (appendBytes env buf w)) else (buf, muts_in_buf, w))"

definition commit_one :: "WalEnv \<Rightarrow> CommitOptions \<Rightarrow> Mutation \<Rightarrow> commit_state \<Rightarrow> commit_state" where
  "commit_one env opt m s = (case s of (buf, muts_in_buf, w) \<Rightarrow>
     let max_muts = (if group_commit_max_mutations opt > 0 then group_commit_max_mutations opt else 1);
         max_bytes = (if group_commit_max_bytes opt > 0 then group_commit_max_bytes opt else 1);
         before = length buf; buf = buf @ appendMutation m; after = length buf;
         muts_in_buf = muts_in_buf + 1
     in if muts_in_buf \<ge> max_muts \<or> (after > max_bytes \<and> before > 0)
        then flushBuf env (buf, muts_in_buf, w) else (buf, muts_in_buf, w))"

definition group_commit :: "WalEnv \<Rightarrow> CommitOptions \<Rightarrow> Mutation list list \<Rightarrow> WalWriter \<Rightarrow> WalWriter" where
  "group_commit env opt batches w =
     (case flushBuf env (fold (fold (commit_one env opt)) batches ([], 0, w)) of (_, _, w) \<Rightarrow> w)"

section \<open>The queue\<close>

text \<open>
  \<open>os_worker\<close> and \<open>os_flusher\<close> are the batches that the worker thread or a thread in \<^verbatim>\<open>flush\<close> has
  swapped out of the queue and not yet written; \<open>os_written\<close> and \<open>os_submitted\<close> record history.
  One group commit is one step. The writer has no lock of its own, so two group commits that
  overlap may also interleave their buffers; statements about the log of overlapping runs are
  therefore made only for runs in which they do not overlap, or as existence of a run.
\<close>

record OrchState =
  os_queue :: "Mutation list list"
  os_worker :: "Mutation list list option"
  os_flusher :: "Mutation list list option"
  os_stop :: bool
  os_dropped :: nat
  os_writer :: WalWriter
  os_written :: "Mutation list list"
  os_submitted :: "Mutation list list"

definition new_orch :: "WalWriter \<Rightarrow> OrchState" where
  "new_orch w = \<lparr>os_queue = [], os_worker = None, os_flusher = None, os_stop = False, os_dropped = 0,
     os_writer = w, os_written = [], os_submitted = []\<rparr>"

definition queue_limit :: "nat \<Rightarrow> nat" where
  "queue_limit max_queue = (if max_queue > 0 then max_queue else 1)"

inductive orch_step :: "WalEnv \<Rightarrow> CommitOptions \<Rightarrow> nat \<Rightarrow> OrchState \<Rightarrow> OrchState \<Rightarrow> bool"
  for env :: WalEnv and opt :: CommitOptions and max_queue :: nat where
  submit: "b \<noteq> [] \<Longrightarrow> \<not> os_stop s \<Longrightarrow> length (os_queue s) < queue_limit max_queue \<Longrightarrow>
    orch_step env opt max_queue s (s\<lparr>os_queue := os_queue s @ [b], os_submitted := os_submitted s @ [b]\<rparr>)"
| submit_stopped: "(b :: Mutation list) \<noteq> [] \<Longrightarrow> os_stop s \<Longrightarrow>
    orch_step env opt max_queue s (s\<lparr>os_dropped := os_dropped s + 1\<rparr>)"
| worker_take: "\<not> os_stop s \<Longrightarrow> os_worker s = None \<Longrightarrow> os_queue s \<noteq> [] \<Longrightarrow>
    orch_step env opt max_queue s (s\<lparr>os_worker := Some (os_queue s), os_queue := []\<rparr>)"
| worker_write: "os_worker s = Some l \<Longrightarrow>
    orch_step env opt max_queue s (s\<lparr>os_worker := None, os_writer := group_commit env opt l (os_writer s),
      os_written := os_written s @ l\<rparr>)"
| flush_take: "os_flusher s = None \<Longrightarrow> os_queue s \<noteq> [] \<Longrightarrow>
    orch_step env opt max_queue s (s\<lparr>os_flusher := Some (os_queue s), os_queue := []\<rparr>)"
| flush_write: "os_flusher s = Some l \<Longrightarrow>
    orch_step env opt max_queue s (s\<lparr>os_flusher := None, os_writer := group_commit env opt l (os_writer s),
      os_written := os_written s @ l\<rparr>)"
| stop: "orch_step env opt max_queue s (s\<lparr>os_stop := True\<rparr>)"

inductive orch_reach :: "WalEnv \<Rightarrow> CommitOptions \<Rightarrow> nat \<Rightarrow> WalWriter \<Rightarrow> OrchState \<Rightarrow> bool"
  for env :: WalEnv and opt :: CommitOptions and max_queue :: nat and w :: WalWriter where
  init: "orch_reach env opt max_queue w (new_orch w)"
| step: "orch_reach env opt max_queue w s \<Longrightarrow> orch_step env opt max_queue s s' \<Longrightarrow> orch_reach env opt max_queue w s'"

definition taken :: "Mutation list list option \<Rightarrow> Mutation list list" where
  "taken x = (case x of None \<Rightarrow> [] | Some l \<Rightarrow> l)"

lemma taken_simps [simp]: "taken None = []" "taken (Some l) = l"
  by (simp_all add: taken_def)

section \<open>Synchronous submission and the decorator\<close>

text \<open>Without the worker, \<^verbatim>\<open>submit\<close> appends the batch to the log at once.\<close>

definition submit_sync :: "WalEnv \<Rightarrow> Mutation list \<Rightarrow> WalWriter option \<Rightarrow> WalWriter option" where
  "submit_sync env batch wal_writer =
     (if batch = [] then wal_writer
      else map_option (\<lambda>w. snd (append env batch w)) wal_writer)"

text \<open>
  \<^verbatim>\<open>OrchestratedStorageAPI\<close>: each call goes to the engine, its mutations to the orchestrator (if there
  is one), and the result is returned without them.
\<close>

definition submitAndStrip ::
    "WalEnv \<Rightarrow> 'a StorageResult \<times> Engine \<Rightarrow> WalWriter option \<Rightarrow> 'a StorageResult \<times> Engine \<times> WalWriter option" where
  "submitAndStrip env x wal_writer = (case x of (r, e) \<Rightarrow>
     let wal_writer = (if sr_mutations r \<noteq> [] then submit_sync env (sr_mutations r) wal_writer else wal_writer)
     in (r\<lparr>sr_mutations := []\<rparr>, e, wal_writer))"

fun orchestrated_run ::
    "WalEnv \<Rightarrow> api_call list \<Rightarrow> Engine \<Rightarrow> WalWriter option \<Rightarrow> api_value StorageResult list \<times> Engine \<times> WalWriter option" where
  "orchestrated_run env [] e ww = ([], e, ww)"
| "orchestrated_run env (c # cs) e ww =
     (let (r, e, ww) = submitAndStrip env (api_exec c e) ww;
          (rs, e, ww) = orchestrated_run env cs e ww
      in (r # rs, e, ww))"

section \<open>Recovery\<close>

record RecoverFiles =
  snapshot_path_set :: bool
  snapshot_file :: "byte list option"
  wal_path_set :: bool
  wal_base :: string
  wal_dir :: directory

fun apply_all :: "Mutation list \<Rightarrow> Engine \<Rightarrow> bool \<times> Engine" where
  "apply_all [] e = (True, e)"
| "apply_all (m # ms) e =
     (let (applied, e) = applyMutation m e in if \<not> applied then (False, e) else apply_all ms e)"

definition replay_wal :: "RecoverFiles \<Rightarrow> Engine \<Rightarrow> bool \<times> Engine" where
  "replay_wal files e =
     (if wal_path_set files then
        if map_of (wal_dir files) (wal_base files) = None then (True, e)
        else (case readAllMutationsWalChain (wal_base files) (wal_dir files) of
            None \<Rightarrow> (False, e)
          | Some muts \<Rightarrow> apply_all muts e)
      else (True, e))"

definition recoverInto :: "RecoverFiles \<Rightarrow> Engine \<Rightarrow> bool \<times> Engine" where
  "recoverInto files e =
     (if snapshot_path_set files \<and> snapshot_file files \<noteq> None then
        (case readFromFile (snapshot_file files) of
           None \<Rightarrow> (False, e)
         | Some records \<Rightarrow> replay_wal files (loadSnapshot records e))
      else replay_wal files e)"

definition takeSnapshotNow :: "SnapEnv \<Rightarrow> Engine \<Rightarrow> SnapFiles \<Rightarrow> bool \<times> Engine \<times> SnapFiles" where
  "takeSnapshotNow env e fs =
     (let (records, e) = dumpAllLiveRecords e; (ok, fs) = SnapshotWriter_writeToFile env records fs
      in (ok, e, fs))"

end
