(* ===== verification/Memory_Pool.thy ===== *)
theory Memory_Pool
  imports SunKV_Prelude
begin

text \<open>
  \<^verbatim>\<open>common/MemoryPool.cpp\<close>: a pool of fixed-size blocks for one thread. A bucket is the number of free blocks
  of one size; what the blocks contain is of no interest. Buckets are listed in the order of their creation.
\<close>

record BufferPool =
  max_cached_blocks_per_size :: nat
  free_blocks :: "(nat \<times> nat) list"
  hit_count :: nat
  miss_count :: nat
  release_count :: nat
  discard_count :: nat

record PoolStats =
  ps_hit :: nat
  ps_miss :: nat
  ps_release :: nat
  ps_discard :: nat
  ps_cached :: nat

definition new_BufferPool :: BufferPool where
  "new_BufferPool = \<lparr>max_cached_blocks_per_size = 8, free_blocks = [], hit_count = 0, miss_count = 0,
     release_count = 0, discard_count = 0\<rparr>"

definition bucket :: "nat \<Rightarrow> BufferPool \<Rightarrow> nat" where
  "bucket sz p = (case map_of (free_blocks p) sz of None \<Rightarrow> 0 | Some n \<Rightarrow> n)"

definition set_bucket :: "nat \<Rightarrow> nat \<Rightarrow> BufferPool \<Rightarrow> BufferPool" where
  "set_bucket sz n p = p\<lparr>free_blocks := AList.update sz n (free_blocks p)\<rparr>"

text \<open>\<^verbatim>\<open>acquire\<close> gives a block of the pool or a new one; the lease is always of the size asked for.\<close>

definition acquire :: "nat \<Rightarrow> BufferPool \<Rightarrow> BufferPool" where
  "acquire sz p = (let n = bucket sz p; p = set_bucket sz n p in
     if n \<noteq> 0 then (set_bucket sz (n - 1) p)\<lparr>hit_count := hit_count p + 1\<rparr>
     else p\<lparr>miss_count := miss_count p + 1\<rparr>)"

definition release :: "bool \<Rightarrow> nat \<Rightarrow> BufferPool \<Rightarrow> BufferPool" where
  "release is_null sz p =
     (if is_null \<or> sz = 0 then p
      else let p = p\<lparr>release_count := release_count p + 1\<rparr>; n = bucket sz p; p = set_bucket sz n p in
        if n < max_cached_blocks_per_size p then set_bucket sz (n + 1) p
        else p\<lparr>discard_count := discard_count p + 1\<rparr>)"

definition setMaxCachedBlocksPerSize :: "nat \<Rightarrow> BufferPool \<Rightarrow> BufferPool" where
  "setMaxCachedBlocksPerSize limit p =
     p\<lparr>max_cached_blocks_per_size := limit,
       free_blocks := map (\<lambda>(sz, n). (sz, if limit = 0 then 0 else if n > limit then limit else n)) (free_blocks p)\<rparr>"

definition pool_getStats :: "BufferPool \<Rightarrow> PoolStats" where
  "pool_getStats p = \<lparr>ps_hit = hit_count p, ps_miss = miss_count p, ps_release = release_count p,
     ps_discard = discard_count p, ps_cached = sum_list (map snd (free_blocks p))\<rparr>"

definition resetStats :: "BufferPool \<Rightarrow> BufferPool" where
  "resetStats p = p\<lparr>hit_count := 0, miss_count := 0, release_count := 0, discard_count := 0\<rparr>"

section \<open>Bound and conservation\<close>

definition pool_ok :: "BufferPool \<Rightarrow> bool" where
  "pool_ok p \<longleftrightarrow> distinct (map fst (free_blocks p)) \<and>
     list_all (\<lambda>(sz, n). n \<le> max_cached_blocks_per_size p) (free_blocks p)"

lemma bucket_set [simp]: "bucket sz (set_bucket sz' n p) = (if sz = sz' then n else bucket sz p)"
  by (simp add: bucket_def set_bucket_def update_conv')

lemma bucket_updates [simp]:
  "bucket sz (p\<lparr>hit_count := a\<rparr>) = bucket sz p" "bucket sz (p\<lparr>miss_count := a\<rparr>) = bucket sz p"
  "bucket sz (p\<lparr>release_count := a\<rparr>) = bucket sz p" "bucket sz (p\<lparr>discard_count := a\<rparr>) = bucket sz p"
  by (simp_all add: bucket_def)

lemma set_bucket_fields [simp]:
  "max_cached_blocks_per_size (set_bucket sz n p) = max_cached_blocks_per_size p"
  "hit_count (set_bucket sz n p) = hit_count p" "miss_count (set_bucket sz n p) = miss_count p"
  "release_count (set_bucket sz n p) = release_count p" "discard_count (set_bucket sz n p) = discard_count p"
  by (simp_all add: set_bucket_def)

lemma bucket_le: "pool_ok p \<Longrightarrow> bucket sz p \<le> max_cached_blocks_per_size p"
  by (auto simp: pool_ok_def bucket_def list_all_iff split: option.split dest!: map_of_SomeD)

lemma set_update_sub: "set (AList.update k v al) \<subseteq> insert (k, v) (set al)"
  by (induction al) auto

lemma sum_update:
  "distinct (map fst al) \<Longrightarrow> sum_list (map snd (AList.update k n al)) + (case map_of al k of None \<Rightarrow> 0 | Some m \<Rightarrow> m) =
     sum_list (map snd al) + (n :: nat)"
proof (induction al)
  case (Cons x al)
  have "k = fst x \<Longrightarrow> map_of al k = None" using Cons.prems by (auto simp: map_of_eq_None_iff)
  with Cons show ?case by (cases x) auto
qed simp

lemma pool_ok_set: "pool_ok p \<Longrightarrow> n \<le> max_cached_blocks_per_size p \<Longrightarrow> pool_ok (set_bucket sz n p)"
  using set_update_sub [of sz n "free_blocks p"]
  by (auto simp: pool_ok_def set_bucket_def list_all_iff distinct_update)

lemma pool_ok_counts [simp]:
  "pool_ok (p\<lparr>hit_count := a\<rparr>) = pool_ok p" "pool_ok (p\<lparr>miss_count := a\<rparr>) = pool_ok p"
  "pool_ok (p\<lparr>release_count := a\<rparr>) = pool_ok p" "pool_ok (p\<lparr>discard_count := a\<rparr>) = pool_ok p"
  by (simp_all add: pool_ok_def)

lemma pool_ops_ok:
  "pool_ok new_BufferPool" "pool_ok p \<Longrightarrow> pool_ok (acquire sz p)" "pool_ok p \<Longrightarrow> pool_ok (release z sz p)"
  "pool_ok p \<Longrightarrow> pool_ok (setMaxCachedBlocksPerSize limit p)"
  using bucket_le [of p sz]
  by (auto simp: new_BufferPool_def acquire_def release_def Let_def intro!: pool_ok_set)
    (auto simp: pool_ok_def setMaxCachedBlocksPerSize_def list_all_iff comp_def split_beta)

abbreviation cached_blocks :: "BufferPool \<Rightarrow> nat" where
  "cached_blocks p \<equiv> sum_list (map snd (free_blocks p))"

lemma cached_set: "pool_ok p \<Longrightarrow> cached_blocks (set_bucket sz n p) + bucket sz p = cached_blocks p + n"
  using sum_update [of "free_blocks p" sz n] by (simp add: pool_ok_def set_bucket_def bucket_def)

text \<open>Every block that came back is cached, handed out again, or discarded.\<close>

lemma pool_conservation:
  assumes "pool_ok p" "cached_blocks p + hit_count p + discard_count p = release_count p"
  shows "cached_blocks (acquire sz p) + hit_count (acquire sz p) + discard_count (acquire sz p) = release_count (acquire sz p)"
    and "cached_blocks (release z sz p) + hit_count (release z sz p) + discard_count (release z sz p) = release_count (release z sz p)"
proof -
  have same: "pool_ok q \<Longrightarrow> cached_blocks (set_bucket sz (bucket sz q) q) = cached_blocks q" for q
    using cached_set [of q sz "bucket sz q"] by simp
  have ok: "pool_ok q \<Longrightarrow> pool_ok (set_bucket sz (bucket sz q) q)" for q
    by (rule pool_ok_set) (simp_all add: bucket_le)
  show "cached_blocks (acquire sz p) + hit_count (acquire sz p) + discard_count (acquire sz p) = release_count (acquire sz p)"
    using assms same [of p] cached_set [OF ok [OF assms(1)], of sz "bucket sz p - 1"]
    by (auto simp: acquire_def Let_def)
  let ?q = "p\<lparr>release_count := Suc (release_count p)\<rparr>"
  have q: "pool_ok ?q" using assms(1) by simp
  show "cached_blocks (release z sz p) + hit_count (release z sz p) + discard_count (release z sz p) = release_count (release z sz p)"
    using assms same [OF q] cached_set [OF ok [OF q], of sz "Suc (bucket sz p)"]
    by (auto simp: release_def Let_def)
qed

end
