(* ===== verification/Server_State.thy ===== *)
theory Server_State
  imports Resp_Parser Orchestrator Memory_Pool
begin

text \<open>
  The state of \<^verbatim>\<open>server/Server.cpp\<close> and the operations on it that the commands use: storage calls, sending,
  publish/subscribe, statistics. A connection is its name. What the server does to connections
  is recorded in \<open>srv_out\<close>; \<^verbatim>\<open>TcpConnection::send\<close> ignores data unless the connection is connected.
  Storage is absent (\<open>None\<close>) before it is initialised. The batches handed to the orchestrator are recorded in the
  order of submission; \<open>Orchestrator\<close> says what becomes of them. Counters are unbounded.
\<close>

section \<open>State\<close>

type_synonym conn = string

datatype NetEvent = Send conn string | ForceClose conn

record Storage =
  st_engine :: Engine
  st_orchestrator :: bool
  st_submitted :: "Mutation list list"

record QueuedCommand =
  qc_name :: string
  qc_array :: "RESPValue list"

text \<open>\<^verbatim>\<open>subscribed_channels\<close> is an unordered set; the order in which it is traversed is taken to be that of insertion.\<close>

record ConnParseState =
  pending_input :: string
  pending_offset :: nat
  conn_parser :: RESPParser
  in_multi :: bool
  queued_commands :: "QueuedCommand list"
  subscribed_channels :: "string list"

definition new_ConnParseState :: ConnParseState where
  "new_ConnParseState = \<lparr>pending_input = [], pending_offset = 0, conn_parser = new_RESPParser, in_multi = False,
     queued_commands = [], subscribed_channels = []\<rparr>"

record ServerConfig =
  max_conn_input_buffer_mb :: int
  slowlog_threshold_ms :: int
  max_ttl_seconds :: int

record ServerStats =
  total_connections :: nat
  current_connections :: nat
  total_commands :: nat
  total_command_errors :: nat
  total_slow_commands :: nat
  total_command_latency_us :: nat
  max_command_latency_us :: nat
  expired_keys_cleaned :: nat
  total_operations :: nat
  max_conn_input_buffer_bytes :: nat
  output_buffer_peak_bytes :: nat
  pubsub_channel_count :: nat
  pubsub_subscription_count :: nat
  pubsub_publish_total :: nat
  pubsub_delivered_total :: nat

record Server =
  srv_config :: ServerConfig
  srv_storage :: "Storage option"
  srv_snap :: SnapFiles
  conn_inbuf :: "conn \<rightharpoonup> ConnParseState"
  channel_subscribers :: "(string \<times> conn list) list"
  srv_running :: bool
  srv_stopping :: bool
  srv_connected :: "conn list"
  srv_out :: "NetEvent list"
  srv_stats :: ServerStats
  srv_pool :: BufferPool

text \<open>What the environment decides for one command: the uptime, the file operations of a snapshot, and the time it takes.\<close>

record CmdEnv =
  env_uptime_seconds :: nat
  env_snap :: SnapEnv
  env_latency_us :: nat

section \<open>Sending\<close>

definition send :: "conn \<Rightarrow> string \<Rightarrow> Server \<Rightarrow> Server" where
  "send c data s = (if c \<in> set (srv_connected s) then s\<lparr>srv_out := srv_out s @ [Send c data]\<rparr> else s)"

definition forceClose :: "conn \<Rightarrow> Server \<Rightarrow> Server" where
  "forceClose c s = s\<lparr>srv_connected := filter (\<lambda>c'. c' \<noteq> c) (srv_connected s), srv_out := srv_out s @ [ForceClose c]\<rparr>"

section \<open>Storage\<close>

definition storage_submit :: "Mutation list \<Rightarrow> Storage \<Rightarrow> Storage" where
  "storage_submit ms st =
     (if st_orchestrator st \<and> ms \<noteq> [] then st\<lparr>st_submitted := st_submitted st @ [ms]\<rparr> else st)"

definition storage_call :: "api_call \<Rightarrow> Storage \<Rightarrow> api_value StorageResult \<times> Storage" where
  "storage_call c st = (let (r, e) = api_exec c (st_engine st); st = st\<lparr>st_engine := e\<rparr>
     in if st_orchestrator st then (r\<lparr>sr_mutations := []\<rparr>, storage_submit (sr_mutations r) st) else (r, st))"

text \<open>A call of \<^verbatim>\<open>server.storage2_.api\<close>; without storage there is no result.\<close>

definition api :: "api_call \<Rightarrow> Server \<Rightarrow> api_value StorageResult option \<times> Server" where
  "api c s = (case srv_storage s of
      None \<Rightarrow> (None, s)
    | Some st \<Rightarrow> let (r, st) = storage_call c st in (Some r, s\<lparr>srv_storage := Some st\<rparr>))"

fun int_of_value :: "api_value \<Rightarrow> int" where
  "int_of_value (VInt i) = i"
| "int_of_value _ = 0"

fun opt_of_value :: "api_value \<Rightarrow> string option" where
  "opt_of_value (VOpt x) = x"
| "opt_of_value _ = None"

fun strs_of_value :: "api_value \<Rightarrow> string list" where
  "strs_of_value (VStrs xs) = xs"
| "strs_of_value _ = []"

fun pairs_of_value :: "api_value \<Rightarrow> (string \<times> string) list" where
  "pairs_of_value (VPairs xs) = xs"
| "pairs_of_value _ = []"

definition create_multi_type_snapshot :: "SnapEnv \<Rightarrow> Server \<Rightarrow> bool \<times> Server" where
  "create_multi_type_snapshot env s = (case srv_storage s of
      None \<Rightarrow> (False, s)
    | Some st \<Rightarrow> let (ok, e, fs) = takeSnapshotNow env (st_engine st) (srv_snap s)
        in (ok, s\<lparr>srv_storage := Some (st\<lparr>st_engine := e\<rparr>), srv_snap := fs\<rparr>))"

section \<open>Publish/subscribe\<close>

definition upd_stats :: "(ServerStats \<Rightarrow> ServerStats) \<Rightarrow> Server \<Rightarrow> Server" where
  "upd_stats f s = s\<lparr>srv_stats := f (srv_stats s)\<rparr>"

definition refreshPubSubStatsLocked :: "Server \<Rightarrow> Server" where
  "refreshPubSubStatsLocked s = upd_stats (\<lambda>t. t\<lparr>pubsub_channel_count := length (channel_subscribers s),
     pubsub_subscription_count := sum_list (map (length \<circ> snd) (channel_subscribers s))\<rparr>) s"

definition isSubscribeMode :: "conn \<Rightarrow> Server \<Rightarrow> bool" where
  "isSubscribeMode c s = (case conn_inbuf s c of None \<Rightarrow> False | Some ctx \<Rightarrow> subscribed_channels ctx \<noteq> [])"

definition subscribers :: "string \<Rightarrow> Server \<Rightarrow> conn list" where
  "subscribers ch s = (case map_of (channel_subscribers s) ch of None \<Rightarrow> [] | Some cs \<Rightarrow> cs)"

definition subscribeChannel :: "conn \<Rightarrow> string \<Rightarrow> Server \<Rightarrow> nat \<times> Server" where
  "subscribeChannel c channel s = (case conn_inbuf s c of
      None \<Rightarrow> (0, s)
    | Some ctx \<Rightarrow>
        let chs = List.insert channel (subscribed_channels ctx);
            s = s\<lparr>conn_inbuf := (conn_inbuf s)(c \<mapsto> ctx\<lparr>subscribed_channels := chs\<rparr>)\<rparr>;
            s = s\<lparr>channel_subscribers := AList.update channel (List.insert c (subscribers channel s)) (channel_subscribers s)\<rparr>
        in (length chs, refreshPubSubStatsLocked s))"

text \<open>Removing a connection from a channel; a channel without subscribers is removed.\<close>

definition drop_subscriber :: "conn \<Rightarrow> string \<Rightarrow> (string \<times> conn list) list \<Rightarrow> (string \<times> conn list) list" where
  "drop_subscriber c channel subs = (case map_of subs channel of
      None \<Rightarrow> subs
    | Some cs \<Rightarrow> let cs = filter (\<lambda>c'. c' \<noteq> c) cs in
        if cs = [] then AList.delete channel subs else AList.update channel cs subs)"

definition unsubscribeChannel :: "conn \<Rightarrow> string \<Rightarrow> Server \<Rightarrow> nat \<times> Server" where
  "unsubscribeChannel c channel s =
     (let (n, s) = (case conn_inbuf s c of
          None \<Rightarrow> (0, s)
        | Some ctx \<Rightarrow> let chs = filter (\<lambda>ch. ch \<noteq> channel) (subscribed_channels ctx)
            in (length chs, s\<lparr>conn_inbuf := (conn_inbuf s)(c \<mapsto> ctx\<lparr>subscribed_channels := chs\<rparr>)\<rparr>));
          s = s\<lparr>channel_subscribers := drop_subscriber c channel (channel_subscribers s)\<rparr>
      in (n, refreshPubSubStatsLocked s))"

definition unsubscribeAllChannels :: "conn \<Rightarrow> Server \<Rightarrow> (string \<times> nat) list \<times> Server" where
  "unsubscribeAllChannels c s =
     (let (channels, s) = (case conn_inbuf s c of
          None \<Rightarrow> ([], s)
        | Some ctx \<Rightarrow> (subscribed_channels ctx, s\<lparr>conn_inbuf := (conn_inbuf s)(c \<mapsto> ctx\<lparr>subscribed_channels := []\<rparr>)\<rparr>));
          s = s\<lparr>channel_subscribers := fold (drop_subscriber c) channels (channel_subscribers s)\<rparr>
      in (map (\<lambda>ch. (ch, 0)) channels, refreshPubSubStatsLocked s))"

definition publishMessage :: "string \<Rightarrow> string \<Rightarrow> Server \<Rightarrow> int \<times> Server" where
  "publishMessage channel payload s = (case map_of (channel_subscribers s) channel of
      None \<Rightarrow> (0, s)
    | Some cs \<Rightarrow>
        let live = filter (\<lambda>c. c \<in> set (srv_connected s)) cs;
            message = ''*3'' @ crlf @ serializeBulkString ''message'' @ serializeBulkString channel @ serializeBulkString payload;
            s = fold (\<lambda>c. send c message) live s
        in (int (length live), upd_stats (\<lambda>t. t\<lparr>pubsub_publish_total := pubsub_publish_total t + 1,
              pubsub_delivered_total := pubsub_delivered_total t + length live\<rparr>) s))"

definition clearSubscriptionsForConnection :: "conn \<Rightarrow> Server \<Rightarrow> Server" where
  "clearSubscriptionsForConnection c s = (case conn_inbuf s c of
      None \<Rightarrow> s
    | Some ctx \<Rightarrow>
        let s = s\<lparr>conn_inbuf := (conn_inbuf s)(c := None)\<rparr>;
            s = s\<lparr>channel_subscribers := fold (drop_subscriber c) (subscribed_channels ctx) (channel_subscribers s)\<rparr>
        in refreshPubSubStatsLocked s)"

section \<open>Statistics\<close>

definition updateMaxInputBufferBytes :: "nat \<Rightarrow> Server \<Rightarrow> Server" where
  "updateMaxInputBufferBytes n = upd_stats (\<lambda>t. t\<lparr>max_conn_input_buffer_bytes := max n (max_conn_input_buffer_bytes t)\<rparr>)"

definition recordCommandMetrics :: "bool \<Rightarrow> nat \<Rightarrow> Server \<Rightarrow> Server" where
  "recordCommandMetrics command_error latency_us s =
     (let threshold_us = nat (max 0 (slowlog_threshold_ms (srv_config s))) * 1000
      in upd_stats (\<lambda>t. t\<lparr>total_command_latency_us := total_command_latency_us t + latency_us,
           max_command_latency_us := max latency_us (max_command_latency_us t),
           total_command_errors := total_command_errors t + (if command_error then 1 else 0),
           total_slow_commands := total_slow_commands t + (if latency_us \<ge> threshold_us then 1 else 0)\<rparr>) s)"

definition stat_line :: "string \<Rightarrow> nat \<Rightarrow> string" where
  "stat_line name n = name @ ''='' @ nat_to_string n"

definition buildStatsReport :: "CmdEnv \<Rightarrow> Server \<Rightarrow> string \<times> Server" where
  "buildStatsReport env s =
     (let (r, s) = api ApiDbsize s;
          kv_size = (case r of None \<Rightarrow> 0 | Some r \<Rightarrow> if sr_status r = Ok then nat (int_of_value (sr_value r)) else 0);
          t = srv_stats s; pool = pool_getStats (srv_pool s);
          avg = (if total_commands t = 0 then 0 else total_command_latency_us t div total_commands t)
      in (concat (map (\<lambda>(k, n). stat_line k n @ [CHR 0x0A])
           [(''uptime_seconds'', env_uptime_seconds env), (''total_connections'', total_connections t),
            (''current_connections'', current_connections t), (''total_commands'', total_commands t),
            (''total_command_errors'', total_command_errors t), (''total_slow_commands'', total_slow_commands t),
            (''avg_command_latency_us'', avg), (''max_command_latency_us'', max_command_latency_us t),
            (''total_operations'', total_operations t), (''kv_size'', kv_size),
            (''expired_keys_cleaned'', expired_keys_cleaned t),
            (''max_conn_input_buffer_bytes'', max_conn_input_buffer_bytes t),
            (''output_buffer_peak_bytes'', output_buffer_peak_bytes t),
            (''pubsub_channel_count'', pubsub_channel_count t), (''pubsub_subscription_count'', pubsub_subscription_count t),
            (''pubsub_publish_total'', pubsub_publish_total t), (''pubsub_delivered_total'', pubsub_delivered_total t),
            (''memory_pool.hit'', ps_hit pool), (''memory_pool.miss'', ps_miss pool),
            (''memory_pool.release'', ps_release pool), (''memory_pool.discard'', ps_discard pool)])
          @ stat_line ''memory_pool.cached_blocks'' (ps_cached pool), s))"

end
