(* ===== verification/Cmd_Dispatch.thy ===== *)
theory Cmd_Dispatch
  imports Server_State
begin

text \<open>
  \<^verbatim>\<open>server/ArrayCmdDispatch.cpp\<close>: one definition per command. A handler gets the connection (\<open>None\<close> is the null
  pointer that \<^verbatim>\<open>EXEC\<close> passes), the command array, the environment and the server; it returns whether it
  handled the command, the strings it passed to \<^verbatim>\<open>writeResp\<close> in order, and the server. The result
  \<open>None\<close> is a null pointer that is followed: the program has undefined behaviour there.
\<close>

section \<open>Context\<close>

type_synonym handler_result = "(bool \<times> string list \<times> Server) option"
type_synonym handler = "conn option \<Rightarrow> RESPValue list \<Rightarrow> CmdEnv \<Rightarrow> Server \<Rightarrow> handler_result"

definition reply :: "string \<Rightarrow> Server \<Rightarrow> handler_result" where
  "reply resp s = Some (True, [resp], s)"

definition unhandled :: "Server \<Rightarrow> handler_result" where
  "unhandled s = Some (False, [], s)"

definition wrongtype_error :: string where
  "wrongtype_error = serializeError ''WRONGTYPE Operation against a key holding the wrong kind of value''"

definition require_bulk :: "RESPValue list \<Rightarrow> nat \<Rightarrow> bool" where
  "require_bulk cmd_array idx \<longleftrightarrow> idx < length cmd_array \<and> getType (cmd_array ! idx) = BULK_STRING"

fun bulk_of :: "RESPValue \<Rightarrow> string" where
  "bulk_of (RESPBulkString v) = bulk_getValue v"
| "bulk_of _ = []"

definition bulk_value :: "RESPValue list \<Rightarrow> nat \<Rightarrow> string" where
  "bulk_value cmd_array idx = bulk_of (cmd_array ! idx)"

text \<open>The bulk strings among the arguments from index \<open>i\<close> on; others are skipped.\<close>

definition bulk_args :: "nat \<Rightarrow> RESPValue list \<Rightarrow> string list" where
  "bulk_args i cmd_array = map bulk_of (filter (\<lambda>v. getType v = BULK_STRING) (drop i cmd_array))"

text \<open>\<^verbatim>\<open>std::stoll\<close>: white space, a sign, and the longest run of digits; what follows is ignored.\<close>

definition stoll :: "string \<Rightarrow> int option" where
  "stoll str =
     (let s = dropWhile is_space str; negative = (s \<noteq> [] \<and> hd s = CHR ''-'');
          s = (if s \<noteq> [] \<and> (hd s = CHR ''-'' \<or> hd s = CHR ''+'') then tl s else s);
          ds = takeWhile is_digit s; v = (if negative then - int (digits_value ds) else int (digits_value ds))
      in if ds = [] then None else if in_i64 v then Some v else None)"

definition toupper :: "char \<Rightarrow> char" where
  "toupper c = (if 97 \<le> (of_char c :: nat) \<and> (of_char c :: nat) \<le> 122 then char_of (of_char c - (32 :: nat)) else c)"

text \<open>The replies that most handlers give: an integer, or a bulk string that may be absent.\<close>

definition int_reply :: "api_value StorageResult option \<times> Server \<Rightarrow> handler_result" where
  "int_reply x = (case x of
      (None, s) \<Rightarrow> reply (serializeInteger 0) s
    | (Some r, s) \<Rightarrow>
        if sr_status r = WrongType then reply wrongtype_error s
        else reply (serializeInteger (if sr_status r = Ok then int_of_value (sr_value r) else 0)) s)"

definition bulk_reply :: "api_value StorageResult option \<times> Server \<Rightarrow> handler_result" where
  "bulk_reply x = (case x of
      (None, s) \<Rightarrow> reply kNullBulkString s
    | (Some r, s) \<Rightarrow>
        if sr_status r = WrongType then reply wrongtype_error s
        else if sr_status r \<noteq> Ok then reply kNullBulkString s
        else (case opt_of_value (sr_value r) of
            None \<Rightarrow> reply kNullBulkString s
          | Some v \<Rightarrow> reply (serializeBulkString v) s))"

definition bulk_strings :: "string list \<Rightarrow> string" where
  "bulk_strings xs = ''*'' @ nat_to_string (length xs) @ crlf @
     concat (map (\<lambda>x. ''$'' @ nat_to_string (length x) @ crlf @ x @ crlf) xs)"

section \<open>Server commands\<close>

definition cmdPing :: handler where
  "cmdPing c cmd_array env s = (if length cmd_array \<noteq> 1 then unhandled s else reply kSimpleStringPong s)"

definition cmdHealth :: handler where
  "cmdHealth c cmd_array env s =
     (if length cmd_array \<noteq> 1 then unhandled s
      else if srv_running s \<and> \<not> srv_stopping s then reply kSimpleStringOk s
      else reply (serializeError ''UNHEALTHY'') s)"

definition cmdSnapshot :: handler where
  "cmdSnapshot c cmd_array env s =
     (if length cmd_array \<noteq> 1 then unhandled s
      else let (ok, s) = create_multi_type_snapshot (env_snap env) s in
        if ok then reply kSimpleStringOk s else reply (serializeError ''Snapshot creation failed'') s)"

definition cmdDbsize :: handler where
  "cmdDbsize c cmd_array env s =
     (if length cmd_array \<noteq> 1 then unhandled s
      else let (r, s) = api ApiDbsize s;
               n = (case r of None \<Rightarrow> 0 | Some r \<Rightarrow> if sr_status r = Ok then int_of_value (sr_value r) else 0)
        in reply (serializeInteger n) s)"

definition flushall_storage :: "Storage \<Rightarrow> Storage" where
  "flushall_storage st =
     (let st = st\<lparr>st_engine := loadSnapshot [] (st_engine st)\<rparr> in
      if st_orchestrator st
      then let (now, e) = nowEpochUs (st_engine st) in storage_submit [mut_clear now] (st\<lparr>st_engine := e\<rparr>)
      else st)"

definition cmdFlushall :: handler where
  "cmdFlushall c cmd_array env s =
     (if length cmd_array \<noteq> 1 then unhandled s
      else case srv_storage s of
        None \<Rightarrow> reply kSimpleStringOk s
      | Some st \<Rightarrow> reply kSimpleStringOk (s\<lparr>srv_storage := Some (flushall_storage st)\<rparr>))"

definition cmdMonitor :: handler where
  "cmdMonitor c cmd_array env s =
     (if length cmd_array \<noteq> 1 then unhandled s
      else let (report, s) = buildStatsReport env s in reply (serializeBulkString report) s)"

definition cmdStats :: handler where
  "cmdStats c cmd_array env s =
     (if length cmd_array \<noteq> 1 then unhandled s
      else let (report, s) = buildStatsReport env s in reply (serializeBulkString report) s)"

definition cmdDebug :: handler where
  "cmdDebug c cmd_array env s =
     (if length cmd_array < 2 \<or> getType (cmd_array ! 1) \<noteq> BULK_STRING
      then reply (serializeError ''ERR wrong number of arguments for 'DEBUG' command'') s
      else let subcmd = map toupper (bulk_value cmd_array 1) in
        if subcmd = ''INFO'' then (let (report, s) = buildStatsReport env s in reply (serializeBulkString report) s)
        else if subcmd = ''RESETSTATS'' then reply kSimpleStringOk (s\<lparr>srv_pool := resetStats (srv_pool s)\<rparr>)
        else reply (serializeError ''ERR unknown DEBUG subcommand'') s)"

section \<open>Publish/subscribe commands\<close>

definition push_message :: "string \<Rightarrow> string \<Rightarrow> int \<Rightarrow> string" where
  "push_message kind channel n =
     ''*3'' @ crlf @ serializeBulkString kind @ serializeBulkString channel @ serializeInteger n"

fun subscribe_loop :: "conn option \<Rightarrow> RESPValue list \<Rightarrow> string list \<Rightarrow> Server \<Rightarrow> handler_result" where
  "subscribe_loop c [] out s = Some (True, out, s)"
| "subscribe_loop c (v # vs) out s =
     (if getType v \<noteq> BULK_STRING then Some (False, out, s)
      else case c of
        None \<Rightarrow> None
      | Some conn \<Rightarrow>
          let channel = bulk_of v; (n, s) = subscribeChannel conn channel s
          in subscribe_loop c vs (out @ [push_message ''subscribe'' channel (int n)]) s)"

definition cmdSubscribe :: handler where
  "cmdSubscribe c cmd_array env s =
     (if length cmd_array < 2 then unhandled s else subscribe_loop c (drop 1 cmd_array) [] s)"

fun unsubscribe_loop :: "conn option \<Rightarrow> RESPValue list \<Rightarrow> string list \<Rightarrow> Server \<Rightarrow> handler_result" where
  "unsubscribe_loop c [] out s = Some (True, out, s)"
| "unsubscribe_loop c (v # vs) out s =
     (if getType v \<noteq> BULK_STRING then Some (False, out, s)
      else case c of
        None \<Rightarrow> None
      | Some conn \<Rightarrow>
          let channel = bulk_of v; (n, s) = unsubscribeChannel conn channel s
          in unsubscribe_loop c vs (out @ [push_message ''unsubscribe'' channel (int n)]) s)"

definition cmdUnsubscribe :: handler where
  "cmdUnsubscribe c cmd_array env s =
     (if length cmd_array = 1 then
        (case c of
           None \<Rightarrow> None
         | Some conn \<Rightarrow>
             let (unsubscribed, s) = unsubscribeAllChannels conn s in
             if unsubscribed = []
             then Some (True, [''*3'' @ crlf @ serializeBulkString ''unsubscribe'' @ kNullBulkString @ serializeInteger 0], s)
             else Some (True, map (\<lambda>(ch, n). push_message ''unsubscribe'' ch (int n)) unsubscribed, s))
      else unsubscribe_loop c (drop 1 cmd_array) [] s)"

definition cmdPublish :: handler where
  "cmdPublish c cmd_array env s =
     (if length cmd_array \<noteq> 3 \<or> \<not> require_bulk cmd_array 1 \<or> \<not> require_bulk cmd_array 2 then unhandled s
      else let (n, s) = publishMessage (bulk_value cmd_array 1) (bulk_value cmd_array 2) s
        in reply (serializeInteger n) s)"

section \<open>Keys and strings\<close>

definition cmdSet :: handler where
  "cmdSet c cmd_array env s =
     (if length cmd_array < 3 then unhandled s
      else if \<not> (require_bulk cmd_array 1 \<and> require_bulk cmd_array 2) then unhandled s
      else let (r, s) = api (ApiSet (bulk_value cmd_array 1) (bulk_value cmd_array 2)) s in
        case r of
          None \<Rightarrow> reply kSimpleStringOk s
        | Some r \<Rightarrow>
            if sr_status r = QuotaExceeded then reply (serializeError ''OOM maxmemory'') s
            else reply kSimpleStringOk s)"

definition cmdGet :: handler where
  "cmdGet c cmd_array env s =
     (if length cmd_array < 2 then unhandled s
      else if \<not> require_bulk cmd_array 1 then unhandled s
      else let (r, s) = api (ApiGet (bulk_value cmd_array 1)) s in
        case r of
          None \<Rightarrow> reply kNullBulkString s
        | Some r \<Rightarrow>
            if sr_status r \<noteq> Ok then reply kNullBulkString s
            else (case opt_of_value (sr_value r) of
                None \<Rightarrow> reply kNullBulkString s
              | Some v \<Rightarrow> reply (serializeBulkString v) s))"

definition count_call :: "(string \<Rightarrow> api_call) \<Rightarrow> string \<Rightarrow> int \<times> Server \<Rightarrow> int \<times> Server" where
  "count_call f key x = (case x of (n, s) \<Rightarrow>
     let (r, s) = api (f key) s in
     case r of
       None \<Rightarrow> (n, s)
     | Some r \<Rightarrow> if sr_status r = Ok \<and> int_of_value (sr_value r) > 0 then (n + int_of_value (sr_value r), s) else (n, s))"

definition cmdDel :: handler where
  "cmdDel c cmd_array env s =
     (if length cmd_array < 2 then unhandled s
      else let (n, s) = fold (count_call ApiDel) (bulk_args 1 cmd_array) (0, s) in reply (serializeInteger n) s)"

definition cmdExists :: handler where
  "cmdExists c cmd_array env s =
     (if length cmd_array < 2 then unhandled s
      else let (n, s) = fold (count_call ApiExists) (bulk_args 1 cmd_array) (0, s) in reply (serializeInteger n) s)"

definition cmdKeys :: handler where
  "cmdKeys c cmd_array env s =
     (let (r, s) = api ApiKeys s;
          keys = (case r of None \<Rightarrow> [] | Some r \<Rightarrow> if sr_status r = Ok then strs_of_value (sr_value r) else [])
      in reply (bulk_strings keys) s)"

definition cmdExpire :: handler where
  "cmdExpire c cmd_array env s =
     (if length cmd_array < 3 then unhandled s
      else if getType (cmd_array ! 1) \<noteq> BULK_STRING \<or> getType (cmd_array ! 2) \<noteq> BULK_STRING then unhandled s
      else case stoll (bulk_value cmd_array 2) of
        None \<Rightarrow> reply (serializeError ''Invalid TTL value'') s
      | Some ttl \<Rightarrow>
          if ttl > max_ttl_seconds (srv_config s)
          then reply (serializeError ''ERR TTL exceeds server max_ttl_seconds'') s
          else let (r, s) = api (ApiExpire (bulk_value cmd_array 1) ttl) s in
            case r of
              None \<Rightarrow> reply (serializeInteger 0) s
            | Some r \<Rightarrow> reply (serializeInteger (if sr_status r = Ok then int_of_value (sr_value r) else 0)) s)"

definition cmdTtl :: handler where
  "cmdTtl c cmd_array env s =
     (if length cmd_array < 2 then unhandled s
      else if getType (cmd_array ! 1) \<noteq> BULK_STRING then unhandled s
      else let (r, s) = api (ApiTtl (bulk_value cmd_array 1)) s;
               n = (case r of None \<Rightarrow> -2 | Some r \<Rightarrow> if sr_status r = Ok then int_of_value (sr_value r) else -2)
        in reply (serializeInteger n) s)"

definition cmdPttl :: handler where
  "cmdPttl c cmd_array env s =
     (if length cmd_array < 2 then unhandled s
      else if getType (cmd_array ! 1) \<noteq> BULK_STRING then unhandled s
      else let (r, s) = api (ApiPttl (bulk_value cmd_array 1)) s;
               n = (case r of None \<Rightarrow> -2 | Some r \<Rightarrow> if sr_status r = Ok then int_of_value (sr_value r) else -2)
        in reply (serializeInteger n) s)"

definition cmdPersist :: handler where
  "cmdPersist c cmd_array env s =
     (if length cmd_array < 2 then unhandled s
      else if getType (cmd_array ! 1) \<noteq> BULK_STRING then unhandled s
      else let (r, s) = api (ApiPersist (bulk_value cmd_array 1)) s in
        case r of
          None \<Rightarrow> reply (serializeInteger 0) s
        | Some r \<Rightarrow> reply (serializeInteger (if sr_status r = Ok then int_of_value (sr_value r) else 0)) s)"

section \<open>Lists\<close>

definition cmdLpush :: handler where
  "cmdLpush c cmd_array env s =
     (if length cmd_array < 3 then unhandled s
      else if getType (cmd_array ! 1) \<noteq> BULK_STRING then unhandled s
      else int_reply (api (ApiLpush (bulk_value cmd_array 1) (bulk_args 2 cmd_array)) s))"

definition cmdRpush :: handler where
  "cmdRpush c cmd_array env s =
     (if length cmd_array < 3 then unhandled s
      else if getType (cmd_array ! 1) \<noteq> BULK_STRING then unhandled s
      else int_reply (api (ApiRpush (bulk_value cmd_array 1) (bulk_args 2 cmd_array)) s))"

definition cmdLpop :: handler where
  "cmdLpop c cmd_array env s =
     (if length cmd_array < 2 then unhandled s
      else if getType (cmd_array ! 1) \<noteq> BULK_STRING then unhandled s
      else bulk_reply (api (ApiLpop (bulk_value cmd_array 1)) s))"

definition cmdRpop :: handler where
  "cmdRpop c cmd_array env s =
     (if length cmd_array < 2 then unhandled s
      else if getType (cmd_array ! 1) \<noteq> BULK_STRING then unhandled s
      else bulk_reply (api (ApiRpop (bulk_value cmd_array 1)) s))"

definition cmdLlen :: handler where
  "cmdLlen c cmd_array env s =
     (if length cmd_array < 2 then unhandled s
      else if getType (cmd_array ! 1) \<noteq> BULK_STRING then unhandled s
      else int_reply (api (ApiLlen (bulk_value cmd_array 1)) s))"

definition cmdLindex :: handler where
  "cmdLindex c cmd_array env s =
     (if length cmd_array < 3 then unhandled s
      else if getType (cmd_array ! 1) \<noteq> BULK_STRING \<or> getType (cmd_array ! 2) \<noteq> BULK_STRING then unhandled s
      else case stoll (bulk_value cmd_array 2) of
        None \<Rightarrow> reply (serializeError ''ERR value is not an integer or out of range'') s
      | Some index \<Rightarrow> bulk_reply (api (ApiLindex (bulk_value cmd_array 1) index) s))"

section \<open>Sets\<close>

definition cmdSadd :: handler where
  "cmdSadd c cmd_array env s =
     (if length cmd_array < 3 then unhandled s
      else if getType (cmd_array ! 1) \<noteq> BULK_STRING then unhandled s
      else int_reply (api (ApiSadd (bulk_value cmd_array 1) (bulk_args 2 cmd_array)) s))"

definition cmdSrem :: handler where
  "cmdSrem c cmd_array env s =
     (if length cmd_array < 3 then unhandled s
      else if getType (cmd_array ! 1) \<noteq> BULK_STRING then unhandled s
      else int_reply (api (ApiSrem (bulk_value cmd_array 1) (bulk_args 2 cmd_array)) s))"

definition cmdSmembers :: handler where
  "cmdSmembers c cmd_array env s =
     (if length cmd_array < 2 then unhandled s
      else if getType (cmd_array ! 1) \<noteq> BULK_STRING then unhandled s
      else let (r, s) = api (ApiSmembers (bulk_value cmd_array 1)) s in
        case r of
          None \<Rightarrow> reply (''*0'' @ crlf) s
        | Some r \<Rightarrow>
            if sr_status r = WrongType then reply wrongtype_error s
            else reply (bulk_strings (if sr_status r = Ok then strs_of_value (sr_value r) else [])) s)"

definition cmdScard :: handler where
  "cmdScard c cmd_array env s =
     (if length cmd_array < 2 then unhandled s
      else if getType (cmd_array ! 1) \<noteq> BULK_STRING then unhandled s
      else int_reply (api (ApiScard (bulk_value cmd_array 1)) s))"

definition cmdSismember :: handler where
  "cmdSismember c cmd_array env s =
     (if length cmd_array < 3 then unhandled s
      else if getType (cmd_array ! 1) \<noteq> BULK_STRING \<or> getType (cmd_array ! 2) \<noteq> BULK_STRING then unhandled s
      else int_reply (api (ApiSismember (bulk_value cmd_array 1) (bulk_value cmd_array 2)) s))"

section \<open>Hashes\<close>

definition hset_error :: string where
  "hset_error = serializeError ''ERR wrong number of arguments for 'hset' command''"

text \<open>The loop over the field and value pairs; a pair that is not two bulk strings is skipped.\<close>

fun hset_loop :: "string \<Rightarrow> RESPValue list \<Rightarrow> int \<Rightarrow> Server \<Rightarrow> handler_result" where
  "hset_loop key (f # v # rest) added_total s =
     (if getType f \<noteq> BULK_STRING \<or> getType v \<noteq> BULK_STRING then hset_loop key rest added_total s
      else let (r, s) = api (ApiHset key (bulk_of f) (bulk_of v)) s in
        case r of
          None \<Rightarrow> hset_loop key rest added_total s
        | Some r \<Rightarrow>
            if sr_status r = WrongType then reply wrongtype_error s
            else hset_loop key rest (if sr_status r = Ok then added_total + int_of_value (sr_value r) else added_total) s)"
| "hset_loop key _ added_total s = reply (serializeInteger added_total) s"

definition cmdHset :: handler where
  "cmdHset c cmd_array env s =
     (if length cmd_array < 4 then unhandled s
      else if srv_storage s = None then reply (serializeInteger 0) s
      else if getType (cmd_array ! 1) \<noteq> BULK_STRING then reply hset_error s
      else if (length cmd_array - 2) mod 2 \<noteq> 0 then reply hset_error s
      else hset_loop (bulk_value cmd_array 1) (drop 2 cmd_array) 0 s)"

definition cmdHget :: handler where
  "cmdHget c cmd_array env s =
     (if length cmd_array < 3 then unhandled s
      else if getType (cmd_array ! 1) \<noteq> BULK_STRING \<or> getType (cmd_array ! 2) \<noteq> BULK_STRING then unhandled s
      else bulk_reply (api (ApiHget (bulk_value cmd_array 1) (bulk_value cmd_array 2)) s))"

definition cmdHdel :: handler where
  "cmdHdel c cmd_array env s =
     (if length cmd_array < 3 then unhandled s
      else if getType (cmd_array ! 1) \<noteq> BULK_STRING then unhandled s
      else int_reply (api (ApiHdel (bulk_value cmd_array 1) (bulk_args 2 cmd_array)) s))"

definition cmdHgetall :: handler where
  "cmdHgetall c cmd_array env s =
     (if length cmd_array < 2 then unhandled s
      else if getType (cmd_array ! 1) \<noteq> BULK_STRING then unhandled s
      else let (r, s) = api (ApiHgetall (bulk_value cmd_array 1)) s in
        case r of
          None \<Rightarrow> reply (''*0'' @ crlf) s
        | Some r \<Rightarrow>
            if sr_status r = WrongType then reply wrongtype_error s
            else let kvs = (if sr_status r = Ok then pairs_of_value (sr_value r) else [])
              in reply (bulk_strings (concat (map (\<lambda>(k, v). [k, v]) kvs))) s)"

definition cmdHlen :: handler where
  "cmdHlen c cmd_array env s =
     (if length cmd_array < 2 then unhandled s
      else if getType (cmd_array ! 1) \<noteq> BULK_STRING then unhandled s
      else int_reply (api (ApiHlen (bulk_value cmd_array 1)) s))"

definition cmdHexists :: handler where
  "cmdHexists c cmd_array env s =
     (if length cmd_array < 3 then unhandled s
      else if getType (cmd_array ! 1) \<noteq> BULK_STRING \<or> getType (cmd_array ! 2) \<noteq> BULK_STRING then unhandled s
      else int_reply (api (ApiHexists (bulk_value cmd_array 1) (bulk_value cmd_array 2)) s))"

section \<open>Dispatch\<close>

definition array_cmd_dispatch_table :: "(string \<times> handler) list" where
  "array_cmd_dispatch_table =
     [(''PING'', cmdPing), (''HEALTH'', cmdHealth), (''SNAPSHOT'', cmdSnapshot), (''DBSIZE'', cmdDbsize),
      (''FLUSHALL'', cmdFlushall), (''MONITOR'', cmdMonitor), (''STATS'', cmdStats), (''SUBSCRIBE'', cmdSubscribe),
      (''UNSUBSCRIBE'', cmdUnsubscribe), (''PUBLISH'', cmdPublish), (''SET'', cmdSet), (''GET'', cmdGet),
      (''DEL'', cmdDel), (''EXISTS'', cmdExists), (''DEBUG'', cmdDebug), (''KEYS'', cmdKeys), (''LPUSH'', cmdLpush),
      (''RPUSH'', cmdRpush), (''LPOP'', cmdLpop), (''RPOP'', cmdRpop), (''LLEN'', cmdLlen), (''LINDEX'', cmdLindex),
      (''SADD'', cmdSadd), (''SREM'', cmdSrem), (''SMEMBERS'', cmdSmembers), (''SCARD'', cmdScard),
      (''SISMEMBER'', cmdSismember), (''HSET'', cmdHset), (''HGET'', cmdHget), (''HDEL'', cmdHdel),
      (''HGETALL'', cmdHgetall), (''HLEN'', cmdHlen), (''HEXISTS'', cmdHexists), (''EXPIRE'', cmdExpire),
      (''TTL'', cmdTtl), (''PTTL'', cmdPttl), (''PERSIST'', cmdPersist)]"

definition run_handler :: "conn option \<Rightarrow> string \<Rightarrow> RESPValue list \<Rightarrow> CmdEnv \<Rightarrow> Server \<Rightarrow> handler_result" where
  "run_handler c cmd_name cmd_array env s = (case map_of array_cmd_dispatch_table cmd_name of
      None \<Rightarrow> unhandled s
    | Some h \<Rightarrow> h c cmd_array env s)"

text \<open>On a connection every \<^verbatim>\<open>writeResp\<close> is a send, also when the handler then gives up.\<close>

definition dispatchArrayCommandsLookup ::
  "conn \<Rightarrow> string \<Rightarrow> RESPValue list \<Rightarrow> CmdEnv \<Rightarrow> Server \<Rightarrow> (bool \<times> Server) option" where
  "dispatchArrayCommandsLookup c cmd_name cmd_array env s = (case run_handler (Some c) cmd_name cmd_array env s of
      None \<Rightarrow> None
    | Some (handled, out, s) \<Rightarrow> Some (handled, fold (send c) out s))"

definition executeArrayCommandToResp ::
  "string \<Rightarrow> RESPValue list \<Rightarrow> CmdEnv \<Rightarrow> Server \<Rightarrow> (string \<times> Server) option" where
  "executeArrayCommandToResp cmd_name cmd_array env s = (case run_handler None cmd_name cmd_array env s of
      None \<Rightarrow> None
    | Some (handled, out, s) \<Rightarrow>
        Some (if handled then concat out else serializeError ''ERR unknown command'', s))"

end
