(* ===== verification/Server_Loop.thy ===== *)
theory Server_Loop
  imports Cmd_Dispatch
begin

text \<open>
  The command loop of \<^verbatim>\<open>server/Server.cpp\<close>: transactions, the execution of one command, the message callback, the
  connection callback, the expiry sweep and the shutdown phases. The result \<open>None\<close> of a message is a call that does not
  come back: the parser runs forever, or a null pointer is followed. \<^verbatim>\<open>env i\<close> is what the environment decides for a
  command: \<open>i = 0\<close> for the command itself, \<open>i + 1\<close> for the \<open>i\<close>-th command of a transaction.
\<close>

section \<open>One command\<close>

type_synonym cmd_envs = "nat \<Rightarrow> CmdEnv"

text \<open>How the body of \<^verbatim>\<open>processCommand\<close> ends: it returned (with the error flag), or goes on to the next case.\<close>

datatype CmdOutcome = Returned bool | FallThrough

type_synonym cmd_result = "(CmdOutcome \<times> Server) option"

definition returned :: "conn \<Rightarrow> string \<Rightarrow> bool \<Rightarrow> Server \<Rightarrow> cmd_result" where
  "returned c resp err s = Some (Returned err, send c resp s)"

definition set_ctx :: "conn \<Rightarrow> ConnParseState \<Rightarrow> Server \<Rightarrow> Server" where
  "set_ctx c ctx s = s\<lparr>conn_inbuf := (conn_inbuf s)(c \<mapsto> ctx)\<rparr>"

definition ctx_in_multi :: "conn \<Rightarrow> Server \<Rightarrow> bool" where
  "ctx_in_multi c s = (case conn_inbuf s c of None \<Rightarrow> False | Some ctx \<Rightarrow> in_multi ctx)"

definition ctx_queue :: "conn \<Rightarrow> Server \<Rightarrow> QueuedCommand list" where
  "ctx_queue c s = (case conn_inbuf s c of None \<Rightarrow> [] | Some ctx \<Rightarrow> queued_commands ctx)"

definition set_multi :: "bool \<Rightarrow> QueuedCommand list \<Rightarrow> conn \<Rightarrow> Server \<Rightarrow> Server" where
  "set_multi b qs c s = (case conn_inbuf s c of
      None \<Rightarrow> s
    | Some ctx \<Rightarrow> set_ctx c (ctx\<lparr>in_multi := b, queued_commands := qs\<rparr>) s)"

fun exec_queued :: "cmd_envs \<Rightarrow> nat \<Rightarrow> QueuedCommand list \<Rightarrow> string \<Rightarrow> Server \<Rightarrow> (string \<times> Server) option" where
  "exec_queued env i [] out s = Some (out, s)"
| "exec_queued env i (q # qs) out s = (case executeArrayCommandToResp (qc_name q) (qc_array q) (env i) s of
      None \<Rightarrow> None
    | Some (resp, s) \<Rightarrow> exec_queued env (Suc i) qs (out @ resp) s)"

definition processMulti :: "conn \<Rightarrow> Server \<Rightarrow> cmd_result" where
  "processMulti c s =
     (if ctx_in_multi c s then returned c (serializeError ''ERR MULTI calls can not be nested'') True s
      else returned c kSimpleStringOk False (set_multi True [] c s))"

definition processDiscard :: "conn \<Rightarrow> Server \<Rightarrow> cmd_result" where
  "processDiscard c s =
     (if \<not> ctx_in_multi c s then returned c (serializeError ''ERR DISCARD without MULTI'') True s
      else returned c kSimpleStringOk False (set_multi False [] c s))"

definition processExec :: "conn \<Rightarrow> cmd_envs \<Rightarrow> Server \<Rightarrow> cmd_result" where
  "processExec c env s =
     (if \<not> ctx_in_multi c s then returned c (serializeError ''ERR EXEC without MULTI'') True s
      else case exec_queued env 1 (ctx_queue c s) (''*'' @ nat_to_string (length (ctx_queue c s)) @ crlf) s of
        None \<Rightarrow> None
      | Some (out, s) \<Rightarrow> returned c out False (set_multi False [] c s))"

definition processQueue :: "conn \<Rightarrow> string \<Rightarrow> RESPValue list \<Rightarrow> Server \<Rightarrow> cmd_result" where
  "processQueue c cmd_name cmd_array s =
     returned c (''+QUEUED'' @ crlf) False
       (set_multi True (ctx_queue c s @ [\<lparr>qc_name = cmd_name, qc_array = cmd_array\<rparr>]) c s)"

definition subscribe_mode_allows :: "string \<Rightarrow> bool" where
  "subscribe_mode_allows cmd_name \<longleftrightarrow>
     cmd_name = ''SUBSCRIBE'' \<or> cmd_name = ''UNSUBSCRIBE'' \<or> cmd_name = ''PING'' \<or> cmd_name = ''QUIT''"

definition processNamed :: "conn \<Rightarrow> string \<Rightarrow> RESPValue list \<Rightarrow> cmd_envs \<Rightarrow> Server \<Rightarrow> cmd_result" where
  "processNamed c cmd_name cmd_array env s =
     (if cmd_name = ''WATCH'' \<or> cmd_name = ''UNWATCH''
      then returned c (serializeError ''ERR WATCH/UNWATCH is not supported'') True s
      else if isSubscribeMode c s \<and> \<not> subscribe_mode_allows cmd_name
      then returned c (serializeError ''ERR only SUBSCRIBE/UNSUBSCRIBE/PING/QUIT allowed in this context'') True s
      else if cmd_name = ''QUIT'' then Some (Returned False, forceClose c (send c kSimpleStringOk s))
      else if cmd_name = ''MULTI'' then processMulti c s
      else if cmd_name = ''DISCARD'' then processDiscard c s
      else if cmd_name = ''EXEC'' then processExec c env s
      else if ctx_in_multi c s then processQueue c cmd_name cmd_array s
      else case dispatchArrayCommandsLookup c cmd_name cmd_array (env 0) s of
        None \<Rightarrow> None
      | Some (handled, s) \<Rightarrow> Some (if handled then Returned False else FallThrough, s))"

fun command_array :: "RESPValue \<Rightarrow> RESPValue list" where
  "command_array (RESPArray (Some xs)) = xs"
| "command_array _ = []"

definition command_name :: "RESPValue list \<Rightarrow> string" where
  "command_name cmd_array = map toupper (bulk_of (hd cmd_array))"

definition processArray :: "conn \<Rightarrow> RESPValue \<Rightarrow> cmd_envs \<Rightarrow> Server \<Rightarrow> cmd_result" where
  "processArray c command env s =
     (let cmd_array = command_array command in
      if cmd_array \<noteq> [] \<and> getType (hd cmd_array) = BULK_STRING
      then processNamed c (command_name cmd_array) cmd_array env s
      else Some (FallThrough, s))"

definition processCommand :: "conn \<Rightarrow> RESPValue \<Rightarrow> cmd_envs \<Rightarrow> Server \<Rightarrow> Server option" where
  "processCommand c command env s =
     (case processArray c command env s of
        None \<Rightarrow> None
      | Some (Returned err, s) \<Rightarrow> Some (recordCommandMetrics err (env_latency_us (env 0)) s)
      | Some (FallThrough, s) \<Rightarrow>
          if getType command = SIMPLE_STRING \<and> toString command = ''PING''
          then Some (recordCommandMetrics False (env_latency_us (env 0)) (send c kSimpleStringPong s))
          else Some (recordCommandMetrics True (env_latency_us (env 0)) (send c (serializeError ''ERR unknown command'') s)))"

section \<open>The message callback\<close>

definition max_inbuf :: "Server \<Rightarrow> nat" where
  "max_inbuf s = nat (max 1 (max_conn_input_buffer_mb (srv_config s))) * 1024 * 1024"

definition pendingReadableBytes :: "ConnParseState \<Rightarrow> nat" where
  "pendingReadableBytes ctx = length (pending_input ctx) - pending_offset ctx"

definition overflow_close :: "conn \<Rightarrow> Server \<Rightarrow> Server" where
  "overflow_close c s = forceClose c (send c (serializeError ''Input buffer overflow'') s)"

definition count_command :: "Server \<Rightarrow> Server" where
  "count_command = upd_stats (\<lambda>t. t\<lparr>total_commands := total_commands t + 1, total_operations := total_operations t + 1\<rparr>)"

definition reset_conn_parser :: "conn \<Rightarrow> Server \<Rightarrow> Server" where
  "reset_conn_parser c s = (case conn_inbuf s c of
      None \<Rightarrow> s
    | Some ctx \<Rightarrow> set_ctx c (ctx\<lparr>conn_parser := parser_reset (conn_parser ctx)\<rparr>) s)"

text \<open>
  One round of the loop over the pending input: it ends the loop (the flag says whether without an
  early return), or the loop goes on.
\<close>

datatype LoopStep = LoopStop bool Server | LoopNext Server

definition message_step :: "(nat \<Rightarrow> cmd_envs) \<Rightarrow> conn \<Rightarrow> Server \<Rightarrow> LoopStep option" where
  "message_step env c s = (case conn_inbuf s c of
      None \<Rightarrow> Some (LoopStop True s)
    | Some ctx \<Rightarrow>
        if \<not> pending_offset ctx < length (pending_input ctx) then Some (LoopStop True s)
        else case parse (drop (pending_offset ctx) (pending_input ctx)) (conn_parser ctx) of
          None \<Rightarrow> None
        | Some (result, p) \<Rightarrow>
            if \<not> pr_success result
            then Some (LoopStop False (send c (serializeError (''Invalid RESP format: '' @ pr_error result))
                                         (set_ctx c (ctx\<lparr>conn_parser := p\<rparr>) s)))
            else let consumed = pr_processed result - processed_bytes (conn_parser ctx);
                     s = set_ctx c (ctx\<lparr>conn_parser := p, pending_offset := pending_offset ctx + consumed\<rparr>) s in
              case (if pr_complete result then pr_value result else None) of
                Some command \<Rightarrow>
                  (case processCommand c command (env (total_commands (srv_stats s))) s of
                     None \<Rightarrow> None
                   | Some s \<Rightarrow> Some (LoopNext (reset_conn_parser c (count_command s))))
              | None \<Rightarrow>
                  if \<not> pr_complete result then Some (LoopStop True s)
                  else if consumed = 0
                  then Some (LoopStop False (send c (serializeError ''Invalid RESP format: parser made no progress'') s))
                  else Some (LoopNext s))"

partial_function (option) message_loop :: "(nat \<Rightarrow> cmd_envs) \<Rightarrow> conn \<Rightarrow> Server \<Rightarrow> (bool \<times> Server) option" where
  "message_loop env c s = (case message_step env c s of
      None \<Rightarrow> None
    | Some (LoopStop b s) \<Rightarrow> Some (b, s)
    | Some (LoopNext s) \<Rightarrow> message_loop env c s)"

declare message_loop.simps [code]

definition kCompactMinBytes :: nat where
  "kCompactMinBytes = 4 * 1024"

definition compact_input :: "ConnParseState \<Rightarrow> ConnParseState" where
  "compact_input ctx =
     (if pending_offset ctx \<ge> length (pending_input ctx) then ctx\<lparr>pending_input := [], pending_offset := 0\<rparr>
      else if pending_offset ctx \<ge> kCompactMinBytes \<and> pending_offset ctx * 2 \<ge> length (pending_input ctx)
      then ctx\<lparr>pending_input := drop (pending_offset ctx) (pending_input ctx), pending_offset := 0\<rparr>
      else ctx)"

definition message_end :: "conn \<Rightarrow> Server \<Rightarrow> Server" where
  "message_end c s = (case conn_inbuf s c of
      None \<Rightarrow> s
    | Some ctx \<Rightarrow>
        let ctx = compact_input ctx; s = set_ctx c ctx s in
        if pendingReadableBytes ctx > max_inbuf s then overflow_close c s
        else updateMaxInputBufferBytes (pendingReadableBytes ctx) s)"

definition onMessage :: "(nat \<Rightarrow> cmd_envs) \<Rightarrow> conn \<Rightarrow> string \<Rightarrow> Server \<Rightarrow> Server option" where
  "onMessage env c chunk s =
     (let ctx = (case conn_inbuf s c of None \<Rightarrow> new_ConnParseState | Some ctx \<Rightarrow> ctx);
          ctx = ctx\<lparr>pending_input := pending_input ctx @ chunk\<rparr>; s = set_ctx c ctx s in
      if pendingReadableBytes ctx > max_inbuf s then Some (overflow_close c s)
      else case message_loop env c (updateMaxInputBufferBytes (pendingReadableBytes ctx) s) of
        None \<Rightarrow> None
      | Some (False, s) \<Rightarrow> Some s
      | Some (True, s) \<Rightarrow> Some (message_end c s))"

section \<open>Connections and the expiry sweep\<close>

text \<open>The connection callback runs when a connection is established and when it is closed.\<close>

definition onConnection :: "conn \<Rightarrow> Server \<Rightarrow> Server" where
  "onConnection c s =
     (if c \<in> set (srv_connected s)
      then upd_stats (\<lambda>t. t\<lparr>total_connections := total_connections t + 1, current_connections := current_connections t + 1\<rparr>) s
      else clearSubscriptionsForConnection c
             (upd_stats (\<lambda>t. if current_connections t > 0 then t\<lparr>current_connections := current_connections t - 1\<rparr> else t) s))"

definition sweep_key :: "string \<Rightarrow> Server \<Rightarrow> Server" where
  "sweep_key key s = (let (r, s) = api (ApiPttl key) s in
     case r of
       None \<Rightarrow> s
     | Some r \<Rightarrow> if sr_status r = Ok \<and> int_of_value (sr_value r) = -2
         then upd_stats (\<lambda>t. t\<lparr>expired_keys_cleaned := expired_keys_cleaned t + 1\<rparr>) s else s)"

definition cleanupExpiredKeys :: "Server \<Rightarrow> Server" where
  "cleanupExpiredKeys s = (let (r, s) = api ApiKeys s in
     case r of
       None \<Rightarrow> s
     | Some r \<Rightarrow> if sr_status r \<noteq> Ok then s else fold sweep_key (strs_of_value (sr_value r)) s)"

end
