(* ===== verification/Server_Frame.thy ===== *)
theory Server_Frame
  imports Server_Loop
begin

text \<open>
  What command handlers depend on and what they change. A transformation of the server state that
  leaves alone the fields the data commands use commutes with every data command (locale
  \<open>data_frame\<close>); one that also respects statistics, connections and subscriptions commutes with every
  command (locale \<open>command_frame\<close>). Both are used on concrete transformations: dropping everything
  but the data, and dropping the input that waits to be parsed.
\<close>

section \<open>Data commands\<close>

definition server_commands :: "string list" where
  "server_commands = [''STATS'', ''MONITOR'', ''DEBUG'', ''SUBSCRIBE'', ''UNSUBSCRIBE'', ''PUBLISH'']"

definition data_table :: "(string \<times> handler) list" where
  "data_table = filter (\<lambda>(name, h). name \<notin> set server_commands) array_cmd_dispatch_table"

lemmas data_handler_defs =
  cmdPing_def cmdHealth_def cmdSnapshot_def cmdDbsize_def cmdFlushall_def cmdSet_def cmdGet_def cmdDel_def cmdExists_def
  cmdKeys_def cmdLpush_def cmdRpush_def cmdLpop_def cmdRpop_def cmdLlen_def cmdLindex_def cmdSadd_def cmdSrem_def
  cmdSmembers_def cmdScard_def cmdSismember_def cmdHset_def cmdHget_def cmdHdel_def cmdHgetall_def cmdHlen_def
  cmdHexists_def cmdExpire_def cmdTtl_def cmdPttl_def cmdPersist_def

lemma data_table_set: "set (map snd data_table) = {cmdPing, cmdHealth, cmdSnapshot, cmdDbsize, cmdFlushall, cmdSet, cmdGet,
    cmdDel, cmdExists, cmdKeys, cmdLpush, cmdRpush, cmdLpop, cmdRpop, cmdLlen, cmdLindex, cmdSadd, cmdSrem, cmdSmembers,
    cmdScard, cmdSismember, cmdHset, cmdHget, cmdHdel, cmdHgetall, cmdHlen, cmdHexists, cmdExpire, cmdTtl, cmdPttl, cmdPersist}"
  by (simp add: data_table_def array_cmd_dispatch_table_def server_commands_def)

definition map_server :: "(Server \<Rightarrow> Server) \<Rightarrow> handler_result \<Rightarrow> handler_result" where
  "map_server F = map_option (\<lambda>(b, out, s). (b, out, F s))"

lemma map_server_simps [simp]:
  "map_server F None = None" "map_server F (Some (b, out, s)) = Some (b, out, F s)"
  "map_server F (unhandled s) = unhandled (F s)" "map_server F (reply r s) = reply r (F s)"
  by (simp_all add: map_server_def unhandled_def reply_def)

section \<open>Transformations that respect the data\<close>

locale data_frame =
  fixes F :: "Server \<Rightarrow> Server"
  assumes F_gets [simp]: "srv_storage (F s) = srv_storage s" "srv_snap (F s) = srv_snap s" "srv_config (F s) = srv_config s"
      "srv_running (F s) = srv_running s" "srv_stopping (F s) = srv_stopping s"
    and F_set_storage [simp]: "(F s)\<lparr>srv_storage := st\<rparr> = F (s\<lparr>srv_storage := st\<rparr>)"
    and F_set_snap [simp]: "(F s)\<lparr>srv_snap := fs\<rparr> = F (s\<lparr>srv_snap := fs\<rparr>)"
begin

lemma api_F [simp]: "api c (F s) = apsnd F (api c s)"
  by (simp add: api_def split_beta split: option.split)

lemma snapshot_F [simp]: "create_multi_type_snapshot env (F s) = apsnd F (create_multi_type_snapshot env s)"
  by (simp add: create_multi_type_snapshot_def split_beta split: option.split)

lemma reply_F [simp]: "int_reply (apsnd F x) = map_server F (int_reply x)" "bulk_reply (apsnd F x) = map_server F (bulk_reply x)"
  by (cases x; simp add: int_reply_def bulk_reply_def split: option.split)+

lemma count_F [simp]: "fold (count_call f) keys (n, F s) = apsnd F (fold (count_call f) keys (n, s))"
proof (induction keys arbitrary: n s)
  case (Cons k ks)
  have "count_call f k (n, F s) = apsnd F (count_call f k (n, s))"
    by (simp add: count_call_def split_beta split: option.split)
  with Cons show ?case by (metis fold_simps(2) apsnd_conv surj_pair)
qed simp

lemma hset_F [simp]: "hset_loop k vs n (F s) = map_server F (hset_loop k vs n s)"
  by (induction vs arbitrary: n s rule: induct_list012) (simp_all add: split_beta split: option.split)

lemma data_handler_F: "h \<in> set (map snd data_table) \<Longrightarrow> h c a env (F s) = map_server F (h c a env s)"
  unfolding data_table_set
  by (elim insertE emptyE; simp add: data_handler_defs Let_def split_beta split: option.split)

end

section \<open>Transformations that respect everything but the input\<close>

lemmas server_handler_defs = cmdStats_def cmdMonitor_def cmdDebug_def cmdSubscribe_def cmdUnsubscribe_def cmdPublish_def

lemma command_table_set: "set (map snd array_cmd_dispatch_table) =
    set (map snd data_table) \<union> {cmdStats, cmdMonitor, cmdDebug, cmdSubscribe, cmdUnsubscribe, cmdPublish}"
  unfolding data_table_set by (simp add: array_cmd_dispatch_table_def insert_commute)

locale command_frame = data_frame +
  assumes F_views [simp]: "srv_stats (F s) = srv_stats s" "srv_pool (F s) = srv_pool s" "srv_connected (F s) = srv_connected s"
      "channel_subscribers (F s) = channel_subscribers s" "srv_out (F s) = srv_out s"
    and F_set_stats [simp]: "(F s)\<lparr>srv_stats := t\<rparr> = F (s\<lparr>srv_stats := t\<rparr>)"
    and F_set_pool [simp]: "(F s)\<lparr>srv_pool := p\<rparr> = F (s\<lparr>srv_pool := p\<rparr>)"
    and F_set_connected [simp]: "(F s)\<lparr>srv_connected := cs\<rparr> = F (s\<lparr>srv_connected := cs\<rparr>)"
    and F_set_out [simp]: "(F s)\<lparr>srv_out := evs\<rparr> = F (s\<lparr>srv_out := evs\<rparr>)"
    and F_ctx [simp]: "isSubscribeMode c (F s) = isSubscribeMode c s" "ctx_in_multi c (F s) = ctx_in_multi c s"
      "ctx_queue c (F s) = ctx_queue c s"
    and F_set_multi [simp]: "set_multi b qs c (F s) = F (set_multi b qs c s)"
    and F_subscribe [simp]: "subscribeChannel c ch (F s) = apsnd F (subscribeChannel c ch s)"
    and F_unsubscribe [simp]: "unsubscribeChannel c ch (F s) = apsnd F (unsubscribeChannel c ch s)"
      "unsubscribeAllChannels c (F s) = apsnd F (unsubscribeAllChannels c s)"
begin

lemma send_F [simp]: "send c d (F s) = F (send c d s)" "fold (send c) ds (F s) = F (fold (send c) ds s)"
proof -
  show 1: "send c d (F s) = F (send c d s)" for d s by (simp add: send_def)
  show "fold (send c) ds (F s) = F (fold (send c) ds s)" by (induction ds arbitrary: s) (simp_all add: 1)
qed

lemma stats_F [simp]: "upd_stats f (F s) = F (upd_stats f s)" "forceClose c (F s) = F (forceClose c s)"
    "recordCommandMetrics err us (F s) = F (recordCommandMetrics err us s)" "count_command (F s) = F (count_command s)"
  by (simp_all add: upd_stats_def forceClose_def recordCommandMetrics_def count_command_def)

lemma report_F [simp]: "buildStatsReport env (F s) = apsnd F (buildStatsReport env s)"
  by (simp add: buildStatsReport_def split_beta Let_def)

lemma publish_F [simp]: "publishMessage ch msg (F s) = apsnd F (publishMessage ch msg s)"
proof -
  have "fold (\<lambda>c. send c m) cs (F s) = F (fold (\<lambda>c. send c m) cs s)" for m cs s
    by (induction cs arbitrary: s) simp_all
  then show ?thesis by (simp add: publishMessage_def Let_def split: option.split)
qed

lemma loops_F [simp]: "subscribe_loop c vs out (F s) = map_server F (subscribe_loop c vs out s)"
    "unsubscribe_loop c vs out (F s) = map_server F (unsubscribe_loop c vs out s)"
  by (induction vs arbitrary: out s; cases c; simp add: split_beta Let_def)+

lemma handler_F: "h \<in> set (map snd array_cmd_dispatch_table) \<Longrightarrow> h c a env (F s) = map_server F (h c a env s)"
  unfolding command_table_set
  by (elim UnE insertE emptyE; simp add: data_handler_F server_handler_defs Let_def split_beta split: option.split)

lemma run_handler_F [simp]: "run_handler c name a env (F s) = map_server F (run_handler c name a env s)"
  using map_of_SomeD [of array_cmd_dispatch_table name]
  by (auto simp: run_handler_def image_iff intro!: handler_F split: option.split) force

lemma dispatch_F [simp]:
  "dispatchArrayCommandsLookup c name a env (F s) = map_option (apsnd F) (dispatchArrayCommandsLookup c name a env s)"
  "executeArrayCommandToResp name a env (F s) = map_option (apsnd F) (executeArrayCommandToResp name a env s)"
  by (simp_all add: dispatchArrayCommandsLookup_def executeArrayCommandToResp_def split: option.split)

lemma exec_F [simp]: "exec_queued env i qs out (F s) = map_option (apsnd F) (exec_queued env i qs out s)"
  by (induction qs arbitrary: i out s) (simp_all split: option.split)

lemma processCommand_F: "processCommand c cmd env (F s) = map_option F (processCommand c cmd env s)"
proof -
  have "processNamed c name a env (F s) = map_option (apsnd F) (processNamed c name a env s)" for name a
    by (simp add: processNamed_def returned_def processMulti_def processDiscard_def processExec_def processQueue_def
        split: option.split)
  then show ?thesis by (auto simp: processCommand_def processArray_def Let_def split: option.split CmdOutcome.split)
qed

end

section \<open>The transformations\<close>

text \<open>Only the data is left.\<close>

definition no_stats :: ServerStats where
  "no_stats = \<lparr>total_connections = 0, current_connections = 0, total_commands = 0, total_command_errors = 0,
     total_slow_commands = 0, total_command_latency_us = 0, max_command_latency_us = 0, expired_keys_cleaned = 0,
     total_operations = 0, max_conn_input_buffer_bytes = 0, output_buffer_peak_bytes = 0, pubsub_channel_count = 0,
     pubsub_subscription_count = 0, pubsub_publish_total = 0, pubsub_delivered_total = 0\<rparr>"

definition core :: "Server \<Rightarrow> Server" where
  "core s = s\<lparr>conn_inbuf := Map.empty, channel_subscribers := [], srv_connected := [], srv_out := [],
     srv_stats := no_stats, srv_pool := new_BufferPool\<rparr>"

interpretation core: data_frame core
  by unfold_locales (simp_all add: core_def)

text \<open>The waiting input of one connection is replaced.\<close>

definition set_input :: "string \<Rightarrow> nat \<Rightarrow> RESPParser \<Rightarrow> ConnParseState \<Rightarrow> ConnParseState" where
  "set_input inp off p ctx = ctx\<lparr>pending_input := inp, pending_offset := off, conn_parser := p\<rparr>"

lemma set_input_simps [simp]:
  "in_multi (set_input inp off p ctx) = in_multi ctx" "queued_commands (set_input inp off p ctx) = queued_commands ctx"
  "subscribed_channels (set_input inp off p ctx) = subscribed_channels ctx"
  "pending_input (set_input inp off p ctx) = inp" "pending_offset (set_input inp off p ctx) = off"
  "conn_parser (set_input inp off p ctx) = p"
  "(set_input inp off p ctx)\<lparr>in_multi := b\<rparr> = set_input inp off p (ctx\<lparr>in_multi := b\<rparr>)"
  "(set_input inp off p ctx)\<lparr>queued_commands := qs\<rparr> = set_input inp off p (ctx\<lparr>queued_commands := qs\<rparr>)"
  "(set_input inp off p ctx)\<lparr>subscribed_channels := chs\<rparr> = set_input inp off p (ctx\<lparr>subscribed_channels := chs\<rparr>)"
  "set_input inp off p (set_input inp' off' p' ctx) = set_input inp off p ctx"
  by (simp_all add: set_input_def)

definition put_input :: "conn \<Rightarrow> string \<Rightarrow> nat \<Rightarrow> RESPParser \<Rightarrow> Server \<Rightarrow> Server" where
  "put_input c inp off p s = s\<lparr>conn_inbuf := (conn_inbuf s)(c := map_option (set_input inp off p) (conn_inbuf s c))\<rparr>"

lemma put_input_inbuf [simp]:
  "conn_inbuf (put_input c inp off p s) = (conn_inbuf s)(c := map_option (set_input inp off p) (conn_inbuf s c))"
  by (simp add: put_input_def)

interpretation input: command_frame "put_input c inp off p"
proof unfold_locales
  fix s c' ch b qs
  let ?F = "put_input c inp off p"
  note defs = put_input_def refreshPubSubStatsLocked_def upd_stats_def fun_upd_twist [of c' c]
  show "set_multi b qs c' (?F s) = ?F (set_multi b qs c' s)"
    by (auto simp: set_multi_def set_ctx_def defs split: option.split)
  show "subscribeChannel c' ch (?F s) = apsnd ?F (subscribeChannel c' ch s)"
    by (auto simp: subscribeChannel_def subscribers_def defs Let_def split: option.split)
  show "unsubscribeChannel c' ch (?F s) = apsnd ?F (unsubscribeChannel c' ch s)"
    by (auto simp: unsubscribeChannel_def defs Let_def split: option.split)
  show "unsubscribeAllChannels c' (?F s) = apsnd ?F (unsubscribeAllChannels c' s)"
    by (auto simp: unsubscribeAllChannels_def defs Let_def split: option.split)
qed (auto simp: put_input_def isSubscribeMode_def ctx_in_multi_def ctx_queue_def split: option.split)

end
