(* ===== verification/Server_Effects.thy ===== *)
theory Server_Effects
  imports Server_Frame Resp_Lemmas
begin

text \<open>
  The effects of commands: what a data command changes, and the shape of its reply. The storage moves by
  storage calls, by \<^verbatim>\<open>FLUSHALL\<close> and by the expiry in a snapshot run (\<open>storage_steps\<close>); all else stays.
\<close>

section \<open>Storage steps\<close>

definition snapshot_storage :: "Storage \<Rightarrow> Storage" where
  "snapshot_storage st = st\<lparr>st_engine := snd (dumpAllLiveRecords (st_engine st))\<rparr>"

inductive storage_steps :: "Storage \<Rightarrow> Storage \<Rightarrow> bool" where
  done_steps: "storage_steps st st"
| call_step: "storage_steps st st' \<Longrightarrow> storage_steps st (snd (storage_call c st'))"
| flushall_step: "storage_steps st st' \<Longrightarrow> storage_steps st (flushall_storage st')"
| snapshot_step: "storage_steps st st' \<Longrightarrow> storage_steps st (snapshot_storage st')"

lemma storage_steps_trans: "storage_steps st' st'' \<Longrightarrow> storage_steps st st' \<Longrightarrow> storage_steps st st''"
  by (induction rule: storage_steps.induct) (auto intro: storage_steps.intros)

section \<open>Effects\<close>

definition effect :: "Server \<Rightarrow> Server \<Rightarrow> bool" where
  "effect s s' \<longleftrightarrow> s' = s\<lparr>srv_storage := srv_storage s', srv_snap := srv_snap s'\<rparr> \<and>
     rel_option storage_steps (srv_storage s) (srv_storage s')"

lemma effect_refl [simp]: "effect s s"
  by (simp add: effect_def option.rel_refl done_steps)

lemma effect_trans: "effect s s' \<Longrightarrow> effect s' s'' \<Longrightarrow> effect s s''"
proof -
  assume a: "effect s s'" "effect s' s''"
  have "rel_option storage_steps (srv_storage s) (srv_storage s'')"
    using a unfolding effect_def by (auto elim!: option.rel_cases intro: storage_steps_trans)
  moreover have "s'' = s\<lparr>srv_storage := srv_storage s'', srv_snap := srv_snap s''\<rparr>"
  proof -
    have "s'' = s'\<lparr>srv_storage := srv_storage s'', srv_snap := srv_snap s''\<rparr>" using a(2) by (simp add: effect_def)
    also have "\<dots> = s\<lparr>srv_storage := srv_storage s'', srv_snap := srv_snap s''\<rparr>"
      using a(1) unfolding effect_def by (cases s') simp
    finally show ?thesis .
  qed
  ultimately show ?thesis by (simp add: effect_def)
qed

lemma effect_storage: "srv_storage s = Some st \<Longrightarrow> storage_steps st st' \<Longrightarrow> effect s (s\<lparr>srv_storage := Some st'\<rparr>)"
  by (simp add: effect_def)

lemma effect_api [simp]: "effect s (snd (api c s))"
  by (auto simp: api_def split_beta intro!: effect_storage call_step done_steps split: option.split)

lemma effect_snapshot [simp]: "effect s (snd (create_multi_type_snapshot env s))"
proof (cases "srv_storage s")
  case (Some st)
  have "storage_steps st (snapshot_storage st)" by (intro snapshot_step done_steps)
  with Some show ?thesis
    by (simp add: create_multi_type_snapshot_def takeSnapshotNow_def split_beta effect_def snapshot_storage_def)
qed (simp add: create_multi_type_snapshot_def)

lemma effect_count [simp]: "effect s (snd (fold (count_call f) keys (n, s)))"
proof (induction keys arbitrary: n s)
  case (Cons k ks)
  have "snd (count_call f k (n, s)) = snd (api (f k) s)"
    by (simp add: count_call_def split_beta split: option.split)
  then have "effect s (snd (count_call f k (n, s)))" by simp
  with Cons show ?case by (metis fold_simps(2) effect_trans prod.collapse)
qed simp

section \<open>Replies\<close>

declare serialize_simps [simp del]

text \<open>Values whose encoding can be read back: no line of them contains a line end.\<close>

fun wire_ok :: "RESPValue \<Rightarrow> bool" where
  "wire_ok (RESPSimpleString s) = (crlf_index s = None)"
| "wire_ok (RESPError s) = (crlf_index s = None)"
| "wire_ok (RESPInteger i) = True"
| "wire_ok (RESPBulkString b) = True"
| "wire_ok (RESPArray None) = True"
| "wire_ok (RESPArray (Some vs)) = list_all wire_ok vs"

definition is_reply :: "string \<Rightarrow> bool" where
  "is_reply r \<longleftrightarrow> (\<exists>v. wire_ok v \<and> r = encode v)"

lemma is_reply_encode: "wire_ok v \<Longrightarrow> is_reply (encode v)"
  by (auto simp: is_reply_def)

lemma nat_to_string_0: "nat_to_string 0 = ''0''"
  by code_simp

lemma is_reply_simps [simp]:
  "is_reply (serializeInteger i)" "is_reply (serializeBulkString b)" "is_reply kNullBulkString"
  "is_reply kSimpleStringOk" "is_reply kSimpleStringPong" "is_reply (CHR ''*'' # CHR ''0'' # crlf)"
  "is_reply wrongtype_error" "is_reply hset_error"
  "crlf_index e = None \<Longrightarrow> is_reply (serializeError e)"
proof -
  show e: "is_reply (serializeError e)" if "crlf_index e = None" for e
    using is_reply_encode [of "RESPError e"] that by (simp add: serialize_simps)
  show "is_reply wrongtype_error" "is_reply hset_error" unfolding wrongtype_error_def hset_error_def by (rule e; simp)+
  show "is_reply (serializeInteger i)" "is_reply (serializeBulkString b)" "is_reply kNullBulkString"
    using is_reply_encode [of "RESPInteger i"] is_reply_encode [of "RESPBulkString (Some b)"] is_reply_encode [of "RESPBulkString None"]
    by (simp_all add: serialize_simps kNullBulkString_def)
  show "is_reply kSimpleStringOk" "is_reply kSimpleStringPong" "is_reply (CHR ''*'' # CHR ''0'' # crlf)"
    using is_reply_encode [of "RESPSimpleString ''OK''"] is_reply_encode [of "RESPSimpleString ''PONG''"] is_reply_encode [of "RESPArray (Some [])"]
    by (simp_all add: kSimpleStringOk_def kSimpleStringPong_def nat_to_string_0)
qed

lemma is_reply_bulk_strings [simp]: "is_reply (bulk_strings xs)"
proof -
  have "bulk_strings xs = encode (RESPArray (Some (map (\<lambda>x. RESPBulkString (Some x)) xs)))"
    by (simp add: bulk_strings_def comp_def)
  moreover have "wire_ok (RESPArray (Some (map (\<lambda>x. RESPBulkString (Some x)) xs)))" by (simp add: list_all_iff)
  ultimately show ?thesis by (metis is_reply_encode)
qed

text \<open>A handler's result: it returns, it has the effect above, and a handled command has one reply.\<close>

definition data_result :: "Server \<Rightarrow> handler_result \<Rightarrow> bool" where
  "data_result s r \<longleftrightarrow> (\<exists>b out s'. r = Some (b, out, s') \<and> effect s s' \<and>
     (if b then \<exists>resp. out = [resp] \<and> is_reply resp else out = []))"

lemma data_result_unhandled [simp]: "data_result s (unhandled s)"
  by (auto simp: data_result_def unhandled_def)

lemma data_result_reply [simp]: "effect s s' \<Longrightarrow> is_reply resp \<Longrightarrow> data_result s (reply resp s')"
  by (auto simp: data_result_def reply_def)

lemma data_result_api [simp]: "data_result s (int_reply (api c s))" "data_result s (bulk_reply (api c s))"
  by (simp_all add: int_reply_def bulk_reply_def split_beta split: option.split)

lemma data_result_hset [simp]: "effect s0 s \<Longrightarrow> data_result s0 (hset_loop k vs n s)"
proof (induction vs arbitrary: n s rule: induct_list012)
  case (3 f v vs)
  have "effect s0 (snd (api c s))" for c using effect_trans [OF 3(3)] by simp
  with 3 show ?case by (simp add: split_beta split: option.split)
qed simp_all

lemma data_handler_result: "h \<in> set (map snd data_table) \<Longrightarrow> data_result s (h c a env s)"
proof -
  have f: "data_result s (cmdFlushall c a env s)"
    by (auto simp: cmdFlushall_def intro!: data_result_reply effect_storage flushall_step done_steps split: option.split)
  have d: "effect s s' \<Longrightarrow> data_result s (reply (serializeInteger n) s')" for s' n by simp
  assume "h \<in> set (map snd data_table)"
  then show ?thesis
    unfolding data_table_set
    by (elim insertE emptyE; (simp only: f)?; simp add: data_handler_defs Let_def split_beta split: option.split)
qed

end
