(* ===== verification/Server_Inv.thy ===== *)
theory Server_Inv
  imports Server_Effects
begin

text \<open>
  Invariants of the running server. The locale \<open>command_inv\<close> lists what a predicate on the server must
  survive to be kept by every handler, command and message; \<open>server_inv\<close> adds the closing of a connection, and
  the predicate then holds in every reachable state.
\<close>

section \<open>Runs of the server\<close>

definition new_Server :: "ServerConfig \<Rightarrow> Storage option \<Rightarrow> SnapFiles \<Rightarrow> BufferPool \<Rightarrow> Server" where
  "new_Server cfg st fs pool = \<lparr>srv_config = cfg, srv_storage = st, srv_snap = fs, conn_inbuf = Map.empty, channel_subscribers = [],
     srv_running = True, srv_stopping = False, srv_connected = [], srv_out = [], srv_stats = no_stats, srv_pool = pool\<rparr>"

text \<open>
  The events: a connection is accepted under a name not in use, data arrives, a connection is closed, the
  expiry thread makes a sweep. A call that does not come back is no step.
\<close>

inductive server_step :: "Server \<Rightarrow> Server \<Rightarrow> bool" where
  accept: "c \<notin> set (srv_connected s) \<Longrightarrow> conn_inbuf s c = None \<Longrightarrow>
    server_step s (onConnection c (s\<lparr>srv_connected := c # srv_connected s\<rparr>))"
| message: "onMessage env c chunk s = Some s' \<Longrightarrow> server_step s s'"
| close: "server_step s (onConnection c (s\<lparr>srv_connected := filter (\<lambda>c'. c' \<noteq> c) (srv_connected s)\<rparr>))"
| sweep: "server_step s (cleanupExpiredKeys s)"

inductive server_reach :: "Server \<Rightarrow> Server \<Rightarrow> bool" where
  start_reach: "server_reach s s"
| step_reach: "server_reach s s' \<Longrightarrow> server_step s' s'' \<Longrightarrow> server_reach s s''"

inductive_cases server_stepE: "server_step s s'"

section \<open>The locale\<close>

definition keeps_pubsub_counts :: "(ServerStats \<Rightarrow> ServerStats) \<Rightarrow> bool" where
  "keeps_pubsub_counts f \<longleftrightarrow> (\<forall>t. pubsub_channel_count (f t) = pubsub_channel_count t \<and>
     pubsub_subscription_count (f t) = pubsub_subscription_count t)"

locale command_inv =
  fixes I :: "Server \<Rightarrow> bool"
  assumes inv_effect: "effect s s' \<Longrightarrow> I s \<Longrightarrow> I s'"
    and inv_stats: "keeps_pubsub_counts f \<Longrightarrow> I s \<Longrightarrow> I (upd_stats f s)"
    and inv_net: "I s \<Longrightarrow> I (s\<lparr>srv_pool := p\<rparr>)" "I s \<Longrightarrow> I (s\<lparr>srv_out := evs\<rparr>)" "I s \<Longrightarrow> I (s\<lparr>srv_connected := cs\<rparr>)"
    and inv_ctx: "I s \<Longrightarrow> (case conn_inbuf s c of None \<Rightarrow> [] | Some ctx0 \<Rightarrow> subscribed_channels ctx0) = subscribed_channels ctx
      \<Longrightarrow> I (set_ctx c ctx s)"
    and inv_subscribe: "I s \<Longrightarrow> I (snd (subscribeChannel c ch s))"
    and inv_unsubscribe: "I s \<Longrightarrow> I (snd (unsubscribeChannel c ch s))" "I s \<Longrightarrow> I (snd (unsubscribeAllChannels c s))"
begin

lemma inv_send: "I s \<Longrightarrow> I (send c d s)" "I s \<Longrightarrow> I (fold (send c) ds s)" "I s \<Longrightarrow> I (fold (\<lambda>c. send c d) cs s)"
proof -
  have 1: "I s \<Longrightarrow> I (send c d s)" for c d s by (simp add: send_def inv_net)
  then show "I s \<Longrightarrow> I (send c d s)" .
  show "I s \<Longrightarrow> I (fold (send c) ds s)" by (induction ds arbitrary: s) (simp_all add: 1)
  show "I s \<Longrightarrow> I (fold (\<lambda>c. send c d) cs s)" by (induction cs arbitrary: s) (simp_all add: 1)
qed

lemma inv_close: "I s \<Longrightarrow> I (forceClose c s)"
proof -
  assume "I s"
  from inv_net(2) [OF inv_net(3) [OF this]] show ?thesis by (simp add: forceClose_def)
qed

lemma inv_counters: "I s \<Longrightarrow> I (recordCommandMetrics err us s)" "I s \<Longrightarrow> I (count_command s)"
    "I s \<Longrightarrow> I (updateMaxInputBufferBytes n s)"
  unfolding recordCommandMetrics_def count_command_def updateMaxInputBufferBytes_def Let_def
  by (rule inv_stats; simp add: keeps_pubsub_counts_def)+

lemma inv_report: "I s \<Longrightarrow> I (snd (buildStatsReport env s))"
  using inv_effect [OF effect_api, of s] by (simp add: buildStatsReport_def Let_def split_beta)

lemma inv_publish: "I s \<Longrightarrow> I (snd (publishMessage ch msg s))"
  by (auto simp: publishMessage_def Let_def keeps_pubsub_counts_def intro!: inv_stats inv_send split: option.split)

lemma inv_loops: "I s \<Longrightarrow> subscribe_loop c vs out s = Some (b, out', s') \<Longrightarrow> I s'"
    "I s \<Longrightarrow> unsubscribe_loop c vs out s = Some (b, out', s') \<Longrightarrow> I s'"
proof -
  show "I s \<Longrightarrow> subscribe_loop c vs out s = Some (b, out', s') \<Longrightarrow> I s'"
  proof (induction vs arbitrary: out s)
    case (Cons v vs)
    with inv_subscribe [OF Cons.prems(1)] show ?case by (fastforce simp: split_beta Let_def split: if_splits option.splits)
  qed simp
  show "I s \<Longrightarrow> unsubscribe_loop c vs out s = Some (b, out', s') \<Longrightarrow> I s'"
  proof (induction vs arbitrary: out s)
    case (Cons v vs)
    with inv_unsubscribe(1) [OF Cons.prems(1)] show ?case by (fastforce simp: split_beta Let_def split: if_splits option.splits)
  qed simp
qed

lemma inv_handler:
  assumes "h \<in> set (map snd array_cmd_dispatch_table)" "I s" "h c a env s = Some (b, out, s')"
  shows "I s'"
proof (cases "h \<in> set (map snd data_table)")
  case True
  from data_handler_result [OF True, of s c a env] assms(3) have "effect s s'" by (auto simp: data_result_def)
  with assms(2) show ?thesis by (rule inv_effect [rotated])
next
  case False
  with assms(1) have "h = cmdStats \<or> h = cmdMonitor \<or> h = cmdDebug \<or> h = cmdSubscribe \<or> h = cmdUnsubscribe \<or> h = cmdPublish"
    unfolding command_table_set by blast
  with assms(2,3) show ?thesis
    by (elim disjE; auto simp: server_handler_defs reply_def unhandled_def Let_def split_beta
        intro: inv_report inv_net inv_publish inv_unsubscribe inv_loops split: if_splits option.splits)
qed

lemma inv_run: "I s \<Longrightarrow> run_handler c name a env s = Some (b, out, s') \<Longrightarrow> I s'"
proof (cases "map_of array_cmd_dispatch_table name")
  case (Some h)
  then have "h \<in> set (map snd array_cmd_dispatch_table)" by (force dest: map_of_SomeD)
  moreover assume "I s" "run_handler c name a env s = Some (b, out, s')"
  ultimately show ?thesis using Some inv_handler [of h] by (simp add: run_handler_def)
qed (simp add: run_handler_def unhandled_def)

lemma inv_set_multi: "I s \<Longrightarrow> I (set_multi b qs c s)"
  by (auto simp: set_multi_def intro!: inv_ctx split: option.split)

lemma inv_exec: "I s \<Longrightarrow> exec_queued env i qs out s = Some (out', s') \<Longrightarrow> I s'"
  by (induction qs arbitrary: i out s)
    (auto simp: executeArrayCommandToResp_def split: option.splits prod.splits dest: inv_run)

lemma inv_named: "I s \<Longrightarrow> processNamed c name a env s = Some (r, s') \<Longrightarrow> I s'"
  by (auto simp: processNamed_def processMulti_def processDiscard_def processExec_def processQueue_def returned_def
      dispatchArrayCommandsLookup_def intro!: inv_send inv_close inv_set_multi split: if_splits option.splits
      dest: inv_run inv_exec)

lemma inv_command: "I s \<Longrightarrow> processCommand c cmd env s = Some s' \<Longrightarrow> I s'"
  by (auto simp: processCommand_def processArray_def Let_def intro!: inv_counters inv_send dest: inv_named
      split: if_splits option.splits CmdOutcome.splits)

lemma inv_input: "I s \<Longrightarrow> conn_inbuf s c = Some ctx \<Longrightarrow> subscribed_channels ctx' = subscribed_channels ctx \<Longrightarrow> I (set_ctx c ctx' s)"
  by (rule inv_ctx) simp_all

lemma inv_step: "I s \<Longrightarrow> message_step env c s = Some r \<Longrightarrow> case r of LoopStop b s' \<Rightarrow> I s' | LoopNext s' \<Rightarrow> I s'"
proof -
  assume a: "I s" "message_step env c s = Some r"
  have reset: "I s \<Longrightarrow> I (reset_conn_parser c (count_command s))" for s
    by (auto simp: reset_conn_parser_def intro!: inv_input inv_counters split: option.split)
  show ?thesis
  proof (cases "conn_inbuf s c")
    case (Some ctx)
    have i: "I (set_ctx c (ctx\<lparr>conn_parser := p\<rparr>) s)" "I (set_ctx c (ctx\<lparr>conn_parser := p, pending_offset := n\<rparr>) s)" for p n
      by (rule inv_input [OF a(1) Some]; simp)+
    with a Some show ?thesis
      by (auto simp: message_step_def Let_def intro!: inv_send reset split: option.splits if_splits)
        (erule inv_command [OF i(2)])
  qed (use a in \<open>auto simp: message_step_def\<close>)
qed

lemma inv_loop: "message_loop env c s = Some r \<Longrightarrow> I s \<longrightarrow> I (snd r)"
proof (rule message_loop.raw_induct [where P = "\<lambda>env c s r. I s \<longrightarrow> I (snd r)"])
  fix loop env c s r
  assume IH: "\<And>env c s r. loop env c s = Some r \<Longrightarrow> I s \<longrightarrow> I (snd r)"
    and eq: "(case message_step env c s of None \<Rightarrow> None | Some (LoopStop b s) \<Rightarrow> Some (b, s) | Some (LoopNext s) \<Rightarrow> loop env c s) = Some r"
  show "I s \<longrightarrow> I (snd r)"
    using inv_step [of s env c] IH [of env c _ r] eq by (auto split: option.splits LoopStep.splits)
qed

lemma inv_message: "I s \<Longrightarrow> onMessage env c chunk s = Some s' \<Longrightarrow> I s'"
proof -
  assume a: "I s" "onMessage env c chunk s = Some s'"
  let ?ctx = "(case conn_inbuf s c of None \<Rightarrow> new_ConnParseState | Some ctx \<Rightarrow> ctx)"
  let ?s = "set_ctx c (?ctx\<lparr>pending_input := pending_input ?ctx @ chunk\<rparr>) s"
  have s: "I ?s" by (rule inv_ctx [OF a(1)]) (simp add: new_ConnParseState_def split: option.split)
  have over: "I s \<Longrightarrow> I (overflow_close c s)" for s by (simp add: overflow_close_def inv_close inv_send)
  have fin: "I s \<Longrightarrow> I (message_end c s)" for s
    by (auto simp: message_end_def Let_def compact_input_def intro!: over inv_counters inv_input split: option.split)
  show ?thesis using a(2) s
    by (auto simp: onMessage_def Let_def over dest!: inv_loop intro!: fin inv_counters split: if_splits option.splits bool.splits)
qed

end

locale server_inv = command_inv +
  assumes inv_clear: "I s \<Longrightarrow> I (clearSubscriptionsForConnection c s)"
begin

lemma inv_connection: "I s \<Longrightarrow> I (onConnection c s)"
  by (auto simp: onConnection_def keeps_pubsub_counts_def intro!: inv_stats inv_clear)

lemma inv_sweep: "I s \<Longrightarrow> I (cleanupExpiredKeys s)"
proof -
  have "I s \<Longrightarrow> I (fold sweep_key keys s)" for keys s
  proof (induction keys arbitrary: s)
    case (Cons k ks)
    have "I (snd (api c s))" for c using inv_effect [OF effect_api Cons.prems] .
    then have "I (sweep_key k s)"
      by (auto simp: sweep_key_def split_beta keeps_pubsub_counts_def intro!: inv_stats split: option.split)
    with Cons show ?case by simp
  qed simp
  moreover assume "I s"
  ultimately show ?thesis using inv_effect [OF effect_api, of s]
    by (auto simp: cleanupExpiredKeys_def split_beta split: option.split)
qed

theorem inv_reach: "server_reach s s' \<Longrightarrow> I s \<Longrightarrow> I s'"
proof (induction rule: server_reach.induct)
  case (step_reach s s' s'')
  from step_reach(2) step_reach(3) [OF step_reach(4)] show ?case
    by (cases rule: server_step.cases) (auto intro: inv_connection inv_net inv_message inv_sweep)
qed simp

end

end
