(* ===== verification/Server_Pubsub.thy ===== *)
theory Server_Pubsub
  imports Server_Inv
begin

text \<open>
  Publish/subscribe: the channel table and the channels of each connection are one relation seen from
  both sides, in every reachable state, and the two counters count it.
\<close>

section \<open>The channel table\<close>

definition lookup_channel :: "(string \<times> conn list) list \<Rightarrow> string \<Rightarrow> conn list" where
  "lookup_channel subs ch = (case map_of subs ch of None \<Rightarrow> [] | Some cs \<Rightarrow> cs)"

lemma subscribers_lookup: "subscribers ch s = lookup_channel (channel_subscribers s) ch"
  by (simp add: subscribers_def lookup_channel_def)

definition table_ok :: "(string \<times> conn list) list \<Rightarrow> bool" where
  "table_ok subs \<longleftrightarrow> distinct (map fst subs) \<and> list_all (\<lambda>(ch, cs). cs \<noteq> [] \<and> distinct cs) subs"

lemma table_ok_update: "table_ok subs \<Longrightarrow> cs \<noteq> [] \<Longrightarrow> distinct cs \<Longrightarrow> table_ok (AList.update ch cs subs)"
  unfolding table_ok_def by (induction subs) (auto simp: dom_update)

lemma table_ok_delete: "table_ok subs \<Longrightarrow> table_ok (AList.delete ch subs)"
  unfolding table_ok_def by (induction subs) (auto simp: delete_keys)

lemma lookup_update [simp]: "lookup_channel (AList.update ch cs subs) ch' = (if ch' = ch then cs else lookup_channel subs ch')"
  by (simp add: lookup_channel_def update_conv')

lemma lookup_distinct: "table_ok subs \<Longrightarrow> distinct (lookup_channel subs ch)"
  by (auto simp: lookup_channel_def table_ok_def list_all_iff dest!: map_of_SomeD split: option.split)

lemma lookup_drop [simp]:
  "lookup_channel (drop_subscriber c ch subs) ch' =
     (if ch' = ch then filter (\<lambda>c'. c' \<noteq> c) (lookup_channel subs ch') else lookup_channel subs ch')"
  by (auto simp: drop_subscriber_def lookup_channel_def Let_def update_conv' delete_conv' split: option.split)

lemma table_ok_drop: "table_ok subs \<Longrightarrow> table_ok (drop_subscriber c ch subs)"
  using lookup_distinct [of subs ch]
  by (auto simp: drop_subscriber_def lookup_channel_def Let_def intro!: table_ok_update table_ok_delete split: option.splits)

lemma drop_all: "table_ok subs \<Longrightarrow> table_ok (fold (drop_subscriber c) chs subs)"
    "lookup_channel (fold (drop_subscriber c) chs subs) ch' =
       (if ch' \<in> set chs then filter (\<lambda>c'. c' \<noteq> c) (lookup_channel subs ch') else lookup_channel subs ch')"
  by (induction chs arbitrary: subs) (auto simp: table_ok_drop)

section \<open>The relation seen from both sides\<close>

definition pubsub_rel :: "(string \<times> conn list) list \<Rightarrow> (conn \<Rightarrow> string list) \<Rightarrow> bool" where
  "pubsub_rel T C \<longleftrightarrow> table_ok T \<and> (\<forall>c. distinct (C c)) \<and> (\<forall>c ch. c \<in> set (lookup_channel T ch) \<longleftrightarrow> ch \<in> set (C c))"

lemma rel_subscribe:
  "pubsub_rel T C \<Longrightarrow> pubsub_rel (AList.update ch (List.insert c (lookup_channel T ch)) T) (C(c := List.insert ch (C c)))"
proof -
  assume r: "pubsub_rel T C"
  have "List.insert c (lookup_channel T ch) \<noteq> []" by (cases "lookup_channel T ch") (auto simp: List.insert_def)
  with r show ?thesis by (auto simp: pubsub_rel_def table_ok_update lookup_distinct)
qed

lemma rel_unsubscribe: "pubsub_rel T C \<Longrightarrow> pubsub_rel (drop_subscriber c ch T) (C(c := filter (\<lambda>ch'. ch' \<noteq> ch) (C c)))"
  by (auto simp: pubsub_rel_def table_ok_drop)

lemma rel_clear: "pubsub_rel T C \<Longrightarrow> pubsub_rel (fold (drop_subscriber c) (C c) T) (C(c := []))"
  by (auto simp: pubsub_rel_def drop_all)

section \<open>The invariant\<close>

definition channels_of :: "Server \<Rightarrow> conn \<Rightarrow> string list" where
  "channels_of s c = (case conn_inbuf s c of None \<Rightarrow> [] | Some ctx \<Rightarrow> subscribed_channels ctx)"

lemma channels_of_upd [simp]:
  "channels_of (s\<lparr>conn_inbuf := (conn_inbuf s)(c \<mapsto> ctx)\<rparr>) = (channels_of s)(c := subscribed_channels ctx)"
  "channels_of (s\<lparr>conn_inbuf := (conn_inbuf s)(c := None)\<rparr>) = (channels_of s)(c := [])"
  "channels_of (s\<lparr>channel_subscribers := T\<rparr>) = channels_of s"
  "channels_of (s\<lparr>srv_stats := t\<rparr>) = channels_of s" "channels_of (s\<lparr>srv_pool := p\<rparr>) = channels_of s"
  "channels_of (s\<lparr>srv_out := evs\<rparr>) = channels_of s" "channels_of (s\<lparr>srv_connected := cs\<rparr>) = channels_of s"
  by (simp_all add: channels_of_def fun_eq_iff)

lemma channels_of_Some: "conn_inbuf s c = Some ctx \<Longrightarrow> subscribed_channels ctx = channels_of s c"
  by (simp add: channels_of_def)

definition pubsub_ok :: "Server \<Rightarrow> bool" where
  "pubsub_ok s \<longleftrightarrow> pubsub_rel (channel_subscribers s) (channels_of s) \<and>
     pubsub_channel_count (srv_stats s) = length (channel_subscribers s) \<and>
     pubsub_subscription_count (srv_stats s) = sum_list (map (length \<circ> snd) (channel_subscribers s))"

lemma refresh_ok: "pubsub_ok (refreshPubSubStatsLocked s) \<longleftrightarrow> pubsub_rel (channel_subscribers s) (channels_of s)"
  by (simp add: pubsub_ok_def refreshPubSubStatsLocked_def upd_stats_def)

lemma effect_fields:
  assumes "effect s s'"
  shows "conn_inbuf s' = conn_inbuf s" "channel_subscribers s' = channel_subscribers s" "srv_stats s' = srv_stats s"
    "srv_connected s' = srv_connected s" "srv_out s' = srv_out s" "srv_config s' = srv_config s"
proof -
  obtain st fs where "s' = s\<lparr>srv_storage := st, srv_snap := fs\<rparr>" using assms by (auto simp: effect_def)
  then show "conn_inbuf s' = conn_inbuf s" "channel_subscribers s' = channel_subscribers s" "srv_stats s' = srv_stats s"
    "srv_connected s' = srv_connected s" "srv_out s' = srv_out s" "srv_config s' = srv_config s" by simp_all
qed

interpretation pubsub: server_inv pubsub_ok
proof unfold_locales
  fix s s' c ch ctx f p evs cs
  show "effect s s' \<Longrightarrow> pubsub_ok s \<Longrightarrow> pubsub_ok s'" by (simp add: pubsub_ok_def effect_fields channels_of_def [abs_def])
  show "keeps_pubsub_counts f \<Longrightarrow> pubsub_ok s \<Longrightarrow> pubsub_ok (upd_stats f s)"
    by (simp add: pubsub_ok_def upd_stats_def keeps_pubsub_counts_def)
  show "pubsub_ok s \<Longrightarrow> pubsub_ok (s\<lparr>srv_pool := p\<rparr>)" "pubsub_ok s \<Longrightarrow> pubsub_ok (s\<lparr>srv_out := evs\<rparr>)"
    "pubsub_ok s \<Longrightarrow> pubsub_ok (s\<lparr>srv_connected := cs\<rparr>)"
    by (simp_all add: pubsub_ok_def)
  show "pubsub_ok s \<Longrightarrow> (case conn_inbuf s c of None \<Rightarrow> [] | Some ctx0 \<Rightarrow> subscribed_channels ctx0) = subscribed_channels ctx \<Longrightarrow>
      pubsub_ok (set_ctx c ctx s)"
    by (simp add: pubsub_ok_def set_ctx_def) (simp add: channels_of_def [symmetric] fun_upd_idem)
  assume ok: "pubsub_ok s"
  then have rel: "pubsub_rel (channel_subscribers s) (channels_of s)" by (simp add: pubsub_ok_def)
  show "pubsub_ok (snd (subscribeChannel c ch s))"
    using ok rel_subscribe [OF rel, of ch c]
    by (simp add: subscribeChannel_def Let_def refresh_ok subscribers_lookup channels_of_Some split: option.split)
  have none: "conn_inbuf s c = None \<Longrightarrow> (channels_of s)(c := []) = channels_of s" "conn_inbuf s c = None \<Longrightarrow> channels_of s c = []"
    by (simp_all add: channels_of_def fun_eq_iff)
  show "pubsub_ok (snd (unsubscribeChannel c ch s))"
    using rel_unsubscribe [OF rel, of c ch]
    by (cases "conn_inbuf s c") (simp_all add: unsubscribeChannel_def Let_def refresh_ok channels_of_Some none)
  show "pubsub_ok (snd (unsubscribeAllChannels c s))"
    using rel rel_clear [OF rel, of c]
    by (simp add: unsubscribeAllChannels_def Let_def refresh_ok channels_of_Some split: option.split)
  show "pubsub_ok (clearSubscriptionsForConnection c s)"
    using ok rel_clear [OF rel, of c]
    by (simp add: clearSubscriptionsForConnection_def Let_def refresh_ok channels_of_Some split: option.split)
qed

end
