(* ===== verification/Engine_Spec.thy ===== *)
theory Engine_Spec
  imports Engine_Inv
begin

text \<open>
  The abstract specification of the storage: a map from keys to typed values with an optional
  expiration time, in which an expired key is absent. \<open>spec_key\<close> says what each call does to its
  key at time \<open>now\<close>. The engine, which keeps expired records until it meets them and stores
  containers as ordered lists, implements it: \<open>live_at\<close> is the abstraction function.
\<close>

section \<open>Abstract store\<close>

datatype avalue = AStr string | AList "string list" | ASet "string set" | AHash "string \<rightharpoonup> string"

type_synonym aentry = "avalue \<times> int option"

type_synonym outcome = "StatusCode \<times> api_value"

definition abs_value :: "DataValue \<Rightarrow> avalue" where
  "abs_value v = (case dv_type v of STRING \<Rightarrow> AStr (string_value v) | LIST \<Rightarrow> AList (list_value v)
     | SET \<Rightarrow> ASet (set (set_value v)) | HASH \<Rightarrow> AHash (map_of (hash_value v)))"

definition abs_rec :: "Record \<Rightarrow> aentry" where
  "abs_rec r = (abs_value (rec_value r), if expire_at_us r < 0 then None else Some (expire_at_us r))"

definition live_at :: "int \<Rightarrow> Engine \<Rightarrow> string \<Rightarrow> aentry option" where
  "live_at t e k = (case eng_view e k of None \<Rightarrow> None
     | Some r \<Rightarrow> if isExpired r t then None else Some (abs_rec r))"

definition read_str :: "aentry option \<Rightarrow> outcome" where
  "read_str x = (case x of None \<Rightarrow> (Ok, VOpt None) | Some (AStr s, _) \<Rightarrow> (Ok, VOpt (Some s))
     | _ \<Rightarrow> (WrongType, VOpt None))"

definition read_list :: "api_value \<Rightarrow> api_value \<Rightarrow> (string list \<Rightarrow> api_value) \<Rightarrow> aentry option \<Rightarrow> outcome" where
  "read_list d none f x = (case x of None \<Rightarrow> (Ok, none) | Some (AList l, _) \<Rightarrow> (Ok, f l)
     | _ \<Rightarrow> (WrongType, d))"

definition read_set :: "api_value \<Rightarrow> api_value \<Rightarrow> (string set \<Rightarrow> api_value) \<Rightarrow> aentry option \<Rightarrow> outcome" where
  "read_set d none f x = (case x of None \<Rightarrow> (Ok, none) | Some (ASet s, _) \<Rightarrow> (Ok, f s)
     | _ \<Rightarrow> (WrongType, d))"

definition read_hash ::
    "api_value \<Rightarrow> api_value \<Rightarrow> ((string \<rightharpoonup> string) \<Rightarrow> api_value) \<Rightarrow> aentry option \<Rightarrow> outcome" where
  "read_hash d none f x = (case x of None \<Rightarrow> (Ok, none) | Some (AHash h, _) \<Rightarrow> (Ok, f h)
     | _ \<Rightarrow> (WrongType, d))"

definition count :: "nat \<Rightarrow> api_value" where
  "count n = VInt (to_i64 (int n))"

definition push_list :: "(string list \<Rightarrow> string list) \<Rightarrow> aentry option \<Rightarrow> outcome \<times> aentry option" where
  "push_list f x = (case x of
      None \<Rightarrow> ((Ok, count (length (f []))), Some (AList (f []), None))
    | Some (AList l, t) \<Rightarrow> ((Ok, count (length (f l))), Some (AList (f l), t))
    | _ \<Rightarrow> ((WrongType, VInt 0), x))"

definition pop_list ::
    "(string list \<Rightarrow> string) \<Rightarrow> (string list \<Rightarrow> string list) \<Rightarrow> aentry option \<Rightarrow> outcome \<times> aentry option" where
  "pop_list h f x = (case x of
      None \<Rightarrow> ((Ok, VOpt None), None)
    | Some (AList l, t) \<Rightarrow>
        if l = [] then ((Ok, VOpt None), x)
        else ((Ok, VOpt (Some (h l))), if f l = [] then None else Some (AList (f l), t))
    | _ \<Rightarrow> ((WrongType, VOpt None), x))"

definition add_set :: "string set \<Rightarrow> aentry option \<Rightarrow> outcome \<times> aentry option" where
  "add_set ms x = (case x of
      None \<Rightarrow> ((Ok, VInt (int (card ms))), Some (ASet ms, None))
    | Some (ASet s, t) \<Rightarrow> ((Ok, VInt (int (card (ms - s)))), Some (ASet (ms \<union> s), t))
    | _ \<Rightarrow> ((WrongType, VInt 0), x))"

definition rem_set :: "string set \<Rightarrow> aentry option \<Rightarrow> outcome \<times> aentry option" where
  "rem_set ms x = (case x of
      None \<Rightarrow> ((Ok, VInt 0), None)
    | Some (ASet s, t) \<Rightarrow> ((Ok, VInt (int (card (ms \<inter> s)))),
        if s \<subseteq> ms then None else Some (ASet (s - ms), t))
    | _ \<Rightarrow> ((WrongType, VInt 0), x))"

definition set_hash :: "string \<Rightarrow> string \<Rightarrow> aentry option \<Rightarrow> outcome \<times> aentry option" where
  "set_hash f v x = (case x of
      None \<Rightarrow> ((Ok, VInt 1), Some (AHash [f \<mapsto> v], None))
    | Some (AHash h, t) \<Rightarrow> ((Ok, VInt (if h f = None then 1 else 0)), Some (AHash (h(f \<mapsto> v)), t))
    | _ \<Rightarrow> ((WrongType, VInt 0), x))"

definition del_hash :: "string set \<Rightarrow> aentry option \<Rightarrow> outcome \<times> aentry option" where
  "del_hash fs x = (case x of
      None \<Rightarrow> ((Ok, VInt 0), None)
    | Some (AHash h, t) \<Rightarrow> ((Ok, VInt (int (card (fs \<inter> dom h)))),
        if dom h \<subseteq> fs then None else Some (AHash (h |` (- fs)), t))
    | _ \<Rightarrow> ((WrongType, VInt 0), x))"

definition remaining :: "int \<Rightarrow> int \<Rightarrow> aentry option \<Rightarrow> outcome" where
  "remaining unit now x = (case x of None \<Rightarrow> (Ok, VInt (-2)) | Some (_, None) \<Rightarrow> (Ok, VInt (-1))
     | Some (_, Some t) \<Rightarrow> (Ok, VInt ((t - now) div unit)))"

definition hash_pairs :: "(string \<rightharpoonup> string) \<Rightarrow> (string \<times> string) list" where
  "hash_pairs h = map (\<lambda>k. (k, the (h k))) (sorted_list_of_set (dom h))"

fun spec_key :: "int \<Rightarrow> api_call \<Rightarrow> aentry option \<Rightarrow> outcome \<times> aentry option" where
  "spec_key now (ApiSet _ v) x = ((Ok, VBool True), Some (AStr v, None))"
| "spec_key now (ApiGet _) x = (read_str x, x)"
| "spec_key now (ApiDel _) x = ((Ok, VInt (if x = None then 0 else 1)), None)"
| "spec_key now (ApiExists _) x = ((Ok, VInt (if x = None then 0 else 1)), x)"
| "spec_key now (ApiExpire _ ttl) x =
     (if ttl < 0 then ((InvalidArg, VInt 0), x)
      else case x of None \<Rightarrow> ((Ok, VInt 0), None)
        | Some (v, _) \<Rightarrow> ((Ok, VInt 1), if ttl = 0 then None else Some (v, Some (now + ttl * 1000000))))"
| "spec_key now (ApiPersist _) x = (case x of None \<Rightarrow> ((Ok, VInt 0), None)
     | Some (v, t) \<Rightarrow> ((Ok, VInt (if t = None then 0 else 1)), Some (v, None)))"
| "spec_key now (ApiTtl _) x = (remaining 1000000 now x, x)"
| "spec_key now (ApiPttl _) x = (remaining 1000 now x, x)"
| "spec_key now (ApiLpush _ vs) x =
     (if vs = [] then ((InvalidArg, VInt 0), x) else push_list (\<lambda>l. rev vs @ l) x)"
| "spec_key now (ApiRpush _ vs) x =
     (if vs = [] then ((InvalidArg, VInt 0), x) else push_list (\<lambda>l. l @ vs) x)"
| "spec_key now (ApiLpop _) x = pop_list hd tl x"
| "spec_key now (ApiRpop _) x = pop_list last butlast x"
| "spec_key now (ApiLlen _) x = (read_list (VInt 0) (VInt 0) (\<lambda>l. count (length l)) x, x)"
| "spec_key now (ApiLindex _ i) x =
     (read_list (VOpt None) (VOpt None) (\<lambda>l. VOpt (lindex_of i l)) x, x)"
| "spec_key now (ApiSadd _ ms) x =
     (if ms = [] then ((InvalidArg, VInt 0), x) else add_set (set ms) x)"
| "spec_key now (ApiSrem _ ms) x =
     (if ms = [] then ((InvalidArg, VInt 0), x) else rem_set (set ms) x)"
| "spec_key now (ApiScard _) x = (read_set (VInt 0) (VInt 0) (\<lambda>s. count (card s)) x, x)"
| "spec_key now (ApiSismember _ m) x =
     (read_set (VInt 0) (VInt 0) (\<lambda>s. VInt (if m \<in> s then 1 else 0)) x, x)"
| "spec_key now (ApiSmembers _) x =
     (read_set (VStrs []) (VStrs []) (\<lambda>s. VStrs (sorted_list_of_set s)) x, x)"
| "spec_key now (ApiHset _ f v) x = set_hash f v x"
| "spec_key now (ApiHget _ f) x = (read_hash (VOpt None) (VOpt None) (\<lambda>h. VOpt (h f)) x, x)"
| "spec_key now (ApiHdel _ fs) x =
     (if fs = [] then ((InvalidArg, VInt 0), x) else del_hash (set fs) x)"
| "spec_key now (ApiHlen _) x = (read_hash (VInt 0) (VInt 0) (\<lambda>h. count (card (dom h))) x, x)"
| "spec_key now (ApiHexists _ f) x =
     (read_hash (VInt 0) (VInt 0) (\<lambda>h. VInt (if h f = None then 0 else 1)) x, x)"
| "spec_key now (ApiHgetall _) x =
     (read_hash (VPairs []) (VPairs []) (\<lambda>h. VPairs (hash_pairs h)) x, x)"

section \<open>The engine's building blocks, abstractly\<close>

definition outcome_of :: "api_value StorageResult \<times> Engine \<Rightarrow> outcome" where
  "outcome_of x = (sr_status (fst x), sr_value (fst x))"

definition refines :: "api_call \<Rightarrow> string \<Rightarrow> Engine \<Rightarrow> bool" where
  "refines c k e \<longleftrightarrow>
     (outcome_of (api_exec c e), live_at (clock_now e) (snd (api_exec c e)) k) =
     spec_key (clock_now e) c (live_at (clock_now e) e k)"

lemma unlimited_put: "unlimited e \<Longrightarrow> fst (putRecord k r (eng_backend e))"
  unfolding unlimited_def by (rule mem.put_accepts)

lemma unlimited_keeps [simp]:
  "unlimited (snd (nowEpochUs e)) = unlimited e"
  "unlimited (snd (eng_put k r e)) = unlimited e"
  "unlimited (snd (eng_del k e)) = unlimited e"
  by (simp_all add: unlimited_def)

lemma put_logged_abs:
  assumes "unlimited e"
  shows "sr_status (fst (put_logged k r ms d v e)) = Ok"
    and "sr_value (fst (put_logged k r ms d v e)) = v"
    and "live_at t (snd (put_logged k r ms d v e)) k = (if isExpired r t then None else Some (abs_rec r))"
  using unlimited_put [OF assms]
  by (simp_all add: put_logged_def Let_def split_beta live_at_def mem.get_put)

lemma put_logged_at_abs:
  assumes "unlimited e"
  shows "sr_status (fst (put_logged_at k r t0 d v e)) = Ok"
    and "sr_value (fst (put_logged_at k r t0 d v e)) = v"
    and "live_at t (snd (put_logged_at k r t0 d v e)) k = (if isExpired r t then None else Some (abs_rec r))"
  using unlimited_put [OF assms]
  by (simp_all add: put_logged_at_def Let_def split_beta live_at_def mem.get_put)

lemma del_logged_abs [simp]:
  "sr_status (fst (del_logged k ms v e)) = Ok"
  "sr_value (fst (del_logged k ms v e)) = v"
  "live_at t (snd (del_logged k ms v e)) k = None"
  by (simp_all add: del_logged_def Let_def split_beta live_at_def mem.get_del)

lemma del_logged_at_abs [simp]:
  "sr_status (fst (del_logged_at k t0 v e)) = Ok"
  "sr_value (fst (del_logged_at k t0 v e)) = v"
  "live_at t (snd (del_logged_at k t0 v e)) k = None"
  by (simp_all add: del_logged_at_def Let_def split_beta live_at_def mem.get_del)

lemma live_at_now [simp]: "live_at t (snd (nowEpochUs e)) k = live_at t e k"
  by (simp add: live_at_def)

lemma live_at_del [simp]: "live_at t (snd (eng_del k e)) k = None"
  by (simp add: live_at_def mem.get_del)

lemma sr_map_abs [simp]:
  "outcome_of (sr_map f x) = (sr_status (fst x), f (sr_value (fst x)))"
  "snd (sr_map f x) = snd x"
  by (simp_all add: outcome_of_def sr_map_def split_beta)

lemma live_at_eng_get:
  "live_at t e k = (case eng_get k e of None \<Rightarrow> None | Some r \<Rightarrow> if isExpired r t then None else Some (abs_rec r))"
  by (simp add: live_at_def eng_get_def)

text \<open>
  The three cases of the lazily expiring lookup: the key is absent, its record has expired and is
  deleted, or the record is live.
\<close>

lemma getLive_cases [consumes 1, case_names gone live]:
  assumes "eng_inv e"
  obtains ms e' where "getLiveRecordOrExpire k e = (None, ms, e')" "unlimited e' = unlimited e"
      "live_at (clock_now e) e k = None" "live_at (clock_now e) e' k = None"
    | r e' where "getLiveRecordOrExpire k e = (Some r, [], e')" "unlimited e' = unlimited e" "rec_wf r"
      "\<not> isExpired r (clock_now e)"
      "live_at (clock_now e) e k = Some (abs_rec r)"
      "live_at (clock_now e) e' k = Some (abs_rec r)"
proof (cases "eng_get k e")
  case None
  then show ?thesis
    by (intro that(1) [of "[]" e]) (simp_all add: getLiveRecordOrExpire_def live_at_eng_get)
next
  case (Some r)
  let ?now = "clock_now e"
  show ?thesis
  proof (cases "isExpired r ?now")
    case True
    with Some show ?thesis
      by (intro that(1) [of "[mut_del k ?now]" "snd (eng_del k (snd (nowEpochUs e)))"])
        (simp_all add: getLiveRecordOrExpire_def Let_def split_beta live_at_eng_get [of ?now e])
  next
    case False
    with Some assms show ?thesis
      by (intro that(2) [of r "snd (nowEpochUs e)"])
        (simp_all add: getLiveRecordOrExpire_def Let_def split_beta live_at_eng_get [of ?now e] eng_get_wf)
  qed
qed

lemma getOrInit_gone:
  assumes "unlimited e" "getLiveRecordOrExpire k e = (None, ms, e')" "unlimited e' = unlimited e"
  obtains ms' e'' where
    "getOrInitContainer k ty e =
       (sr_ok \<lparr>rec_value = DataValue0\<lparr>dv_type := ty, string_value := []\<rparr>, expire_at_us = -1, version = 0\<rparr> ms', e'')"
    "unlimited e''"
  using assms unlimited_put [of e' k]
  by (simp add: getOrInitContainer_def put_logged_def Let_def split_beta)

lemma getOrInit_live:
  assumes "getLiveRecordOrExpire k e = (Some r, [], e')"
  shows "getOrInitContainer k ty e =
    (if dv_type (rec_value r) = ty then (sr_ok r [], e') else (sr_err Record0 WrongType, e'))"
  using assms by (simp add: getOrInitContainer_def)

lemma isExpired_simps [simp]:
  "isExpired (r\<lparr>rec_value := v\<rparr>) t = isExpired r t"
  "\<not> isExpired (Record0\<lparr>rec_value := v, expire_at_us := -1, version := n\<rparr>) t"
  "\<not> isExpired \<lparr>rec_value = v, expire_at_us = -1, version = n\<rparr> t"
  by (simp_all add: isExpired_def)

section \<open>Each call implements its specification\<close>

lemma abs_value_simps [simp]:
  "dv_type v = STRING \<Longrightarrow> abs_value v = AStr (string_value v)"
  "dv_type v = LIST \<Longrightarrow> abs_value v = AList (list_value v)"
  "dv_type v = SET \<Longrightarrow> abs_value v = ASet (set (set_value v))"
  "dv_type v = HASH \<Longrightarrow> abs_value v = AHash (map_of (hash_value v))"
  by (simp_all add: abs_value_def)

lemma abs_rec_upd [simp]:
  "abs_rec (r\<lparr>rec_value := v\<rparr>) = (abs_value v, snd (abs_rec r))"
  by (simp add: abs_rec_def)

lemma refines_set: "unlimited e \<Longrightarrow> refines (ApiSet k v) k e"
  by (simp add: refines_def engine_set_def put_logged_abs)
    (simp add: abs_rec_def DataValue_str_def DataValue0_def)

lemma refines_get: "refines (ApiGet k) k e"
  by (cases "eng_get k e")
    (auto simp: refines_def engine_get_def live_at_eng_get [of _ e] Let_def split_beta read_str_def
      abs_rec_def abs_value_def split: DataType.split)

lemma refines_del:
  assumes "\<And>r. eng_get k e = Some r \<Longrightarrow> \<not> isExpired r (clock_now e)"
  shows "refines (ApiDel k) k e"
  using assms mem.del_found [of k "eng_backend e"]
  by (cases "eng_get k e")
    (auto simp: refines_def engine_del_def live_at_eng_get [of _ e] Let_def split_beta eng_get_def)

lemma refines_exists: "refines (ApiExists k) k e"
  by (cases "eng_get k e")
    (auto simp: refines_def engine_exists_def live_at_eng_get [of _ e] Let_def split_beta)

lemma refines_expire:
  assumes "unlimited e" "0 \<le> clock_now e" "in_i64 (clock_now e + ttl * 1000000)"
  shows "refines (ApiExpire k ttl) k e"
proof (cases "eng_get k e")
  case (Some r)
  show ?thesis
  proof (cases "ttl \<le> 0 \<or> isExpired r (clock_now e)")
    case True
    then show ?thesis
      using Some by (auto simp: refines_def engine_expire_def live_at_eng_get [of _ e] Let_def
          split_beta abs_rec_def)
  next
    case False
    then have "in_i64 (ttl * 1000000)"
      using assms(2,3) by (auto simp: in_i64_def i64_min_def)
    with False Some assms show ?thesis
      by (simp add: refines_def engine_expire_def live_at_eng_get [of _ e] Let_def split_beta
          put_logged_at_abs to_i64_id isExpired_def abs_rec_def)
  qed
qed (simp add: refines_def engine_expire_def live_at_eng_get [of _ e])

lemma refines_persist: "unlimited e \<Longrightarrow> refines (ApiPersist k) k e"
  by (cases "eng_get k e")
    (auto simp: refines_def engine_persist_def live_at_eng_get [of _ e] Let_def split_beta
      put_logged_at_abs isExpired_def abs_rec_def)

lemma remaining_no_wrap:
  assumes "eng_inv e" "eng_get k e = Some r" "\<not> isExpired r (clock_now e)"
    "\<not> expire_at_us r < 0" "0 \<le> clock_now e"
  shows "to_i64 (expire_at_us r - clock_now e) = expire_at_us r - clock_now e"
    and "0 < expire_at_us r - clock_now e"
proof -
  show "0 < expire_at_us r - clock_now e"
    using assms(3,4) by (simp add: isExpired_def)
  then show "to_i64 (expire_at_us r - clock_now e) = expire_at_us r - clock_now e"
    using eng_get_wf [OF assms(1,2)] assms(5)
    by (intro to_i64_id) (simp add: rec_wf_def in_i64_def i64_min_def)
qed

lemma refines_ttl:
  assumes "eng_inv e" "0 \<le> clock_now e"
  shows "refines (ApiTtl k) k e" and "refines (ApiPttl k) k e"
  using remaining_no_wrap [OF assms(1) _ _ _ assms(2), of k]
  by (cases "eng_get k e"; auto simp: refines_def engine_ttl_def engine_pttl_def
      live_at_eng_get [of _ e] Let_def split_beta remaining_def abs_rec_def)+

lemma fold_push_front: "fold (\<lambda>v l. v # l) vs l = rev vs @ l"
  by (induction vs arbitrary: l) auto

lemma fold_push_back: "fold (\<lambda>v l. l @ [v]) vs l = l @ vs"
  by (induction vs arbitrary: l) auto

abbreviation new_container :: "DataType \<Rightarrow> Record" where
  "new_container ty \<equiv>
     \<lparr>rec_value = DataValue0\<lparr>dv_type := ty, string_value := []\<rparr>, expire_at_us = -1, version = 0\<rparr>"

text \<open>
  A container write: if the key is gone, an empty container is created first; a record of
  another type is refused.
\<close>

lemma refines_container:
  assumes "eng_inv e" "unlimited e"
    and exec: "api_exec c e = sr_map g (case getOrInitContainer k ty e of (r, e') \<Rightarrow>
      if sr_status r \<noteq> Ok then (sr_err d (sr_status r), e')
      else put_logged k (upd (sr_value r)) (sr_mutations r) d (f (sr_value r)) e')"
    and gone: "spec_key (clock_now e) c None =
      ((Ok, g (f (new_container ty))), Some (abs_rec (upd (new_container ty))))"
    and live: "\<And>r. rec_wf r \<Longrightarrow> dv_type (rec_value r) = ty \<Longrightarrow>
      spec_key (clock_now e) c (Some (abs_rec r)) = ((Ok, g (f r)), Some (abs_rec (upd r)))"
    and wrong: "\<And>r. dv_type (rec_value r) \<noteq> ty \<Longrightarrow>
      spec_key (clock_now e) c (Some (abs_rec r)) = ((WrongType, g d), Some (abs_rec r))"
    and upd: "\<And>r t. isExpired (upd r) t = isExpired r t"
  shows "refines c k e"
  using assms(1)
proof (cases rule: getLive_cases [of e k])
  case (gone ms e')
  obtain ms' e'' where "getOrInitContainer k ty e = (sr_ok (new_container ty) ms', e'')" "unlimited e''"
    using getOrInit_gone [OF assms(2) gone(1,2)] by blast
  with gone show ?thesis
    by (simp add: refines_def exec put_logged_abs upd assms(4))
next
  case (live r e')
  then show ?thesis
    using assms(2) by (cases "dv_type (rec_value r) = ty")
      (simp_all add: refines_def exec getOrInit_live put_logged_abs upd assms(5) wrong)
qed

lemma refines_reader:
  assumes "eng_inv e"
    and exec: "api_exec c e = sr_map g (read_container ty d n f k e)"
    and gone: "spec_key (clock_now e) c None = ((Ok, g n), None)"
    and live: "\<And>r. rec_wf r \<Longrightarrow> dv_type (rec_value r) = ty \<Longrightarrow>
      spec_key (clock_now e) c (Some (abs_rec r)) = ((Ok, g (f (rec_value r))), Some (abs_rec r))"
    and wrong: "\<And>r. dv_type (rec_value r) \<noteq> ty \<Longrightarrow>
      spec_key (clock_now e) c (Some (abs_rec r)) = ((WrongType, g d), Some (abs_rec r))"
  shows "refines c k e"
  using assms(1)
  by (cases rule: getLive_cases [of e k])
    (auto simp: refines_def exec read_container_def gone live wrong)

lemma wrong_type_simps:
  "dv_type (rec_value r) \<noteq> LIST \<Longrightarrow> read_list d n f (Some (abs_rec r)) = (WrongType, d)"
  "dv_type (rec_value r) \<noteq> LIST \<Longrightarrow> push_list p (Some (abs_rec r)) = ((WrongType, VInt 0), Some (abs_rec r))"
  "dv_type (rec_value r) \<noteq> LIST \<Longrightarrow> pop_list h q (Some (abs_rec r)) = ((WrongType, VOpt None), Some (abs_rec r))"
  "dv_type (rec_value r) \<noteq> SET \<Longrightarrow> read_set d n f' (Some (abs_rec r)) = (WrongType, d)"
  "dv_type (rec_value r) \<noteq> SET \<Longrightarrow> add_set ms (Some (abs_rec r)) = ((WrongType, VInt 0), Some (abs_rec r))"
  "dv_type (rec_value r) \<noteq> SET \<Longrightarrow> rem_set ms (Some (abs_rec r)) = ((WrongType, VInt 0), Some (abs_rec r))"
  "dv_type (rec_value r) \<noteq> HASH \<Longrightarrow> read_hash d n f'' (Some (abs_rec r)) = (WrongType, d)"
  "dv_type (rec_value r) \<noteq> HASH \<Longrightarrow> set_hash x y (Some (abs_rec r)) = ((WrongType, VInt 0), Some (abs_rec r))"
  "dv_type (rec_value r) \<noteq> HASH \<Longrightarrow> del_hash ms (Some (abs_rec r)) = ((WrongType, VInt 0), Some (abs_rec r))"
  by (cases "dv_type (rec_value r)"; simp add: read_list_def push_list_def pop_list_def read_set_def
      add_set_def rem_set_def read_hash_def set_hash_def del_hash_def abs_rec_def)+

lemma right_type_simps:
  "dv_type (rec_value r) = LIST \<Longrightarrow> read_list d n f (Some (abs_rec r)) = (Ok, f (list_value (rec_value r)))"
  "dv_type (rec_value r) = LIST \<Longrightarrow> push_list p (Some (abs_rec r)) =
     ((Ok, count (length (p (list_value (rec_value r))))), Some (AList (p (list_value (rec_value r))), snd (abs_rec r)))"
  "dv_type (rec_value r) = SET \<Longrightarrow> read_set d n f' (Some (abs_rec r)) = (Ok, f' (set (set_value (rec_value r))))"
  "dv_type (rec_value r) = SET \<Longrightarrow> add_set ms (Some (abs_rec r)) =
     ((Ok, VInt (int (card (ms - set (set_value (rec_value r)))))),
      Some (ASet (ms \<union> set (set_value (rec_value r))), snd (abs_rec r)))"
  "dv_type (rec_value r) = HASH \<Longrightarrow> read_hash d n f'' (Some (abs_rec r)) = (Ok, f'' (map_of (hash_value (rec_value r))))"
  "dv_type (rec_value r) = HASH \<Longrightarrow> set_hash x y (Some (abs_rec r)) =
     ((Ok, VInt (if map_of (hash_value (rec_value r)) x = None then 1 else 0)),
      Some (AHash ((map_of (hash_value (rec_value r)))(x \<mapsto> y)), snd (abs_rec r)))"
  "dv_type (rec_value r) = LIST \<Longrightarrow> pop_list hd' tl' (Some (abs_rec r)) =
     (let l = list_value (rec_value r) in
      if l = [] then ((Ok, VOpt None), Some (abs_rec r))
      else ((Ok, VOpt (Some (hd' l))), if tl' l = [] then None else Some (AList (tl' l), snd (abs_rec r))))"
  "dv_type (rec_value r) = SET \<Longrightarrow> rem_set ms (Some (abs_rec r)) =
     ((Ok, VInt (int (card (ms \<inter> set (set_value (rec_value r)))))),
      if set (set_value (rec_value r)) \<subseteq> ms then None
      else Some (ASet (set (set_value (rec_value r)) - ms), snd (abs_rec r)))"
  "dv_type (rec_value r) = HASH \<Longrightarrow> del_hash ms (Some (abs_rec r)) =
     ((Ok, VInt (int (card (ms \<inter> dom (map_of (hash_value (rec_value r))))))),
      if dom (map_of (hash_value (rec_value r))) \<subseteq> ms then None
      else Some (AHash (map_of (hash_value (rec_value r)) |` (- ms)), snd (abs_rec r)))"
  by (simp_all add: read_list_def push_list_def read_set_def add_set_def read_hash_def set_hash_def
      pop_list_def rem_set_def del_hash_def Let_def abs_rec_def)

lemma abs_rec_new [simp]: "abs_rec \<lparr>rec_value = v, expire_at_us = -1, version = n\<rparr> = (abs_value v, None)"
  by (simp add: abs_rec_def)

lemma spec_none_simps:
  "read_list d n f None = (Ok, n)" "read_set d n f' None = (Ok, n)" "read_hash d n f'' None = (Ok, n)"
  "push_list p None = ((Ok, count (length (p []))), Some (AList (p []), None))"
  "add_set ms None = ((Ok, VInt (int (card ms))), Some (ASet ms, None))"
  "set_hash x y None = ((Ok, VInt 1), Some (AHash [x \<mapsto> y], None))"
  "pop_list hd' tl' None = ((Ok, VOpt None), None)" "rem_set ms None = ((Ok, VInt 0), None)"
  "del_hash ms None = ((Ok, VInt 0), None)"
  by (simp_all add: read_list_def push_list_def read_set_def add_set_def read_hash_def set_hash_def
      pop_list_def rem_set_def del_hash_def)

lemmas spec_simps = right_type_simps wrong_type_simps spec_none_simps

lemma refines_lpush:
  assumes "eng_inv e" "unlimited e"
  shows "refines (ApiLpush k vs) k e"
proof (cases "vs = []")
  case False
  with assms show ?thesis
  proof (rule_tac refines_container [where ty = LIST and g = VInt and d = 0
      and upd = "\<lambda>r. r\<lparr>rec_value := (rec_value r)\<lparr>list_value := rev vs @ list_value (rec_value r)\<rparr>\<rparr>"
      and f = "\<lambda>r. to_i64 (int (length (rev vs @ list_value (rec_value r))))"], goal_cases)
    case 3
    show ?case by (simp only: api_exec.simps engine_lpush_def Let_def fold_push_front False if_False)
  qed (simp_all add: spec_simps count_def DataValue0_def)
qed (simp add: refines_def engine_lpush_def)

lemma refines_rpush:
  assumes "eng_inv e" "unlimited e"
  shows "refines (ApiRpush k vs) k e"
proof (cases "vs = []")
  case False
  with assms show ?thesis
  proof (rule_tac refines_container [where ty = LIST and g = VInt and d = 0
      and upd = "\<lambda>r. r\<lparr>rec_value := (rec_value r)\<lparr>list_value := list_value (rec_value r) @ vs\<rparr>\<rparr>"
      and f = "\<lambda>r. to_i64 (int (length (list_value (rec_value r) @ vs)))"], goal_cases)
    case 3
    show ?case by (simp only: api_exec.simps engine_rpush_def Let_def fold_push_back False if_False)
  qed (simp_all add: spec_simps count_def DataValue0_def)
qed (simp add: refines_def engine_rpush_def)

lemma card_new_member:
  "finite A \<Longrightarrow> m \<notin> S \<Longrightarrow> card (insert m A - S) = Suc (card (A - insert m S))"
  by (simp add: insert_Diff_if card.insert_remove Diff_insert [of A m S])

lemma card_old_member:
  "finite A \<Longrightarrow> m \<in> S \<Longrightarrow> card (insert m A \<inter> S) = Suc (card (A \<inter> (S - {m})))"
  by (simp add: card.insert_remove Int_Diff)

lemma snd_sadd_loop:
  "snd (fold (\<lambda>m (s, n). (std_set_insert m s, if m \<in> set s then n else n + (1::int))) ms (s, n))
     = n + int (card (set ms - set s))"
proof (induction ms arbitrary: s n)
  case (Cons m ms)
  then show ?case
    by (cases "m \<in> set s") (simp_all add: insert_absorb card_new_member)
qed simp

lemma snd_srem_loop:
  "snd (fold (\<lambda>m (s, n). (std_set_erase m s, if m \<in> set s then n + (1::int) else n)) ms (s, n))
     = n + int (card (set ms \<inter> set s))"
proof (induction ms arbitrary: s n)
  case (Cons m ms)
  then show ?case
    by (cases "m \<in> set s") (simp_all add: card_old_member del: Int_insert_left_if1)
qed simp

lemma snd_hdel_loop:
  "snd (fold (\<lambda>f (h, n). (std_map_erase f h, if map_of h f = None then n else n + (1::int))) fs (h, n))
     = n + int (card (set fs \<inter> dom (map_of h)))"
proof (induction fs arbitrary: h n)
  case (Cons f fs)
  have d: "dom (map_of (std_map_erase f h)) = dom (map_of h) - {f}"
    unfolding map_of_std_map_erase by simp
  show ?case
    using card_old_member [of "set fs" f "dom (map_of h)"]
    by (cases "f \<in> dom (map_of h)")
      (auto simp: Cons.IH d domIff simp del: map_of_std_map_erase)
qed simp

lemma refines_sadd:
  assumes "eng_inv e" "unlimited e"
  shows "refines (ApiSadd k ms) k e"
proof (cases "ms = []")
  case False
  with assms show ?thesis
  proof (rule_tac refines_container [where ty = SET and g = VInt and d = 0
      and upd = "\<lambda>r. r\<lparr>rec_value := (rec_value r)\<lparr>set_value := fold std_set_insert ms (set_value (rec_value r))\<rparr>\<rparr>"
      and f = "\<lambda>r. int (card (set ms - set (set_value (rec_value r))))"], goal_cases)
    case 3
    show ?case
      by (simp only: api_exec.simps engine_sadd_def Let_def split_beta fst_sadd_loop snd_sadd_loop
          False if_False add_0)
  qed (simp_all add: spec_simps DataValue0_def rec_wf_ordered sset.set_fold_ins [simplified])
qed (simp add: refines_def engine_sadd_def)

lemma refines_hset:
  assumes "eng_inv e" "unlimited e"
  shows "refines (ApiHset k f v) k e"
  using assms
proof (rule_tac refines_container [where ty = HASH and g = VInt and d = 0
      and upd = "\<lambda>r. r\<lparr>rec_value := (rec_value r)\<lparr>hash_value := std_map_assign f v (hash_value (rec_value r))\<rparr>\<rparr>"
      and f = "\<lambda>r. if map_of (hash_value (rec_value r)) f = None then 1 else 0"], goal_cases)
  case 3
  show ?case by (simp only: api_exec.simps engine_hset_def Let_def)
qed (simp_all add: spec_simps DataValue0_def)

lemma sorted_list_ordered: "ordered s \<Longrightarrow> sorted_list_of_set (set s) = (s :: string list)"
  by (metis sorted_list_of_set.idem_if_sorted_distinct strict_sorted_iff)

lemma hash_pairs_ordered:
  assumes "key_ordered h"
  shows "hash_pairs (map_of h) = h"
proof -
  have "sorted_list_of_set (dom (map_of h)) = map fst h"
    using sorted_list_ordered [OF assms] by (simp add: dom_map_of_conv_image_fst)
  moreover have "\<And>kv. kv \<in> set h \<Longrightarrow> (fst kv, the (map_of h (fst kv))) = kv"
    using ordered_distinct [OF assms] by (auto simp: map_of_is_SomeI)
  ultimately show ?thesis
    by (simp add: hash_pairs_def map_idI)
qed

lemma refines_list_readers:
  assumes "eng_inv e"
  shows "refines (ApiLlen k) k e" and "refines (ApiLindex k i) k e"
  by (rule refines_reader [OF assms];
      (simp only: api_exec.simps engine_llen_def engine_lindex_def)?;
      simp add: spec_simps count_def)+

lemma refines_set_readers:
  assumes "eng_inv e"
  shows "refines (ApiScard k) k e" and "refines (ApiSismember k m) k e" and "refines (ApiSmembers k) k e"
  by (rule refines_reader [OF assms];
      (simp only: api_exec.simps engine_scard_def engine_sismember_def engine_smembers_def)?;
      simp add: spec_simps count_def rec_wf_ordered sset.size_card [simplified] sorted_list_ordered)+

lemma refines_hash_readers:
  assumes "eng_inv e"
  shows "refines (ApiHget k f) k e" and "refines (ApiHlen k) k e" and "refines (ApiHexists k f) k e"
    and "refines (ApiHgetall k) k e"
  by (rule refines_reader [OF assms];
      (simp only: api_exec.simps engine_hget_def engine_hlen_def engine_hexists_def engine_hgetall_def)?;
      simp add: spec_simps count_def rec_wf_ordered smap.size_card [simplified] hash_pairs_ordered
        dom_map_of_conv_image_fst)+

lemma refines_lpop:
  assumes "eng_inv e" "unlimited e"
  shows "refines (ApiLpop k) k e"
  using assms(1)
proof (cases rule: getLive_cases [of e k])
  case (gone ms e')
  then show ?thesis by (simp add: refines_def engine_lpop_def spec_simps)
next
  case (live r e')
  then show ?thesis
    using assms(2)
    by (cases "dv_type (rec_value r) = LIST"; cases "list_value (rec_value r)")
      (auto simp: refines_def engine_lpop_def spec_simps put_logged_abs Let_def)
qed

lemma refines_rpop:
  assumes "eng_inv e" "unlimited e"
  shows "refines (ApiRpop k) k e"
  using assms(1)
proof (cases rule: getLive_cases [of e k])
  case (gone ms e')
  then show ?thesis by (simp add: refines_def engine_rpop_def spec_simps)
next
  case (live r e')
  then show ?thesis
    using assms(2)
    by (cases "dv_type (rec_value r) = LIST")
      (auto simp: refines_def engine_rpop_def spec_simps put_logged_abs Let_def)
qed

lemma refines_srem:
  assumes "eng_inv e" "unlimited e"
  shows "refines (ApiSrem k ms) k e"
  using assms(1)
proof (cases rule: getLive_cases [of e k])
  case (gone ms' e')
  then show ?thesis by (simp add: refines_def engine_srem_def spec_simps)
next
  case (live r e')
  have s: "set (fold std_set_erase ms (set_value (rec_value r))) = set (set_value (rec_value r)) - set ms"
    using sset.set_fold_del [of "set_value (rec_value r)" ms] live(3) by (simp add: rec_wf_ordered)
  then have "fold std_set_erase ms (set_value (rec_value r)) = [] \<longleftrightarrow> set (set_value (rec_value r)) \<subseteq> set ms"
    by (metis Diff_eq_empty_iff set_empty)
  with live assms(2) s show ?thesis
    by (cases "dv_type (rec_value r) = SET")
      (auto simp: refines_def engine_srem_def spec_simps put_logged_abs Let_def
        split_beta fst_srem_loop snd_srem_loop)
qed

lemma refines_hdel:
  assumes "eng_inv e" "unlimited e"
  shows "refines (ApiHdel k fs) k e"
  using assms(1)
proof (cases rule: getLive_cases [of e k])
  case (gone ms' e')
  then show ?thesis by (simp add: refines_def engine_hdel_def spec_simps)
next
  case (live r e')
  let ?h = "hash_value (rec_value r)" and ?h' = "fold std_map_erase fs (hash_value (rec_value r))"
  have h: "map_of ?h' = map_of ?h |` (- set fs)"
    using smap.find_fold_del [of ?h fs] live(3) by (auto simp: rec_wf_ordered restrict_map_def)
  have "?h' = [] \<longleftrightarrow> dom (map_of ?h') = {}"
    by (simp add: dom_map_of_conv_image_fst)
  then have "?h' = [] \<longleftrightarrow> dom (map_of ?h) \<subseteq> set fs"
    unfolding h by auto
  with live assms(2) h show ?thesis
    by (cases "dv_type (rec_value r) = HASH")
      (auto simp: refines_def engine_hdel_def spec_simps put_logged_abs Let_def
        split_beta fst_hdel_loop snd_hdel_loop)
qed

end
