(* ===== verification/Engine_Props.thy ===== *)
theory Engine_Props
  imports Engine_Spec Engine_Load
begin

text \<open>
  The properties of the storage engine and its backend: refinement of the abstract store, the
  invariant over whole runs, faithfulness of the mutation log, frame, quota, expiration, dump and
  load, and what a quota failure in the middle of a container write leaves behind.
\<close>

section \<open>Shared lemmas\<close>

definition new_engine :: "u64 \<Rightarrow> u64 \<Rightarrow> (nat \<Rightarrow> int) \<Rightarrow> Engine" where
  "new_engine szrec max_bytes clock = \<lparr>eng_backend = InMemoryBackend szrec max_bytes, eng_clock = clock, eng_reads = 0\<rparr>"

lemma new_engine_inv: "\<forall>n. in_i64 (clock n) \<Longrightarrow> eng_inv (new_engine sz m clock)"
  by (simp add: eng_inv_def new_engine_def)

lemma new_engine_simps [simp]:
  "eng_clock (new_engine sz m clock) = clock"
  "clock_now (new_engine sz m clock) = clock 0"
  "eng_backend (new_engine sz m clock) = InMemoryBackend sz m"
  by (simp_all add: new_engine_def clock_now_def)

lemma new_engine_unlimited [simp]: "unlimited (new_engine sz 0 clock)"
  by (simp add: unlimited_def new_engine_def InMemoryBackend_def)

lemma new_engine_view [simp]: "eng_view (new_engine sz m clock) = Map.empty"
  by (simp add: new_engine_def InMemoryBackend_def getRecord_def fun_eq_iff)

lemma engine5_inv: "eng_inv (new_engine sz m (\<lambda>_. 5))"
  by (simp add: new_engine_inv in_i64_def i64_min_def i64_max_def)

lemma call_refines:
  assumes "eng_inv e" "unlimited e" "0 \<le> clock_now e" "call_key c = Some k"
    and "\<And>ttl. c = ApiExpire k ttl \<Longrightarrow> in_i64 (clock_now e + ttl * 1000000)"
    and "\<And>r. c = ApiDel k \<Longrightarrow> eng_view e k = Some r \<Longrightarrow> \<not> isExpired r (clock_now e)"
  shows "refines c k e"
proof (cases c)
  case (ApiDel k')
  with assms show ?thesis by (auto intro!: refines_del simp: eng_get_def)
next
  case (ApiExpire k' ttl)
  with assms show ?thesis by (auto intro!: refines_expire)
qed (use assms in \<open>auto simp: refines_set refines_get refines_exists refines_persist refines_ttl
  refines_lpush refines_rpush refines_lpop refines_rpop refines_list_readers refines_sadd
  refines_srem refines_set_readers refines_hset refines_hdel refines_hash_readers\<close>)

lemma call_keeps: "eng_inv e \<Longrightarrow> call_key c = Some k \<Longrightarrow> keeps k e (snd (api_exec c e))"
  using api_exec_sound [of e c k] by (auto simp: sound_step_def pend_def split: if_splits)

lemma call_inv: "eng_inv e \<Longrightarrow> eng_inv (snd (api_exec c e))"
  using call_keeps [of e c] api_exec_no_key [of c e]
  by (cases "call_key c") (auto simp: keeps_def)

lemma call_replay:
  "eng_inv e \<Longrightarrow> sr_status (fst (api_exec c e)) \<noteq> QuotaExceeded \<Longrightarrow>
     replay (sr_mutations (fst (api_exec c e))) (eng_view e) = eng_view (snd (api_exec c e))"
  using api_exec_sound [of e c] api_exec_no_key [of c e]
  by (cases "call_key c") (auto simp: sound_step_def pend_def)

lemma call_mut_wf: "eng_inv e \<Longrightarrow> m \<in> set (sr_mutations (fst (api_exec c e))) \<Longrightarrow> mut_wf m"
  using api_exec_sound [of e c] api_exec_no_key [of c e]
  by (cases "call_key c") (auto simp: sound_step_def pend_def split: if_splits)

lemma run_inv: "eng_inv e \<Longrightarrow> eng_inv (snd (api_run cs e))"
  by (induction cs arbitrary: e) (auto simp: Let_def split_beta call_inv)

definition run_log :: "api_call list \<Rightarrow> Engine \<Rightarrow> Mutation list" where
  "run_log cs e = concat (map sr_mutations (fst (api_run cs e)))"

lemma run_log_Cons [simp]:
  "run_log [] e = []"
  "run_log (c # cs) e = sr_mutations (fst (api_exec c e)) @ run_log cs (snd (api_exec c e))"
  by (simp_all add: run_log_def Let_def split_beta)

lemma run_replay:
  "eng_inv e \<Longrightarrow> \<forall>r \<in> set (fst (api_run cs e)). sr_status r \<noteq> QuotaExceeded \<Longrightarrow>
     replay (run_log cs e) (eng_view e) = eng_view (snd (api_run cs e))"
  by (induction cs arbitrary: e) (auto simp: Let_def split_beta call_replay call_inv)

lemma run_mut_wf: "eng_inv e \<Longrightarrow> m \<in> set (run_log cs e) \<Longrightarrow> mut_wf m"
proof (induction cs arbitrary: e)
  case (Cons c cs)
  then show ?case using Cons.IH [OF call_inv [of e c]] by (auto dest: call_mut_wf)
qed simp

section \<open>Refinement\<close>



section \<open>Invariant, log and frame\<close>

text \<open>
  C23. Any sequence of storage calls keeps the invariant of the engine: keys are distinct, the byte
  accounting is the sum of the footprints, every record uses only the field of its type and has
  ordered containers; and every mutation that is returned for the log is well formed.
\<close>

theorem run_keeps_invariant:
  assumes "eng_inv e"
  shows "eng_inv (snd (api_run cs e)) \<and> (\<forall>m \<in> set (run_log cs e). mut_wf m)"
  using run_inv [OF assms] run_mut_wf [OF assms] by blast

theorem run_keeps_invariant_witness:
  "eng_inv (snd (api_run [ApiSet ''a'' ''1'', ApiHset ''h'' ''f'' ''v'', ApiGet ''h''] (new_engine 400 0 (\<lambda>_. 5))))"
  using run_keeps_invariant [OF engine5_inv] by blast

text \<open>
  C9. The mutation log is faithful: if no call of a run fails for the quota, replaying the mutations
  that the calls returned, in order, on the contents before the run gives the contents after it.
  Lazy expiration is part of the log, wrong types and read-only calls add nothing to it.
\<close>

theorem log_replays_run:
  assumes "eng_inv e" "\<forall>r \<in> set (fst (api_run cs e)). sr_status r \<noteq> QuotaExceeded"
  shows "replay (run_log cs e) (eng_view e) = eng_view (snd (api_run cs e))"
  using run_replay [OF assms] .

theorem log_replays_run_witness:
  "replay (run_log [ApiRpush ''l'' [''x'', ''y''], ApiLpop ''l''] (new_engine 400 0 (\<lambda>_. 5)))
     (eng_view (new_engine 400 0 (\<lambda>_. 5)))
   = eng_view (snd (api_run [ApiRpush ''l'' [''x'', ''y''], ApiLpop ''l''] (new_engine 400 0 (\<lambda>_. 5))))"
proof (rule log_replays_run)
  show "eng_inv (new_engine 400 0 (\<lambda>_. 5))"
    by (rule engine5_inv)
  show "\<forall>r \<in> set (fst (api_run [ApiRpush ''l'' [''x'', ''y''], ApiLpop ''l''] (new_engine 400 0 (\<lambda>_. 5)))).
      sr_status r \<noteq> QuotaExceeded"
    by code_simp
qed

text \<open>
  A call works on its key only, even when it fails: the record of every other key stays, and
  every mutation it returns is about its key.
\<close>

theorem call_frame:
  assumes "eng_inv e" "call_key c = Some k" "k' \<noteq> k"
  shows "eng_view (snd (api_exec c e)) k' = eng_view e k' \<and>
    (\<forall>m \<in> set (sr_mutations (fst (api_exec c e))). mut_key m = k)"
  using call_keeps [OF assms(1,2)] api_exec_sound [OF assms(1,2)] assms(3)
  by (auto simp: keeps_def sound_step_def pend_def split: if_splits)

theorem call_frame_witness:
  "eng_view (snd (api_exec (ApiLpush ''l'' [''x'']) (new_engine 400 0 (\<lambda>_. 5)))) ''other'' = None"
  using call_frame [OF engine5_inv [of 400 0], of "ApiLpush ''l'' [''x'']" "''l''" "''other''"]
  by simp

section \<open>Quota\<close>

text \<open>Footprints as natural numbers, before the wrap-around of \<^verbatim>\<open>size_t\<close>.\<close>

definition footprint_nat :: "u64 \<Rightarrow> (string \<times> Record) list \<Rightarrow> nat" where
  "footprint_nat sz kvs = sum_list (map (\<lambda>(k, r). unat (estimateFootprint sz k r)) kvs)"

lemma footprint_sum_nat: "footprint_sum sz kvs = of_nat (footprint_nat sz kvs)"
  by (induction kvs) (auto simp: footprint_sum_def footprint_nat_def)

lemma footprint_nat_update:
  "distinct (map fst kvs) \<Longrightarrow> footprint_nat sz (AList.update k r kvs) +
     (case map_of kvs k of None \<Rightarrow> 0 | Some r' \<Rightarrow> unat (estimateFootprint sz k r')) =
     footprint_nat sz kvs + unat (estimateFootprint sz k r)"
  by (induction kvs) (auto simp: footprint_nat_def split: option.splits)

text \<open>
  C29. The quota is exact: as long as the limit plus one footprint stays below \<open>2 ^ 64\<close>, \<^verbatim>\<open>putRecord\<close>
  accepts a record if and only if the total footprint with it is within the limit, and the
  counter of used bytes is the true total, so that a store within its limit stays within it.
\<close>

theorem putRecord_exact_quota:
  assumes "be_inv b" "\<not> bypass_limit b" "0 < max_storage_bytes b"
    and "footprint_nat (sizeof_Record b) (be_map b) \<le> unat (max_storage_bytes b)"
    and "unat (max_storage_bytes b) + unat (estimateFootprint (sizeof_Record b) k r) < 2 ^ 64"
  shows "(fst (putRecord k r b) \<longleftrightarrow>
      footprint_nat (sizeof_Record b) (AList.update k r (be_map b)) \<le> unat (max_storage_bytes b)) \<and>
    footprint_nat (sizeof_Record b) (be_map (snd (putRecord k r b))) \<le> unat (max_storage_bytes b) \<and>
    unat (estimatedBytesUsed (snd (putRecord k r b))) =
      footprint_nat (sizeof_Record b) (be_map (snd (putRecord k r b)))"
proof -
  let ?sz = "sizeof_Record b" and ?n = "footprint_nat (sizeof_Record b) (AList.update k r (be_map b))"
  let ?old = "case map_of (be_map b) k of None \<Rightarrow> 0 | Some r' \<Rightarrow> estimateFootprint ?sz k r'"
  let ?new = "bytes_used b - ?old + estimateFootprint ?sz k r"
  have d: "distinct (map fst (be_map b))" and u: "bytes_used b = footprint_sum ?sz (be_map b)"
    using assms(1) by (simp_all add: be_inv_def)
  have lt: "?n < 2 ^ 64"
    using footprint_nat_update [OF d, of ?sz k r] assms(4,5) by linarith
  have "?new = footprint_sum ?sz (AList.update k r (be_map b))"
    using footprint_sum_update [OF d, of ?sz k r] u by simp
  then have new: "unat ?new = ?n"
    using lt by (simp add: footprint_sum_nat unat_of_nat)
  have old: "unat (bytes_used b) = footprint_nat ?sz (be_map b)"
    using assms(4,5) by (simp add: u footprint_sum_nat unat_of_nat)
  have acc: "fst (putRecord k r b) \<longleftrightarrow> ?n \<le> unat (max_storage_bytes b)"
    using assms(2,3) new by (auto simp: putRecord_def Let_def word_less_nat_alt not_less)
  show ?thesis
  proof (cases "fst (putRecord k r b)")
    case True
    then have "snd (putRecord k r b) = b\<lparr>be_map := AList.update k r (be_map b), bytes_used := ?new\<rparr>"
      by (auto simp: putRecord_def Let_def split: if_splits)
    with True acc new show ?thesis by (simp add: estimatedBytesUsed_def)
  next
    case False
    with mem.put_refused [OF False] acc old assms(4) show ?thesis by (simp add: estimatedBytesUsed_def)
  qed
qed

definition quota_example :: Backend where
  "quota_example = InMemoryBackend 400 1000"

lemma quota_example_fp:
  "estimateFootprint 400 ''k'' (Record0\<lparr>rec_value := DataValue_str ''v''\<rparr>) = 234"
  by (simp add: estimateFootprint_def estimateDataValue_def str_size_def DataValue_str_def DataValue0_def)

theorem putRecord_exact_quota_witness:
  "fst (putRecord ''k'' (Record0\<lparr>rec_value := DataValue_str ''v''\<rparr>) quota_example) \<and>
   unat (estimatedBytesUsed (snd (putRecord ''k'' (Record0\<lparr>rec_value := DataValue_str ''v''\<rparr>) quota_example))) \<le> 1000"
  using putRecord_exact_quota [of quota_example "''k''" "Record0\<lparr>rec_value := DataValue_str ''v''\<rparr>"]
  by (simp add: quota_example_def InMemoryBackend_def be_inv_def footprint_sum_def footprint_nat_def
      quota_example_fp)

definition is_push :: "api_call \<Rightarrow> bool" where
  "is_push c = (case c of ApiLpush _ _ \<Rightarrow> True | ApiRpush _ _ \<Rightarrow> True | ApiSadd _ _ \<Rightarrow> True
     | ApiHset _ _ _ \<Rightarrow> True | _ \<Rightarrow> False)"

lemma put_logged_refused:
  "sr_status (fst (put_logged k r ms d v e)) = QuotaExceeded \<Longrightarrow>
     eng_view (snd (put_logged k r ms d v e)) = eng_view e"
  by (auto simp: put_logged_def Let_def split_beta mem.put_refused split: if_splits)

lemma put_logged_at_refused:
  "sr_status (fst (put_logged_at k r t d v e)) = QuotaExceeded \<Longrightarrow>
     eng_view (snd (put_logged_at k r t d v e)) = eng_view e"
  by (auto simp: put_logged_at_def Let_def split_beta mem.put_refused split: if_splits)

lemma getLive_some_view:
  "getLiveRecordOrExpire k e = (Some r, ms, e') \<Longrightarrow> eng_view e' = eng_view e"
  by (auto simp: getLiveRecordOrExpire_def Let_def split_beta split: option.splits if_splits)

lemma sr_map_status [simp]: "sr_status (fst (sr_map f x)) = sr_status (fst x)"
  by (simp add: sr_map_def split_beta)

lemmas refused_simps = Let_def split_beta put_logged_refused put_logged_at_refused
  getLive_some_view del_logged_def del_logged_at_def

lemma refused_string:
  "sr_status (fst (engine_set k v e)) = QuotaExceeded \<Longrightarrow> eng_view (snd (engine_set k v e)) = eng_view e"
  "sr_status (fst (engine_expire k t e)) = QuotaExceeded \<Longrightarrow> eng_view (snd (engine_expire k t e)) = eng_view e"
  "sr_status (fst (engine_persist k e)) = QuotaExceeded \<Longrightarrow> eng_view (snd (engine_persist k e)) = eng_view e"
  by (auto simp: engine_set_def engine_expire_def engine_persist_def refused_simps
      split: option.splits if_splits)

lemma refused_remove:
  "sr_status (fst (engine_lpop k e)) = QuotaExceeded \<Longrightarrow> eng_view (snd (engine_lpop k e)) = eng_view e"
  "sr_status (fst (engine_rpop k e)) = QuotaExceeded \<Longrightarrow> eng_view (snd (engine_rpop k e)) = eng_view e"
  "sr_status (fst (engine_srem k ms e)) = QuotaExceeded \<Longrightarrow> eng_view (snd (engine_srem k ms e)) = eng_view e"
  "sr_status (fst (engine_hdel k ms e)) = QuotaExceeded \<Longrightarrow> eng_view (snd (engine_hdel k ms e)) = eng_view e"
  by (cases "getLiveRecordOrExpire k e"; auto simp: engine_lpop_def engine_rpop_def engine_srem_def
      engine_hdel_def Let_def split_beta put_logged_refused getLive_some_view del_logged_def
      split: option.splits if_splits list.splits)+

lemma never_quota:
  "sr_status (fst (engine_get k e)) \<noteq> QuotaExceeded" "sr_status (fst (engine_del k e)) \<noteq> QuotaExceeded"
  "sr_status (fst (engine_exists k e)) \<noteq> QuotaExceeded" "sr_status (fst (engine_ttl k e)) \<noteq> QuotaExceeded"
  "sr_status (fst (engine_pttl k e)) \<noteq> QuotaExceeded" "sr_status (fst (engine_dbsize e)) \<noteq> QuotaExceeded"
  "sr_status (fst (engine_keys e)) \<noteq> QuotaExceeded"
  "sr_status (fst (read_container ty d n f k e)) \<noteq> QuotaExceeded"
  by (auto simp: engine_get_def engine_del_def engine_exists_def engine_ttl_def engine_pttl_def
      engine_dbsize_def engine_keys_def read_container_def Let_def split_beta del_logged_at_def
      split: option.split)

text \<open>
  A call that the quota refuses changes no record, except for the four container writes
  \<^verbatim>\<open>lpush\<close>, \<^verbatim>\<open>rpush\<close>, \<^verbatim>\<open>sadd\<close> and \<^verbatim>\<open>hset\<close>.
\<close>

theorem quota_refusal_harmless:
  assumes "sr_status (fst (api_exec c e)) = QuotaExceeded" "\<not> is_push c"
  shows "eng_view (snd (api_exec c e)) = eng_view e"
  using assms
  by (cases c) (auto simp: refused_string refused_remove never_quota is_push_def read_only_defs)

theorem quota_refusal_harmless_witness:
  "eng_view (snd (api_exec (ApiSet ''k'' ''v'') (new_engine 400 200 (\<lambda>_. 5)))) =
   eng_view (new_engine 400 200 (\<lambda>_. 5))"
proof (rule quota_refusal_harmless)
  show "sr_status (fst (api_exec (ApiSet ''k'' ''v'') (new_engine 400 200 (\<lambda>_. 5)))) = QuotaExceeded"
    by code_simp
qed (simp add: is_push_def)

text \<open>
  A list write whose second store is refused by the quota is not undone and not logged: the
  call fails, returns no mutation, and leaves the empty list that it created, which the log
  does not know.
\<close>

theorem push_quota_failure_unlogged:
  assumes "eng_view e k = None" "vs \<noteq> []"
    and "fst (putRecord k (new_container LIST) (eng_backend e))"
    and "\<not> fst (putRecord k ((new_container LIST)\<lparr>rec_value := (rec_value (new_container LIST))\<lparr>list_value := vs\<rparr>\<rparr>)
        (snd (putRecord k (new_container LIST) (eng_backend e))))"
  shows "sr_status (fst (engine_rpush k vs e)) = QuotaExceeded \<and>
    sr_mutations (fst (engine_rpush k vs e)) = [] \<and>
    eng_view (snd (engine_rpush k vs e)) = (eng_view e)(k \<mapsto> new_container LIST)"
proof -
  have g: "getLiveRecordOrExpire k e = (None, [], e)"
    using assms(1) by (simp add: getLiveRecordOrExpire_def eng_get_def)
  show ?thesis
    using assms g mem.view_put [OF assms(3)]
    by (simp add: engine_rpush_def getOrInitContainer_def put_logged_def Let_def split_beta
        fold_push_back DataValue0_def mem.put_refused)
qed

theorem push_quota_failure_unlogged_witness:
  "sr_status (fst (engine_rpush ''k'' [''abcdefghijklmnopqrst''] (new_engine 400 250 (\<lambda>_. 5)))) = QuotaExceeded \<and>
   eng_view (snd (engine_rpush ''k'' [''abcdefghijklmnopqrst''] (new_engine 400 250 (\<lambda>_. 5)))) =
     [''k'' \<mapsto> new_container LIST]"
proof -
  have p: "fst (putRecord ''k'' (new_container LIST) (InMemoryBackend 400 250))"
    by code_simp
  have q: "\<not> fst (putRecord ''k'' ((new_container LIST)\<lparr>rec_value :=
        (rec_value (new_container LIST))\<lparr>list_value := [''abcdefghijklmnopqrst'']\<rparr>\<rparr>)
        (snd (putRecord ''k'' (new_container LIST) (InMemoryBackend 400 250))))"
    by code_simp
  show ?thesis
    using push_quota_failure_unlogged [of "''k''" "new_engine 400 250 (\<lambda>_. 5)" "[''abcdefghijklmnopqrst'']"] p q
    by simp
qed

section \<open>Expiration, dump and load\<close>

lemma nowEpochUs_eq: "nowEpochUs e = (clock_now e, snd (nowEpochUs e))"
  by (simp add: nowEpochUs_def)

lemma eng_reads_simps [simp]:
  "eng_reads (snd (nowEpochUs e)) = Suc (eng_reads e)"
  "eng_reads (snd (eng_put k r e)) = eng_reads e"
  "eng_reads (snd (eng_del k e)) = eng_reads e"
  by (simp_all add: nowEpochUs_def eng_put_def eng_del_def)

lemma engine_set_effect:
  assumes "unlimited e"
  shows "eng_view (snd (engine_set k v e)) k =
      Some (Record0\<lparr>rec_value := DataValue_str v, expire_at_us := -1, version := 0\<rparr>)"
    and "unlimited (snd (engine_set k v e))" and "eng_clock (snd (engine_set k v e)) = eng_clock e"
    and "eng_reads (snd (engine_set k v e)) = Suc (eng_reads e)"
  using unlimited_put [OF assms] assms
  by (simp_all add: engine_set_def put_logged_def Let_def split_beta mem.get_put)

lemma engine_expire_effect:
  assumes "unlimited e" "eng_view e k = Some r" "expire_at_us r < 0" "0 < s"
    and "in_i64 (clock_now e + s * 1000000)" "0 \<le> clock_now e"
  shows "eng_view (snd (engine_expire k s e)) k = Some (r\<lparr>expire_at_us := clock_now e + s * 1000000\<rparr>)"
    and "eng_clock (snd (engine_expire k s e)) = eng_clock e"
    and "eng_reads (snd (engine_expire k s e)) = Suc (eng_reads e)"
proof -
  have "in_i64 (s * 1000000)"
    using assms(4-6) by (simp add: in_i64_def i64_min_def)
  then have t: "to_i64 (clock_now e + to_i64 (s * 1000000)) = clock_now e + s * 1000000"
    using assms(5) by (simp add: to_i64_id)
  have "\<not> isExpired r (clock_now e)" using assms(3) by (simp add: isExpired_def)
  then show "eng_view (snd (engine_expire k s e)) k = Some (r\<lparr>expire_at_us := clock_now e + s * 1000000\<rparr>)"
    and "eng_clock (snd (engine_expire k s e)) = eng_clock e"
    and "eng_reads (snd (engine_expire k s e)) = Suc (eng_reads e)"
    using assms unlimited_put [of "snd (nowEpochUs e)" k]
    by (simp_all add: engine_expire_def eng_get_def put_logged_at_def Let_def split_beta t mem.get_put)
qed

text \<open>
  C30. The life of a key with a time to live: after \<^verbatim>\<open>set\<close> and \<^verbatim>\<open>expire\<close> with \<open>s\<close> seconds at time
  \<open>t1\<close>, a \<^verbatim>\<open>get\<close> at time \<open>t2\<close> returns the value while \<open>t2\<close> is before \<open>t1 + s\<close> seconds, and \<^verbatim>\<open>ttl\<close> the
  remaining time in whole seconds; from then on \<^verbatim>\<open>get\<close> finds nothing, deletes the key and logs the
  deletion.
\<close>

theorem expiry_timeline:
  assumes "unlimited e" "0 < s"
    and "t1 = eng_clock e (Suc (eng_reads e))" "t2 = eng_clock e (Suc (Suc (eng_reads e)))"
    and "0 \<le> t1" "0 \<le> t2" "in_i64 (t1 + s * 1000000)"
    and "e2 = snd (engine_expire k s (snd (engine_set k v e)))"
  shows "if t2 < t1 + s * 1000000
    then fst (engine_get k e2) = sr_ok (Some v) [] \<and>
         fst (engine_ttl k e2) = sr_ok ((t1 + s * 1000000 - t2) div 1000000) []
    else fst (engine_get k e2) = sr_ok None [mut_del k t2] \<and>
         fst (engine_ttl k e2) = sr_ok (-2) [mut_del k t2] \<and>
         eng_view (snd (engine_get k e2)) k = None"
proof -
  let ?e1 = "snd (engine_set k v e)"
    and ?r = "Record0\<lparr>rec_value := DataValue_str v, expire_at_us := t1 + s * 1000000, version := 0\<rparr>"
  have now1: "clock_now ?e1 = t1"
    using assms(3) engine_set_effect [OF assms(1), of k v] by (simp add: clock_now_def)
  have x: "eng_get k e2 = Some ?r" and now2: "clock_now e2 = t2"
    using engine_expire_effect [OF engine_set_effect(2) [OF assms(1)] engine_set_effect(1) [OF assms(1), of k v], of s]
      engine_set_effect [OF assms(1), of k v] assms now1
    by (simp_all add: eng_get_def clock_now_def)
  have "t2 < t1 + s * 1000000 \<Longrightarrow> to_i64 (t1 + s * 1000000 - t2) = t1 + s * 1000000 - t2"
    using assms(5-7) by (intro to_i64_id) (auto simp: in_i64_def i64_min_def)
  then show ?thesis
    using x now2 assms(2,5)
    by (simp add: engine_get_def engine_ttl_def Let_def split_beta isExpired_def del_logged_at_def
        mem.get_del DataValue_str_def DataValue0_def)
qed

theorem expiry_timeline_witness:
  "fst (engine_get ''k'' (snd (engine_expire ''k'' 2 (snd (engine_set ''k'' ''v''
      (new_engine 400 0 (\<lambda>n. 1000000 * int n))))))) = sr_ok (Some ''v'') []"
  using expiry_timeline [of "new_engine 400 0 (\<lambda>n. 1000000 * int n)" 2 1000000 2000000 _ "''k''" "''v''"]
  by (simp add: new_engine_def in_i64_def i64_min_def i64_max_def del: new_engine_unlimited)
    (simp add: unlimited_def InMemoryBackend_def)

text \<open>
  A dump followed by a load restores the contents: the dump lists each stored key once with
  its record and leaves the store holding exactly the listed records; a record is left out only
  if it had expired at a time that was read; and loading the list into any engine, whatever its
  quota, gives the same contents.
\<close>

theorem dump_then_load:
  assumes "eng_inv e" "dumpAllLiveRecords e = (out, e')"
  shows "map_of out = eng_view e' \<and> distinct (map fst out) \<and>
    eng_view (loadSnapshot out e2) = eng_view e' \<and>
    (\<forall>k r. eng_view e k = Some r \<longrightarrow> eng_view e' k = Some r \<or> (\<exists>n. isExpired r (eng_clock e n)))"
proof -
  note d = dump_view [OF assms]
  have "map_of (rev out) = map_of out"
    using map_of_inject_set [of "rev out" out] d(2) by (simp add: rev_map [symmetric])
  moreover have "dump_keys (be_keys (eng_backend e)) e = (out, e')"
    using assms(2) by (simp add: dumpAllLiveRecords_def)
  ultimately show ?thesis
    using d loadSnapshot_view [of out e2] dump_keys_lost by (intro conjI allI impI) auto
qed

theorem dump_then_load_witness:
  "eng_view (loadSnapshot (fst (dumpAllLiveRecords (snd (engine_set ''k'' ''v'' (new_engine 400 0 (\<lambda>_. 5))))))
     (new_engine 400 1 (\<lambda>_. 5)))
   = eng_view (snd (dumpAllLiveRecords (snd (engine_set ''k'' ''v'' (new_engine 400 0 (\<lambda>_. 5))))))"
proof -
  have "eng_inv (snd (engine_set ''k'' ''v'' (new_engine 400 0 (\<lambda>_. 5))))"
    using call_inv [OF engine5_inv, of "ApiSet ''k'' ''v''"] by simp
  from dump_then_load [OF this prod.collapse [symmetric]] show ?thesis by blast
qed

end
