(* ===== verification/Persist_Lemmas.thy ===== *)
theory Persist_Lemmas
  imports Orchestrator Engine_Props "HOL-Library.Multiset"
begin

text \<open>
  Lemmas about group commit, the queue and recovery that the properties of persistence use.
\<close>

section \<open>Group commit writes every batch in order\<close>

definition commit_inv :: "WalWriter \<Rightarrow> byte list \<Rightarrow> commit_state \<Rightarrow> bool" where
  "commit_inv w0 done s \<longleftrightarrow> (case s of (buf, n, w) \<Rightarrow>
     log_bytes w @ buf = log_bytes w0 @ done \<and> length buf \<le> length done \<and> ww_fd w \<and>
     max_suffix w + 3 * length buf \<le> max_suffix w0 + 3 * length done)"

lemma flushBuf_inv:
  assumes "no_failures env" "commit_inv w0 done s" "max_suffix w0 + 3 * length done < int_max"
  shows "commit_inv w0 done (flushBuf env s)" and "fst (flushBuf env s) = []"
proof -
  obtain buf n w where s: "s = (buf, n, w)" by (metis prod_cases3)
  show "fst (flushBuf env s) = []" by (simp add: flushBuf_def s)
  show "commit_inv w0 done (flushBuf env s)"
  proof (cases "buf = []")
    case False
    then have pos: "1 \<le> length buf" by (cases buf) auto
    have inv: "log_bytes w @ buf = log_bytes w0 @ done" "length buf \<le> length done" "ww_fd w"
      "max_suffix w + 3 * length buf \<le> max_suffix w0 + 3 * length done"
      using assms(2) by (simp_all add: commit_inv_def s)
    have "max_suffix w + 2 * length buf + 1 < int_max" using inv(4) pos assms(3) by linarith
    from appendBytes_log [OF assms(1) inv(3) this] False inv pos show ?thesis
      by (auto simp: commit_inv_def flushBuf_def s)
  qed (use assms(2) in \<open>simp add: flushBuf_def s\<close>)
qed

lemma commit_one_inv:
  assumes "no_failures env" "commit_inv w0 done s"
    "max_suffix w0 + 3 * length (done @ appendMutation m) < int_max"
  shows "commit_inv w0 (done @ appendMutation m) (commit_one env opt m s)"
proof -
  obtain buf n w where s: "s = (buf, n, w)" by (metis prod_cases3)
  have "commit_inv w0 (done @ appendMutation m) (buf @ appendMutation m, Suc n, w)"
    using assms(2) by (auto simp: commit_inv_def s)
  with flushBuf_inv(1) [OF assms(1) this assms(3)] show ?thesis
    by (simp add: commit_one_def s Let_def)
qed

lemma fold_commit_inv:
  "no_failures env \<Longrightarrow> commit_inv w0 done s \<Longrightarrow> max_suffix w0 + 3 * length (done @ encodeBatch ms) < int_max \<Longrightarrow>
     commit_inv w0 (done @ encodeBatch ms) (fold (commit_one env opt) ms s)"
proof (induction ms arbitrary: "done" s)
  case (Cons m ms)
  have "commit_inv w0 (done @ appendMutation m) (commit_one env opt m s)"
    by (rule commit_one_inv) (use Cons.prems in auto)
  from Cons.IH [OF Cons.prems(1) this] Cons.prems(3) show ?case by simp
qed simp

lemma fold_fold: "fold (fold f) xss s = fold f (concat xss) s"
  by (induction xss arbitrary: s) auto

lemma group_commit_log:
  assumes "no_failures env" "ww_fd w" "max_suffix w + 3 * length (encodeBatch (concat bs)) < int_max"
  shows "log_bytes (group_commit env opt bs w) = log_bytes w @ encodeBatch (concat bs)"
    and "ww_fd (group_commit env opt bs w)"
    and "max_suffix (group_commit env opt bs w) \<le> max_suffix w + 3 * length (encodeBatch (concat bs))"
proof -
  let ?s = "fold (commit_one env opt) (concat bs) ([], 0, w)"
  have "commit_inv w [] ([], 0, w)" using assms(2) by (simp add: commit_inv_def)
  from fold_commit_inv [OF assms(1) this, of "concat bs"] assms(3)
  have "commit_inv w (encodeBatch (concat bs)) ?s" by simp
  note f = flushBuf_inv [OF assms(1) this assms(3)]
  obtain n w' where "flushBuf env ?s = ([], n, w')" "group_commit env opt bs w = w'"
    using f(2) by (cases "flushBuf env ?s") (auto simp: group_commit_def fold_fold)
  with f(1) show "log_bytes (group_commit env opt bs w) = log_bytes w @ encodeBatch (concat bs)"
    and "ww_fd (group_commit env opt bs w)"
    and "max_suffix (group_commit env opt bs w) \<le> max_suffix w + 3 * length (encodeBatch (concat bs))"
    by (simp_all add: commit_inv_def)
qed

section \<open>The queue loses nothing\<close>

definition orch_inv :: "nat \<Rightarrow> OrchState \<Rightarrow> bool" where
  "orch_inv max_queue s \<longleftrightarrow>
     mset (os_written s @ taken (os_worker s) @ taken (os_flusher s) @ os_queue s) = mset (os_submitted s) \<and>
     length (os_queue s) \<le> queue_limit max_queue \<and> (os_dropped s > 0 \<longrightarrow> os_stop s)"

lemma orch_step_inv: "orch_step env opt mq s s' \<Longrightarrow> orch_inv mq s \<Longrightarrow> orch_inv mq s'"
  by (induction rule: orch_step.induct) (auto simp: orch_inv_def ac_simps)

lemma orch_reach_inv: "orch_reach env opt mq w s \<Longrightarrow> orch_inv mq s"
  by (induction rule: orch_reach.induct)
    (auto simp: orch_step_inv, simp add: orch_inv_def new_orch_def)

lemma length_encodeBatch_concat: "length (encodeBatch (concat xs)) = sum_list (map (\<lambda>b. length (encodeBatch b)) xs)"
  by (induction xs) auto

lemma encodeBatch_concat_mset:
  "mset xs = mset ys \<Longrightarrow> length (encodeBatch (concat xs)) = length (encodeBatch (concat ys))"
  by (metis length_encodeBatch_concat mset_map sum_mset_sum_list)

text \<open>The log holds exactly the written batches.\<close>

lemma orch_log:
  assumes "orch_reach env opt mq w s" "no_failures env" "ww_fd w"
    "max_suffix w + 3 * length (encodeBatch (concat (os_submitted s))) < int_max"
  shows "log_bytes (os_writer s) = log_bytes w @ encodeBatch (concat (os_written s)) \<and>
    ww_fd (os_writer s) \<and>
    max_suffix (os_writer s) \<le> max_suffix w + 3 * length (encodeBatch (concat (os_written s)))"
  using assms
proof (induction rule: orch_reach.induct)
  case init
  then show ?case by (simp add: new_orch_def)
next
  case (step s s')
  have inv: "mset (os_written s @ taken (os_worker s) @ taken (os_flusher s) @ os_queue s) = mset (os_submitted s)"
    using orch_reach_inv [OF step.hyps(1)] by (simp add: orch_inv_def)
  note le = encodeBatch_concat_mset [OF inv]
  have "length (encodeBatch (concat (os_submitted s))) \<le> length (encodeBatch (concat (os_submitted s')))"
    using step.hyps(2) by cases auto
  then have ih: "log_bytes (os_writer s) = log_bytes w @ encodeBatch (concat (os_written s))"
      "ww_fd (os_writer s)" "max_suffix (os_writer s) \<le> max_suffix w + 3 * length (encodeBatch (concat (os_written s)))"
    using step by auto
  have wr: "log_bytes (group_commit env opt l (os_writer s)) = log_bytes w @ encodeBatch (concat (os_written s @ l)) \<and>
      ww_fd (group_commit env opt l (os_writer s)) \<and>
      max_suffix (group_commit env opt l (os_writer s)) \<le> max_suffix w + 3 * length (encodeBatch (concat (os_written s @ l)))"
    if "length (encodeBatch (concat (os_written s @ l))) \<le> length (encodeBatch (concat (os_submitted s)))" for l
  proof -
    have "max_suffix (os_writer s) + 3 * length (encodeBatch (concat l)) < int_max"
      using ih(3) that step.prems(3) \<open>length (encodeBatch (concat (os_submitted s))) \<le> _\<close> by simp
    from group_commit_log [OF step.prems(1) ih(2) this, of opt] ih show ?thesis by simp
  qed
  from step.hyps(2) show ?case
    by cases (use ih wr le in auto)
qed

text \<open>Runs in which the worker and a flushing thread never hold batches at the same time.\<close>

inductive quiet_reach :: "WalEnv \<Rightarrow> CommitOptions \<Rightarrow> nat \<Rightarrow> WalWriter \<Rightarrow> OrchState \<Rightarrow> bool"
  for env :: WalEnv and opt :: CommitOptions and max_queue :: nat and w :: WalWriter where
  quiet_init: "quiet_reach env opt max_queue w (new_orch w)"
| quiet_step: "quiet_reach env opt max_queue w s \<Longrightarrow> orch_step env opt max_queue s s' \<Longrightarrow>
    os_worker s' = None \<or> os_flusher s' = None \<Longrightarrow> quiet_reach env opt max_queue w s'"

lemma quiet_reach_reach: "quiet_reach env opt mq w s \<Longrightarrow> orch_reach env opt mq w s"
  by (induction rule: quiet_reach.induct) (auto intro: orch_reach.intros)

lemma quiet_order:
  "quiet_reach env opt mq w s \<Longrightarrow>
     (os_worker s = None \<or> os_flusher s = None) \<and>
     os_written s @ taken (os_worker s) @ taken (os_flusher s) @ os_queue s = os_submitted s"
proof (induction rule: quiet_reach.induct)
  case quiet_init
  then show ?case by (simp add: new_orch_def)
next
  case (quiet_step s s')
  from quiet_step.hyps(2) show ?case
    by cases (use quiet_step.IH quiet_step.hyps(3) in auto)
qed

section \<open>Replaying a log\<close>

lemma apply_all_replay:
  "\<forall>m \<in> set ms. mut_ok m \<Longrightarrow> fst (apply_all ms e) \<and> eng_view (snd (apply_all ms e)) = replay ms (eng_view e)"
  by (induction ms arbitrary: e) (auto simp: applyMutation_effect split_beta)

lemma apply_all_inv: "eng_inv e \<Longrightarrow> \<forall>m \<in> set ms. mut_wf m \<Longrightarrow> eng_inv (snd (apply_all ms e))"
proof (induction ms arbitrary: e)
  case (Cons m ms)
  then have "mut_ok m" "eng_inv (snd (applyMutation m e))"
    by (simp_all add: applyMutation_inv mut_wf_def)
  with Cons show ?case by (simp add: split_beta applyMutation_effect)
qed simp

lemma log_ok_muts: "log_ok ms \<Longrightarrow> \<forall>m \<in> set ms. mut_ok m"
  by (simp add: mut_wf_def)

section \<open>One unlimited log file\<close>

lemma writeAll_numbered:
  "numbered (ww_base w) (ww_dir (snd (writeAll env p w))) = numbered (ww_base w) (ww_dir w)"
proof (induction env p w rule: writeAll.induct)
  case (1 env p w)
  show ?case
  proof (cases "p = [] \<or> sys_write env (ww_calls w) \<le> 0")
    case False
    then show ?thesis
      using 1 by (subst writeAll.simps) (auto simp: Let_def append_base_def numbered_update_base)
  qed (subst writeAll.simps, auto simp: Let_def)
qed

lemma appendBytes_unlimited:
  assumes "max_file_bytes w = 0" "numbered (ww_base w) (ww_dir w) = []"
  shows "numbered (ww_base w) (ww_dir (snd (appendBytes env data w))) = []"
    and "max_file_bytes (snd (appendBytes env data w)) = 0"
    and "ww_base (snd (appendBytes env data w)) = ww_base w"
  using assms writeAll_numbered [of w env data] writeAll_effect [of env data w, OF prod.collapse [symmetric]]
  by (simp_all add: appendBytes_def appendBytes_loop.simps)

definition single_file :: "WalWriter \<Rightarrow> bool" where
  "single_file w \<longleftrightarrow> max_file_bytes w = 0 \<and> numbered (ww_base w) (ww_dir w) = [] \<and> ww_fd w"

lemma single_file_log: "single_file w \<Longrightarrow> log_bytes w = base_content w"
  by (simp add: single_file_def log_bytes_def chain_bytes_eq segments_def base_content_def)

lemma single_file_append:
  assumes "single_file w" "no_failures env" "2 * length (encodeBatch ms) + 1 < int_max"
  shows "single_file (snd (append env ms w))" and "ww_base (snd (append env ms w)) = ww_base w"
    and "log_bytes (snd (append env ms w)) = log_bytes w @ encodeBatch ms"
proof -
  have s: "max_suffix w = 0" "ww_fd w" "max_file_bytes w = 0" "numbered (ww_base w) (ww_dir w) = []"
    using assms(1) by (simp_all add: single_file_def max_suffix_def maxNumericWalSuffix_def)
  have l: "max_suffix w + 2 * length (encodeBatch ms) + 1 < int_max" using assms(3) s(1) by simp
  note a = appendBytes_log [OF assms(2) s(2) l] and u = appendBytes_unlimited [OF s(3,4), of env "encodeBatch ms"]
  show "single_file (snd (append env ms w))" "ww_base (snd (append env ms w)) = ww_base w"
    "log_bytes (snd (append env ms w)) = log_bytes w @ encodeBatch ms"
    using a u assms(1) by (auto simp: append_def single_file_def)
qed

lemma chain_single_file:
  assumes "numbered base dir = []" "map_of dir base = Some (encodeBatch ms)" "log_ok ms"
  shows "readAllMutationsWalChain base dir = Some ms"
  using assms by (simp add: readAllMutationsWalChain_def walSegmentPathsOrdered_def readAllMutations_whole_log)

text \<open>The decorated storage writes the log of the run.\<close>

lemma orchestrated_log:
  "single_file w \<Longrightarrow> no_failures env \<Longrightarrow> 2 * length (encodeBatch (run_log cs e)) + 1 < int_max \<Longrightarrow>
     \<exists>w'. orchestrated_run env cs e (Some w) =
       (map (\<lambda>r. r\<lparr>sr_mutations := []\<rparr>) (fst (api_run cs e)), snd (api_run cs e), Some w') \<and>
     single_file w' \<and> ww_base w' = ww_base w \<and> log_bytes w' = log_bytes w @ encodeBatch (run_log cs e)"
proof (induction cs arbitrary: e w)
  case (Cons c cs)
  obtain r e1 where x: "api_exec c e = (r, e1)" by (metis prod.exhaust)
  define w1 where "w1 = (if sr_mutations r = [] then w else snd (append env (sr_mutations r) w))"
  have log: "run_log (c # cs) e = sr_mutations r @ run_log cs e1" by (simp add: x)
  have w1: "single_file w1" "ww_base w1 = ww_base w" "log_bytes w1 = log_bytes w @ encodeBatch (sr_mutations r)"
    using single_file_append [OF Cons.prems(1,2), of "sr_mutations r"] Cons.prems(1,3)
    unfolding log by (auto simp: w1_def)
  have sub: "submitAndStrip env (api_exec c e) (Some w) = (r\<lparr>sr_mutations := []\<rparr>, e1, Some w1)"
    by (simp add: submitAndStrip_def x submit_sync_def w1_def)
  from Cons.IH [OF w1(1) Cons.prems(2), of e1] Cons.prems(3)
  obtain w' where "orchestrated_run env cs e1 (Some w1) =
      (map (\<lambda>r. r\<lparr>sr_mutations := []\<rparr>) (fst (api_run cs e1)), snd (api_run cs e1), Some w')"
    "single_file w'" "ww_base w' = ww_base w1" "log_bytes w' = log_bytes w1 @ encodeBatch (run_log cs e1)"
    unfolding log by auto
  with sub w1 show ?case
    by (intro exI [of _ w']) (simp add: log x split_beta)
qed simp

section \<open>A snapshot in the middle of the log\<close>

lemma replay_touches: "\<forall>m \<in> set ms. mut_ok m \<Longrightarrow> replay ms Map.empty k \<noteq> None \<Longrightarrow> touches ms k"
  by (rule ccontr) (simp add: replay_untouched)

text \<open>
  Replaying the whole log over a snapshot whose keys the log knows gives the replay of the log
  over the empty store.
\<close>

lemma replay_over_snapshot:
  assumes "\<forall>m \<in> set ms. mut_ok m" "\<And>k. snap k \<noteq> None \<Longrightarrow> touches ms k"
  shows "replay ms snap = replay ms Map.empty"
proof
  fix k
  show "replay ms snap k = replay ms Map.empty k"
  proof (cases "touches ms k")
    case True
    then show ?thesis by (rule replay_touched)
  next
    case False
    with assms(2) [of k] have "snap k = Map.empty k" by (cases "snap k") auto
    then show ?thesis by (rule replay_cong)
  qed
qed

lemma touches_append: "touches ms k \<Longrightarrow> touches (ms @ ns) k"
  by (auto simp: touches_def)

end
