(* ===== verification/Persist_Props.thy ===== *)
theory Persist_Props
  imports Persist_Lemmas
begin

text \<open>
  The properties of persistence: codec round trips, what a reader makes of a log that was cut off,
  the writer and its rotation, group commit and the queue, snapshots, and recovery.
\<close>

section \<open>Examples that the witnesses use\<close>

definition ex_env :: WalEnv where
  "ex_env = \<lparr>sys_write = (\<lambda>_. 64), sys_rename = (\<lambda>_. True), sys_open = (\<lambda>_. True), sys_fstat = (\<lambda>_. True)\<rparr>"

definition ex_log :: "Mutation list" where
  "ex_log = [mut_del ''a'' 5, mut_put ''b'' (Record0\<lparr>rec_value := DataValue_str ''x''\<rparr>) 6]"

lemma ex_env_ok: "no_failures ex_env"
  by (simp add: no_failures_def ex_env_def)

lemma encodeBatch_eq_Nil: "[] = encodeBatch ms \<Longrightarrow> ms = []"
  using appendMutation_pos [of "hd ms"] by (cases ms) (simp_all add: encodeBatch_def)

lemma small_i64: "in_i64 5" "in_i64 6" "in_i64 (-1)"
  by (simp_all add: in_i64_def i64_min_def i64_max_def)

lemma ex_log_ok: "log_ok ex_log"
  by (simp add: ex_log_def mut_wf_del mut_wf_put small_i64 rec_wf_def Record0_def mut_fits_def record_part_def
      mut_del_def mut_put_def length_encode DataValueCodec_payload_def DataValue_str_def DataValue0_def
      mut_wf_def mut_ok_def dv_wf_def NO_TTL_def)

section \<open>Recovery\<close>

definition recover_files :: "byte list option \<Rightarrow> string \<Rightarrow> directory \<Rightarrow> RecoverFiles" where
  "recover_files snap base dir = \<lparr>snapshot_path_set = (snap \<noteq> None), snapshot_file = snap,
     wal_path_set = True, wal_base = base, wal_dir = dir\<rparr>"

text \<open>
  C2. End-to-end durability: run any storage calls on an empty store with the synchronous log in a
  single file, none of which fails for the quota, while no system call fails. Recovery of an empty engine
  from the log file succeeds and gives the same records, and the results the client saw are those
  of the engine without their mutations.
\<close>

theorem end_to_end_durability:
  assumes "eng_inv e" "eng_view e = Map.empty" "no_failures env" "single_file w" "log_bytes w = []"
    and "\<forall>r \<in> set (fst (api_run cs e)). sr_status r \<noteq> QuotaExceeded"
    and "\<forall>m \<in> set (run_log cs e). mut_fits m" "2 * length (encodeBatch (run_log cs e)) + 1 < int_max"
    and "eng_view e2 = Map.empty"
  shows "\<exists>w'. orchestrated_run env cs e (Some w) =
      (map (\<lambda>r. r\<lparr>sr_mutations := []\<rparr>) (fst (api_run cs e)), snd (api_run cs e), Some w') \<and>
    fst (recoverInto (recover_files None (ww_base w) (ww_dir w')) e2) \<and>
    eng_view (snd (recoverInto (recover_files None (ww_base w) (ww_dir w')) e2)) = eng_view (snd (api_run cs e))"
proof -
  obtain w' where run: "orchestrated_run env cs e (Some w) =
      (map (\<lambda>r. r\<lparr>sr_mutations := []\<rparr>) (fst (api_run cs e)), snd (api_run cs e), Some w')"
    and w': "single_file w'" "ww_base w' = ww_base w" "log_bytes w' = encodeBatch (run_log cs e)"
    using orchestrated_log [OF assms(4,3,8)] assms(5) by auto
  have ok: "log_ok (run_log cs e)" using run_mut_wf [OF assms(1)] assms(7) by blast
  have num: "numbered (ww_base w) (ww_dir w') = []" using w'(1,2) by (simp add: single_file_def)
  have bc: "base_content w' = encodeBatch (run_log cs e)"
    using single_file_log [OF w'(1)] w'(3) by simp
  have c: "map_of (ww_dir w') (ww_base w) = Some c \<Longrightarrow> c = encodeBatch (run_log cs e)" for c
    using bc w'(2) by (simp add: base_content_def)
  have none: "map_of (ww_dir w') (ww_base w) = None \<Longrightarrow> run_log cs e = []"
    using bc w'(2) by (simp add: base_content_def encodeBatch_eq_Nil)
  have "fst (replay_wal (recover_files None (ww_base w) (ww_dir w')) e2) \<and>
      eng_view (snd (replay_wal (recover_files None (ww_base w) (ww_dir w')) e2)) = replay (run_log cs e) Map.empty"
  proof (cases "map_of (ww_dir w') (ww_base w)")
    case None
    then show ?thesis using none assms(9) by (simp add: replay_wal_def recover_files_def)
  next
    case (Some x)
    then show ?thesis
      using chain_single_file [OF num _ ok] c [OF Some] apply_all_replay [OF log_ok_muts [OF ok], of e2] assms(9)
      by (simp add: replay_wal_def recover_files_def)
  qed
  then show ?thesis
    using run run_replay [OF assms(1,6)] assms(2) by (auto simp: recoverInto_def recover_files_def)
qed

definition ex_writer :: WalWriter where
  "ex_writer = new_WalWriter ex_env [] ''wal'' 0"

lemma ex_writer_ok: "single_file ex_writer" "log_bytes ex_writer = []"
  by (simp_all add: ex_writer_def new_WalWriter_def open_base_def ex_env_def single_file_def append_base_def
      tick_def base_content_def log_bytes_def chain_bytes_eq segments_def base_not_numbered)

lemma ex_set_log:
  "run_log [ApiSet ''k'' ''v''] (new_engine 400 0 (\<lambda>_. 5)) =
     [mut_put ''k'' (Record0\<lparr>rec_value := DataValue_str ''v'', expire_at_us := -1, version := 0\<rparr>) 5]"
  by code_simp

theorem end_to_end_durability_witness:
  "\<exists>w' :: WalWriter. fst (recoverInto (recover_files None (ww_base ex_writer) (ww_dir w')) (new_engine 400 1 (\<lambda>_. 7))) \<and>
    eng_view (snd (recoverInto (recover_files None (ww_base ex_writer) (ww_dir w')) (new_engine 400 1 (\<lambda>_. 7)))) =
    eng_view (snd (api_run [ApiSet ''k'' ''v''] (new_engine 400 0 (\<lambda>_. 5))))"
proof -
  have q: "\<forall>r \<in> set (fst (api_run [ApiSet ''k'' ''v''] (new_engine 400 0 (\<lambda>_. 5)))). sr_status r \<noteq> QuotaExceeded"
    by code_simp
  have f: "\<forall>m \<in> set (run_log [ApiSet ''k'' ''v''] (new_engine 400 0 (\<lambda>_. 5))). mut_fits m"
    "2 * length (encodeBatch (run_log [ApiSet ''k'' ''v''] (new_engine 400 0 (\<lambda>_. 5)))) + 1 < int_max"
    unfolding ex_set_log
    by (simp_all add: mut_fits_def record_part_def mut_put_def length_encode DataValueCodec_payload_def
        DataValue_str_def DataValue0_def length_appendMutation int_max_def)
  show ?thesis
    using end_to_end_durability [OF engine5_inv new_engine_view ex_env_ok ex_writer_ok q f new_engine_view [of 400 1 "\<lambda>_. 7"]]
    by blast
qed

section \<open>Recovery from a snapshot and the whole log\<close>

lemma getLive_sub:
  assumes "getLiveRecordOrExpire k e = (r, ms, e')"
  shows "eng_view e' k' = None \<or> eng_view e' k' = eng_view e k'"
  using assms by (auto simp: getLiveRecordOrExpire_def Let_def split_beta eng_get_def mem.get_del
      split: option.splits if_splits)

lemma dump_keys_sub:
  "dump_keys ks e = (out, e') \<Longrightarrow> eng_view e' k = None \<or> eng_view e' k = eng_view e k"
proof (induction ks arbitrary: e out e')
  case (Cons k' ks)
  obtain x ms e1 where g: "getLiveRecordOrExpire k' e = (x, ms, e1)" by (metis prod_cases3)
  obtain out1 where "dump_keys ks e1 = (out1, e')"
    using Cons.prems(1) g by (cases "dump_keys ks e1") (auto split: option.splits)
  from Cons.IH [OF this] getLive_sub [OF g, of k] show ?case by metis
qed simp

lemma run_clock: "eng_inv e \<Longrightarrow> eng_clock (snd (api_run cs e)) = eng_clock e"
proof (induction cs arbitrary: e)
  case (Cons c cs)
  have "eng_clock (snd (api_exec c e)) = eng_clock e"
    using call_keeps [OF Cons.prems, of c] api_exec_no_key [of c e]
    by (cases "call_key c") (auto simp: keeps_def same_config_def)
  with Cons show ?case by (simp add: Let_def split_beta call_inv)
qed simp

text \<open>
  C11. Recovery from a snapshot and the whole log, the log not being cut when a snapshot is
  taken: run calls on an empty store, take a snapshot, run more calls, and recover an empty engine from
  both files. Recovery succeeds, and each key has the record that the running store has; the only
  difference is a record that the snapshot run removed as expired, which the recovered store
  may still hold, with a deadline that had passed at a time the engine read.
\<close>

theorem recovery_snapshot_and_log:
  assumes "eng_inv e" "eng_view e = Map.empty"
    and "\<forall>r \<in> set (fst (api_run cs1 e)). sr_status r \<noteq> QuotaExceeded"
    and "dumpAllLiveRecords (snd (api_run cs1 e)) = (recs, e1)"
    and "\<forall>r \<in> set (fst (api_run cs2 e1)). sr_status r \<noteq> QuotaExceeded"
    and "\<forall>kv \<in> set recs. entry_fits kv" "length recs < 2 ^ 32"
    and "\<forall>m \<in> set (run_log cs1 e @ run_log cs2 e1). mut_fits m"
    and "numbered base dir = []" "map_of dir base = Some (encodeBatch (run_log cs1 e @ run_log cs2 e1))"
  shows "\<exists>e'. recoverInto (recover_files (Some (snapshot_bytes recs)) base dir) e0 = (True, e') \<and>
    (\<forall>k. eng_view e' k = eng_view (snd (api_run cs2 e1)) k \<or>
      eng_view (snd (api_run cs2 e1)) k = None \<and>
      (\<exists>r n. eng_view e' k = Some r \<and> isExpired r (eng_clock e n)))"
proof -
  let ?e = "snd (api_run cs1 e)" and ?l1 = "run_log cs1 e" and ?l2 = "run_log cs2 e1"
  let ?e' = "snd (apply_all (?l1 @ ?l2) (loadSnapshot recs e0))"
  have inv: "eng_inv ?e" using assms(1) by (rule run_inv)
  note d = dump_view [OF inv assms(4)]
  have dk: "dump_keys (be_keys (eng_backend ?e)) ?e = (recs, e1)"
    using assms(4) by (simp add: dumpAllLiveRecords_def)
  have ok: "log_ok (?l1 @ ?l2)" using run_mut_wf [OF assms(1)] run_mut_wf [OF d(3)] assms(8) by auto
  have r1: "replay ?l1 Map.empty = eng_view ?e" using run_replay [OF assms(1,3)] assms(2) by simp
  have r2: "replay ?l2 (eng_view e1) = eng_view (snd (api_run cs2 e1))" by (rule run_replay [OF d(3) assms(5)])
  have rev: "map_of (rev recs) = eng_view e1"
    using map_of_inject_set [of "rev recs" recs] d(1,2) by (simp add: rev_map [symmetric])
  have keys: "touches (?l1 @ ?l2) k" if "eng_view e1 k \<noteq> None" for k
  proof (rule touches_append, rule replay_touches)
    show "\<forall>m \<in> set ?l1. mut_ok m" using log_ok_muts [OF ok] by simp
    show "replay ?l1 Map.empty k \<noteq> None" using dump_keys_sub [OF dk, of k] that by (simp add: fun_cong [OF r1])
  qed
  have a: "fst (apply_all (?l1 @ ?l2) (loadSnapshot recs e0))" "eng_view ?e' = replay ?l2 (eng_view ?e)"
    using apply_all_replay [OF log_ok_muts [OF ok], of "loadSnapshot recs e0"]
      replay_over_snapshot [OF log_ok_muts [OF ok] keys]
    unfolding loadSnapshot_view rev replay_simps(3) r1 by simp_all
  have "recoverInto (recover_files (Some (snapshot_bytes recs)) base dir) e0 = (True, ?e')"
    using a(1) chain_single_file [OF assms(9,10) ok] readFromFile_enc [OF assms(6,7)] assms(10)
    by (simp add: recoverInto_def recover_files_def replay_wal_def prod_eq_iff)
  moreover have "eng_view ?e' k = eng_view (snd (api_run cs2 e1)) k \<or> eng_view (snd (api_run cs2 e1)) k = None \<and>
      (\<exists>r n. eng_view ?e' k = Some r \<and> isExpired r (eng_clock e n))" for k
  proof (cases "touches ?l2 k")
    case True
    then show ?thesis
      unfolding fun_cong [OF a(2)] fun_cong [OF r2 [symmetric]] by (intro disjI1) (rule replay_touched)
  next
    case False
    have "\<forall>m \<in> set ?l2. mut_ok m" using log_ok_muts [OF ok] by simp
    note u = replay_untouched [OF False this]
    show ?thesis
      unfolding fun_cong [OF a(2)] fun_cong [OF r2 [symmetric]] u
      using dump_keys_sub [OF dk, of k] dump_keys_lost [OF dk, of k] run_clock [OF assms(1), of cs1]
      by (cases "eng_view ?e k") auto
  qed
  ultimately show ?thesis by blast
qed

definition ex_dump :: "(string \<times> Record) list \<times> Engine" where
  "ex_dump = dumpAllLiveRecords (snd (api_run [ApiSet ''k'' ''v''] (new_engine 400 0 (\<lambda>_. 5))))"

lemma ex_dump_log:
  "fst ex_dump = [(''k'', Record0\<lparr>rec_value := DataValue_str ''v'', expire_at_us := -1, version := 0\<rparr>)]"
  "run_log [ApiDel ''k''] (snd ex_dump) = [mut_del ''k'' 5]"
  by code_simp+

theorem recovery_snapshot_and_log_witness:
  "\<exists>e'. recoverInto (recover_files (Some (snapshot_bytes (fst ex_dump))) ''wal''
      [(''wal'', encodeBatch (run_log [ApiSet ''k'' ''v''] (new_engine 400 0 (\<lambda>_. 5)) @
         run_log [ApiDel ''k''] (snd ex_dump)))]) (new_engine 400 0 (\<lambda>_. 7)) = (True, e') \<and>
    (\<forall>k. eng_view e' k = eng_view (snd (api_run [ApiDel ''k''] (snd ex_dump))) k \<or>
      eng_view (snd (api_run [ApiDel ''k''] (snd ex_dump))) k = None \<and>
      (\<exists>r n. eng_view e' k = Some r \<and> isExpired r ((\<lambda>_. 5 :: int) (n :: nat))))"
proof -
  let ?e = "new_engine 400 0 (\<lambda>_. 5)"
  have d: "dumpAllLiveRecords (snd (api_run [ApiSet ''k'' ''v''] ?e)) = (fst ex_dump, snd ex_dump)"
    by (simp add: ex_dump_def)
  have q: "\<forall>r \<in> set (fst (api_run [ApiSet ''k'' ''v''] ?e)). sr_status r \<noteq> QuotaExceeded"
    "\<forall>r \<in> set (fst (api_run [ApiDel ''k''] (snd ex_dump))). sr_status r \<noteq> QuotaExceeded"
    by code_simp+
  have f: "\<forall>kv \<in> set (fst ex_dump). entry_fits kv" "length (fst ex_dump) < 2 ^ 32"
    unfolding ex_dump_log
    by (simp_all add: entry_fits_def rec_wf_def rec_fits_def dv_wf_def small_i64 Record0_def DataValue_str_def
        DataValue0_def DataValueCodec_payload_def length_encode)
  have m: "\<forall>m \<in> set (run_log [ApiSet ''k'' ''v''] ?e @ run_log [ApiDel ''k''] (snd ex_dump)). mut_fits m"
    unfolding ex_set_log ex_dump_log
    by (simp add: mut_fits_def record_part_def mut_put_def mut_del_def length_encode DataValueCodec_payload_def
        DataValue_str_def DataValue0_def)
  show ?thesis
    using recovery_snapshot_and_log [OF engine5_inv new_engine_view q(1) d q(2) f m, of "''wal''"
        "[(''wal'', encodeBatch (run_log [ApiSet ''k'' ''v''] ?e @ run_log [ApiDel ''k''] (snd ex_dump)))]"
        "new_engine 400 0 (\<lambda>_. 7)"]
    unfolding new_engine_simps by (simp add: base_not_numbered numbered_def suffix_number_def)
qed

section \<open>Codecs and the log reader\<close>

text \<open>
  C13. A log that a crash cut off at any byte: the reader returns exactly the mutations whose
  entries lie completely before the cut, a prefix of what was written and the longest possible
  one, it reports an incomplete tail exactly if the cut is inside an entry, and where it stopped.
\<close>

theorem wal_crash_prefix:
  assumes "\<forall>m \<in> set ms. mut_wf m \<and> mut_fits m" "n \<le> length (encodeBatch ms)"
  shows "\<exists>j \<le> length ms. readAllMutations (Some (take n (encodeBatch ms))) = Some (take j ms) \<and>
    (\<forall>i \<le> length ms. length (encodeBatch (take i ms)) \<le> n \<longrightarrow> i \<le> j) \<and>
    snd (snd (readAll (Some (take n (encodeBatch ms))))) = \<lparr>file_bytes = n, decoded_mutations = j,
      stopped_offset = length (encodeBatch (take j ms)),
      saw_incomplete_tail = (length (encodeBatch (take j ms)) \<noteq> n), saw_corrupt = False\<rparr>"
proof -
  obtain j where j: "j \<le> length ms" "whole n ms = take j ms" using whole_prefix by blast
  have "i \<le> j" if i: "i \<le> length ms" and le: "length (encodeBatch (take i ms)) \<le> n" for i
  proof -
    obtain rest where "take j ms = take i ms @ rest" using whole_max [OF le i] j(2) by auto
    from arg_cong [OF this, of length] show ?thesis using i j(1) by simp
  qed
  then show ?thesis
    unfolding readAllMutations_log [OF assms] readAll_log [OF assms] j(2)
    using j(1) by (intro exI [of _ j]) (simp add: min_absorb2)
qed

theorem wal_crash_prefix_witness:
  "\<exists>j \<le> length ex_log. readAllMutations (Some (take 25 (encodeBatch ex_log))) = Some (take j ex_log)"
proof -
  have "25 \<le> length (encodeBatch ex_log)"
    by (simp add: ex_log_def length_appendMutation mut_del_def mut_put_def)
  from wal_crash_prefix [OF ex_log_ok this] show ?thesis by blast
qed

text \<open>
  C26. The log reader works in chunks with a buffer that it compacts. On every file it gives the
  same result, statistics included, as decoding the whole file at once: neither the chunk
  boundaries nor the compaction show.
\<close>

theorem streaming_read_is_one_shot:
  "readAll (Some bytes) = read_result \<lparr>file_bytes = length bytes, decoded_mutations = 0, stopped_offset = 0,
     saw_incomplete_tail = False, saw_corrupt = False\<rparr> 0 (drain bytes 0 [])"
  by (rule readAll_drain)

text \<open>
  C27. A mutation within the size limits of the format survives encoding and decoding at any
  position of a log, and an entry that is cut off is an incomplete tail, never a wrong mutation and
  never corruption.
\<close>

theorem mutation_roundtrip:
  assumes "mut_wf m" "mut_fits m"
  shows "decodeOneStatus (pre @ appendMutation m @ post) (length pre) =
      DecodeOk m (length pre + length (appendMutation m)) \<and>
    (\<forall>n < length (appendMutation m). decodeOneStatus (pre @ take n (appendMutation m)) (length pre) = IncompleteTail)"
proof (intro conjI allI impI)
  fix n assume n: "n < length (appendMutation m)"
  let ?d = "pre @ appendMutation m"
  have le: "length pre + n \<le> length ?d" using n by simp
  have dec: "decodeOneStatus ?d (length pre) = DecodeOk m (length pre + length (appendMutation m))"
    using decodeOneStatus_enc [OF assms, of pre "[]"] by simp
  have "decodeOneStatus (take (length pre + n) ?d) (length pre) = IncompleteTail"
    using decode_take(1) [OF le dec] n by simp
  then show "decodeOneStatus (pre @ take n (appendMutation m)) (length pre) = IncompleteTail"
    using n by simp
qed (rule decodeOneStatus_enc [OF assms])

theorem mutation_roundtrip_witness:
  "decodeOneStatus ([1, 2] @ appendMutation (mut_del ''a'' 5) @ [7]) (length [1, 2 :: byte]) =
     DecodeOk (mut_del ''a'' 5) (length [1, 2 :: byte] + length (appendMutation (mut_del ''a'' 5)))"
proof -
  have "mut_wf (mut_del ''a'' 5)" "mut_fits (mut_del ''a'' 5)" using ex_log_ok by (simp_all add: ex_log_def)
  from mutation_roundtrip [OF this] show ?thesis by blast
qed

text \<open>
  A record of any of the four types survives the record codec, with its deadline and its
  version.
\<close>

theorem record_roundtrip:
  assumes "rec_wf r" "rec_fits r"
  shows "RecordCodec_decode (RecordCodec_encode r) = Some r"
  using assms by (rule RecordCodec_decode_encode)

theorem record_roundtrip_witness:
  "RecordCodec_decode (RecordCodec_encode (Record0\<lparr>rec_value := DataValue_str ''x''\<rparr>)) =
     Some (Record0\<lparr>rec_value := DataValue_str ''x''\<rparr>)"
  by (rule record_roundtrip)
    (simp_all add: rec_wf_def rec_fits_def dv_wf_def small_i64 Record0_def DataValue_str_def
      DataValue0_def DataValueCodec_payload_def length_encode NO_TTL_def)

section \<open>The log writer\<close>

text \<open>
  Appending to the log, with rotation and whatever the system calls do: the bytes of
  all log files in reading order grow by a prefix of the data, by all of it if the call
  succeeds; no file grows over the size limit; and the call succeeds if no system call fails.
  The bound on the suffix keeps the numbers of rotated files in the range of int.
\<close>

theorem wal_append_effect:
  assumes "appendBytes env data w = (ok, w')" "max_suffix w + 2 * length data + 1 < int_max"
  shows "(\<exists>n \<le> length data. log_bytes w' = log_bytes w @ take n data \<and> (ok \<longrightarrow> n = length data)) \<and>
    (sizes_ok w \<longrightarrow> 0 < max_file_bytes w \<longrightarrow> sizes_ok w') \<and>
    (no_failures env \<longrightarrow> ww_fd w \<longrightarrow> ok)"
  using appendBytes_effect [OF assms] appendBytes_succeeds [of env w data] assms(1)
  by (auto simp: append_effect_def)

theorem wal_append_effect_witness:
  "log_bytes (snd (appendBytes ex_env [1, 2, 3] (new_WalWriter ex_env [] ''wal'' 2))) =
     log_bytes (new_WalWriter ex_env [] ''wal'' 2) @ [1, 2, 3]"
proof -
  let ?w = "new_WalWriter ex_env [] ''wal'' 2"
  have fd: "ww_fd ?w" by (simp add: new_WalWriter_def open_base_def ex_env_def)
  have "max_suffix ?w + 2 * length [1, 2, 3 :: byte] + 1 < int_max"
    by (simp add: new_WalWriter_def open_base_def ex_env_def append_base_def tick_def base_content_def max_suffix_def
        maxNumericWalSuffix_def base_not_numbered int_max_def)
  from wal_append_effect [OF prod.collapse [symmetric] this, of ex_env] fd ex_env_ok show ?thesis by fastforce
qed

section \<open>The queue\<close>


definition ex_opt :: CommitOptions where
  "ex_opt = \<lparr>group_commit_max_mutations = 4, group_commit_max_bytes = 100\<rparr>"


text \<open>
  C24. As long as the worker and a flushing thread do not hold batches at the same time and no system call
  fails, the log is what was there before followed by the batches in the order of their
  submission, encoded one after the other; what is not yet written is a suffix of the submitted
  batches. So group commit, with any thresholds and any rotation, does not change the log.
\<close>

theorem quiet_log_in_order:
  assumes "quiet_reach env opt mq w s" "no_failures env" "ww_fd w"
    "max_suffix w + 3 * length (encodeBatch (concat (os_submitted s))) < int_max"
  shows "log_bytes (os_writer s) = log_bytes w @ encodeBatch (concat (os_written s)) \<and>
    os_written s @ taken (os_worker s) @ taken (os_flusher s) @ os_queue s = os_submitted s"
  using orch_log [OF quiet_reach_reach [OF assms(1)] assms(2-4)] quiet_order [OF assms(1)] by blast

definition ex_queued :: OrchState where
  "ex_queued = (new_orch ex_writer)\<lparr>os_queue := [ex_log], os_submitted := [ex_log]\<rparr>"

lemma ex_queued_step: "orch_step ex_env ex_opt 8 (new_orch ex_writer) ex_queued"
  using orch_step.submit [of ex_log "new_orch ex_writer" 8 ex_env ex_opt]
  by (simp add: ex_queued_def new_orch_def queue_limit_def ex_log_def)

theorem quiet_log_in_order_witness:
  "log_bytes (os_writer ex_queued) = log_bytes ex_writer @ encodeBatch (concat (os_written ex_queued))"
proof -
  have "quiet_reach ex_env ex_opt 8 ex_writer ex_queued"
    by (rule quiet_reach.quiet_step [OF quiet_reach.quiet_init ex_queued_step])
      (simp add: ex_queued_def new_orch_def)
  moreover have "ww_fd ex_writer" "max_suffix ex_writer = 0"
    using ex_writer_ok(1) by (simp_all add: single_file_def max_suffix_def maxNumericWalSuffix_def)
  moreover have "3 * length (encodeBatch (concat (os_submitted ex_queued))) < int_max"
    by (simp add: ex_queued_def ex_log_def length_appendMutation mut_del_def mut_put_def int_max_def
        record_part_def length_encode DataValueCodec_payload_def DataValue_str_def DataValue0_def Record0_def)
  ultimately show ?thesis using quiet_log_in_order [of ex_env ex_opt 8 ex_writer ex_queued] ex_env_ok by simp
qed

definition ex_put :: Mutation where
  "ex_put = mut_put ''k'' (Record0\<lparr>rec_value := DataValue_str ''v''\<rparr>) 5"

definition ex_del :: Mutation where
  "ex_del = mut_del ''k'' 6"

text \<open>
  Without that condition the order is lost: there is a run in which the put of a key is
  submitted before its deletion and the log has the deletion first, so that replaying the log
  brings the deleted key back.
\<close>

theorem flush_reorders_log:
  "\<exists>s. orch_reach ex_env ex_opt 8 ex_writer s \<and> os_submitted s = [[ex_put], [ex_del]] \<and>
     os_written s = [[ex_del], [ex_put]] \<and> log_bytes (os_writer s) = encodeBatch [ex_del, ex_put] \<and>
     replay [ex_put, ex_del] Map.empty ''k'' = None \<and> replay [ex_del, ex_put] Map.empty ''k'' \<noteq> None"
proof -
  let ?r = "orch_reach ex_env ex_opt 8 ex_writer"
  note defs = new_orch_def queue_limit_def
  define s1 where "s1 = (new_orch ex_writer)\<lparr>os_queue := [[ex_put]], os_submitted := [[ex_put]]\<rparr>"
  define s2 where "s2 = s1\<lparr>os_worker := Some [[ex_put]], os_queue := []\<rparr>"
  define s3 where "s3 = s2\<lparr>os_queue := [[ex_del]], os_submitted := [[ex_put], [ex_del]]\<rparr>"
  define s4 where "s4 = s3\<lparr>os_flusher := Some [[ex_del]], os_queue := []\<rparr>"
  define s5 where "s5 = s4\<lparr>os_flusher := None, os_writer := group_commit ex_env ex_opt [[ex_del]] (os_writer s4),
      os_written := [[ex_del]]\<rparr>"
  define s6 where "s6 = s5\<lparr>os_worker := None, os_writer := group_commit ex_env ex_opt [[ex_put]] (os_writer s5),
      os_written := [[ex_del], [ex_put]]\<rparr>"
  note s = s1_def s2_def s3_def s4_def s5_def s6_def
  have "?r s1" using orch_reach.step [OF orch_reach.init orch_step.submit [of "[ex_put]" "new_orch ex_writer"]]
    by (simp add: s defs)
  then have "?r s2" using orch_reach.step [OF _ orch_step.worker_take [of s1]] by (simp add: s defs)
  then have "?r s3" using orch_reach.step [OF _ orch_step.submit [of "[ex_del]" s2]] by (simp add: s defs)
  then have "?r s4" using orch_reach.step [OF _ orch_step.flush_take [of s3]] by (simp add: s defs)
  then have "?r s5" using orch_reach.step [OF _ orch_step.flush_write [of s4 "[[ex_del]]"]] by (simp add: s defs)
  then have r: "?r s6" using orch_reach.step [OF _ orch_step.worker_write [of s5 "[[ex_put]]"]] by (simp add: s defs)
  have sub: "os_submitted s6 = [[ex_put], [ex_del]]" "os_written s6 = [[ex_del], [ex_put]]" by (simp_all add: s)
  have "max_suffix ex_writer + 3 * length (encodeBatch (concat (os_submitted s6))) < int_max" "ww_fd ex_writer"
    using ex_writer_ok(1) by (simp_all add: sub single_file_def max_suffix_def maxNumericWalSuffix_def int_max_def
        length_appendMutation ex_put_def ex_del_def mut_put_def mut_del_def record_part_def length_encode
        DataValueCodec_payload_def DataValue_str_def DataValue0_def Record0_def)
  with orch_log [OF r ex_env_ok] have "log_bytes (os_writer s6) = encodeBatch [ex_del, ex_put]"
    by (simp add: sub ex_writer_ok(2))
  with r sub show ?thesis
    by (intro exI [of _ s6]) (simp add: ex_put_def ex_del_def mut_put_def mut_del_def mut_effect_def)
qed

section \<open>Snapshots\<close>

text \<open>
  A snapshot file within the limits of the format reads back as the records that were
  written, in order, and every proper prefix of it is rejected.
\<close>

theorem snapshot_roundtrip:
  assumes "\<forall>kv \<in> set records. entry_fits kv" "length records < 2 ^ 32"
  shows "readFromFile (Some (snapshot_bytes records)) = Some records \<and>
    (\<forall>n < length (snapshot_bytes records). readFromFile (Some (take n (snapshot_bytes records))) = None)"
  using readFromFile_enc [OF assms] readFromFile_truncated [OF assms] by blast

theorem snapshot_roundtrip_witness:
  "readFromFile (Some (snapshot_bytes (fst ex_dump))) = Some (fst ex_dump)"
proof -
  have "\<forall>kv \<in> set (fst ex_dump). entry_fits kv" "length (fst ex_dump) < 2 ^ 32"
    unfolding ex_dump_log
    by (simp_all add: entry_fits_def rec_wf_def rec_fits_def dv_wf_def small_i64 Record0_def DataValue_str_def
        DataValue0_def DataValueCodec_payload_def length_encode)
  from snapshot_roundtrip [OF this] show ?thesis by blast
qed

text \<open>
  C28. Taking a snapshot, whatever the file operations do: if it succeeds, the snapshot file
  reads back as exactly the records the store then holds; if it fails, the snapshot file is the
  old one or already the new one, except if both renames failed and the removal between them
  worked: then there is no snapshot file any more.
\<close>

theorem snapshot_replaced_atomically:
  assumes "eng_inv e" "takeSnapshotNow env e fs = (ok, e', fs')"
    and "\<forall>kv \<in> set (fst (dumpAllLiveRecords e)). entry_fits kv" "length (fst (dumpAllLiveRecords e)) < 2 ^ 32"
  shows "(ok \<longrightarrow> (\<exists>rs. readFromFile (final_file fs') = Some rs \<and> map_of rs = eng_view e')) \<and>
    (final_file fs' = final_file fs \<or>
     (\<exists>rs. readFromFile (final_file fs') = Some rs \<and> map_of rs = eng_view e') \<or>
     final_file fs' = None \<and> \<not> rename1_ok env \<and> removed_final env \<and> \<not> rename2_ok env)"
proof -
  obtain rs e1 where d: "dumpAllLiveRecords e = (rs, e1)" by (metis prod.exhaust)
  have "map_of rs = eng_view e1" using dump_view [OF assms(1) d] by simp
  moreover have "e' = e1" "SnapshotWriter_writeToFile env rs fs = (ok, fs')"
    using assms(2) by (auto simp: takeSnapshotNow_def d split_beta prod_eq_iff)
  moreover have "readFromFile (Some (snapshot_bytes rs)) = Some rs"
    using assms(3,4) by (intro readFromFile_enc) (simp_all add: d)
  ultimately show ?thesis
    by (auto simp: SnapshotWriter_writeToFile_def Let_def split: if_splits)
qed

definition ex_snap_env :: SnapEnv where
  "ex_snap_env = \<lparr>dirs_created = True, tmp_opened = True, stream_good = (\<lambda>_. True), flush_good = True,
     file_synced = True, rename1_ok = True, removed_final = True, rename2_ok = True, dir_synced = True\<rparr>"

theorem snapshot_replaced_atomically_witness:
  "\<exists>ok e' fs'. takeSnapshotNow ex_snap_env (new_engine 400 0 (\<lambda>_. 5)) \<lparr>final_file = None, tmp_file = None\<rparr> = (ok, e', fs') \<and>
     (ok \<longrightarrow> (\<exists>rs. readFromFile (final_file fs') = Some rs \<and> map_of rs = eng_view e'))"
proof -
  let ?e = "new_engine 400 0 (\<lambda>_. 5)" and ?fs = "\<lparr>final_file = None, tmp_file = None\<rparr>"
  have d: "fst (dumpAllLiveRecords ?e) = []" by code_simp
  obtain ok e' fs' where t: "takeSnapshotNow ex_snap_env ?e ?fs = (ok, e', fs')" by (metis prod_cases3)
  from snapshot_replaced_atomically [OF engine5_inv t] t show ?thesis unfolding d by auto
qed

section \<open>Two ways in which a successful append makes the log unreadable\<close>

lemma two_bytes: "byte_of_char CHR ''W'' \<noteq> byte_of_char CHR ''2''"
  by code_simp

text \<open>
  A torn tail is tolerated once but not removed. If a crash leaves the first byte of an
  entry, recovery succeeds without it; but the file is opened for appending, so
  after the next successful append of a batch, with no failure at all, the log cannot be read any more.
\<close>

theorem torn_tail_breaks_next_recovery:
  assumes "no_failures env" "mut_wf m" "mut_fits m" "batch \<noteq> []" "2 * length (encodeBatch batch) + 1 < int_max"
  shows "readAllMutationsWalChain base [(base, take 1 (appendMutation m))] = Some [] \<and>
    fst (append env batch (new_WalWriter env [(base, take 1 (appendMutation m))] base 0)) \<and>
    readAllMutationsWalChain base
      (ww_dir (snd (append env batch (new_WalWriter env [(base, take 1 (appendMutation m))] base 0)))) = None"
proof (intro conjI)
  let ?torn = "take 1 (appendMutation m)" and ?w = "new_WalWriter env [(base, take 1 (appendMutation m))] base 0"
  have pos: "1 < length (appendMutation m)" by (simp add: length_appendMutation)
  have "readAllMutations (Some (take 1 (encodeBatch [m]))) = Some (whole 1 [m])"
    by (rule readAllMutations_log) (use assms(2,3) pos in auto)
  moreover have "take 1 (encodeBatch [m]) = ?torn" using pos by simp
  ultimately show "readAllMutationsWalChain base [(base, ?torn)] = Some []"
    using pos by (simp add: readAllMutationsWalChain_def walSegmentPathsOrdered_def base_not_numbered)
  have w: "single_file ?w" "ww_base ?w = base" "base_content ?w = ?torn"
    using assms(1) by (simp_all add: new_WalWriter_def open_base_def no_failures_def single_file_def
        append_base_def tick_def base_content_def base_not_numbered)
  let ?w' = "snd (append env batch ?w)"
  show "fst (append env batch ?w)"
    using appendBytes_succeeds [OF assms(1)] w(1) by (simp add: append_def single_file_def)
  note a = single_file_append [OF w(1) assms(1,5)]
  have "base_content ?w' = ?torn @ encodeBatch batch"
    using a(3) single_file_log [OF a(1)] single_file_log [OF w(1)] w(3) by simp
  moreover obtain m2 ms where b: "batch = m2 # ms" using assms(4) by (cases batch) auto
  ultimately have c: "map_of (ww_dir ?w') base = Some (?torn @ appendMutation m2 @ encodeBatch ms)"
    using a(2) w(2) pos by (auto simp: base_content_def split: option.splits)
  have "readAllMutations (Some (?torn @ appendMutation m2 @ encodeBatch ms)) = None"
    by (rule readAllMutations_wrong_magic)
      (simp_all add: length_appendMutation appendMutation_def appendU8_def numeral_2_eq_2 two_bytes)
  then show "readAllMutationsWalChain base (ww_dir ?w') = None"
    using a(1,2) w(2) c by (simp add: readAllMutationsWalChain_def walSegmentPathsOrdered_def single_file_def)
qed

lemma ex_del_ok: "mut_wf ex_del" "mut_fits ex_del"
  by (simp_all add: ex_del_def mut_wf_del small_i64) (simp add: mut_fits_def record_part_def mut_del_def)

lemma ex_del_tail: "take 2 (drop 16 (appendMutation ex_del)) \<noteq> [byte_of_char CHR ''W'', byte_of_char CHR ''2'']"
  by code_simp

theorem torn_tail_breaks_next_recovery_witness:
  "readAllMutationsWalChain ''wal''
     (ww_dir (snd (append ex_env ex_log (new_WalWriter ex_env [(''wal'', take 1 (appendMutation ex_del))] ''wal'' 0)))) = None"
proof -
  have "ex_log \<noteq> []" "2 * length (encodeBatch ex_log) + 1 < int_max"
    by (simp_all add: ex_log_def length_appendMutation mut_del_def mut_put_def int_max_def
        record_part_def length_encode DataValueCodec_payload_def DataValue_str_def DataValue0_def Record0_def)
  then show ?thesis using torn_tail_breaks_next_recovery [OF ex_env_ok ex_del_ok] by blast
qed

text \<open>
  With a file size limit an append may put the two halves of one entry into two files, but the
  reader decodes each file on its own. With a limit of 16 bytes, appending one deletion to a
  new log succeeds, and then recovery cannot read the log although all its bytes are there.
\<close>

theorem rotation_splits_entry:
  "\<exists>w'. append ex_env [ex_del] (new_WalWriter ex_env [] ''wal'' 16) = (True, w') \<and>
     log_bytes w' = encodeBatch [ex_del] \<and> readAllMutationsWalChain ''wal'' (ww_dir w') = None"
proof -
  let ?w = "new_WalWriter ex_env [] ''wal'' 16" and ?e = "appendMutation ex_del"
  let ?dir = "[(''wal.1'', take 16 ?e), (''wal'', drop 16 ?e)]"
  have len: "length ?e = 21" by (simp add: length_appendMutation ex_del_def mut_del_def record_part_def)
  have "sort_key fst (numbered ''wal'' ?dir) = [(1, ''wal.1'')]" 
    by (simp add: suffix_number_def allDigits_def is_digit_def digits_value_def digit_val_def int_max_def Let_def)
  then have segs: "walSegmentPathsOrdered ''wal'' ?dir = [''wal.1'', ''wal'']"
    by (simp add: walSegmentPathsOrdered_def)
  define x where "x = ?e"
  have x: "length x = 21" "x \<noteq> []" "drop 16 x \<noteq> []" "take 16 x \<noteq> []" using len by (auto simp: x_def)
  have one: "nat_to_string (Suc 0) = ''1''" by code_simp
  note ev = ex_env_def tick_def append_base_def base_content_def writeAll.simps
  have l1: "appendBytes_loop ex_env x ?w = appendBytes_loop ex_env (drop 16 x)
      \<lparr>ww_dir = [(''wal'', take 16 x)], ww_base = ''wal'', max_file_bytes = 16, ww_fd = True, ww_calls = Suc (Suc (Suc 0))\<rparr>"
    by (subst appendBytes_loop.simps) (simp add: x ev new_WalWriter_def open_base_def)
  have l2: "\<dots> = appendBytes_loop ex_env (drop 16 x)
      \<lparr>ww_dir = [(''wal.1'', take 16 x), (''wal'', [])], ww_base = ''wal'', max_file_bytes = 16, ww_fd = True, ww_calls = Suc (Suc (Suc (Suc (Suc (Suc 0)))))\<rparr>"
    by (subst appendBytes_loop.simps)
      (simp add: x ev rotate_def open_base_def maxNumericWalSuffix_def base_not_numbered one)
  have l3: "\<dots> = (True,
      \<lparr>ww_dir = [(''wal.1'', take 16 x), (''wal'', drop 16 x)], ww_base = ''wal'', max_file_bytes = 16, ww_fd = True, ww_calls = Suc (Suc (Suc (Suc (Suc (Suc (Suc (Suc 0)))))))\<rparr>)"
    by (subst appendBytes_loop.simps) (simp add: x ev appendBytes_loop.simps)
  have "appendBytes_loop ex_env x ?w = append ex_env [ex_del] ?w"
    using x by (simp add: append_def appendBytes_def x_def new_WalWriter_def open_base_def ex_env_def)
  then obtain w' where w': "append ex_env [ex_del] ?w = (True, w')" "ww_dir w' = ?dir" "ww_base w' = ''wal''"
    using l1 l2 l3 by (auto simp: x_def)
  have "readAllMutations (Some (take 16 (encodeBatch [ex_del]))) = Some (whole 16 [ex_del])"
    by (rule readAllMutations_log) (use len ex_del_ok in simp_all)
  moreover have "readAllMutations (Some (drop 16 ?e)) = None"
    by (rule readAllMutations_wrong_magic) (use len ex_del_tail in simp_all)
  ultimately have "readAllMutationsWalChain ''wal'' ?dir = None"
    using len by (simp add: readAllMutationsWalChain_def segs)
  moreover have "log_bytes w' = ?e"
    by (simp add: log_bytes_def chain_bytes_def w'(2,3) segs)
  ultimately show ?thesis using w' by auto
qed

end
