(* ===== verification/Server_Log.thy ===== *)
theory Server_Log
  imports Server_Pubsub Persist_Props
begin

text \<open>
  What the server hands to persistence: in every reachable state of a server without a memory quota, the
  submitted batches replayed on the contents at start are the contents now, up to records that a
  snapshot run dropped as expired.
\<close>

section \<open>Without a quota no call is refused\<close>

lemma put_logged_status:
  "unlimited e \<Longrightarrow> sr_status (fst (put_logged k r ms d v e)) = Ok"
  "unlimited e \<Longrightarrow> sr_status (fst (put_logged_at k r t d v e)) = Ok"
  "sr_status (fst (del_logged k ms v e)) = Ok" "sr_status (fst (del_logged_at k t v e)) = Ok"
  using unlimited_put [of e k r]
  by (simp_all add: put_logged_def put_logged_at_def del_logged_def del_logged_at_def eng_put_def split_beta Let_def)

lemma live_unlimited: "unlimited (snd (snd (getLiveRecordOrExpire k e))) = unlimited e"
  by (simp add: getLiveRecordOrExpire_def split_beta Let_def split: option.split)

lemma read_status: "sr_status (fst (read_container w d n f k e)) \<noteq> QuotaExceeded"
  by (simp add: read_container_def split_beta Let_def split: option.split)

lemma init_status:
  "unlimited e \<Longrightarrow> sr_status (fst (getOrInitContainer k w e)) \<noteq> QuotaExceeded"
  "unlimited e \<Longrightarrow> unlimited (snd (getOrInitContainer k w e))"
  by (simp_all add: getOrInitContainer_def split_beta Let_def live_unlimited put_logged_status split: option.split)
    (simp add: put_logged_def split_beta Let_def live_unlimited)

lemma call_status: "unlimited e \<Longrightarrow> sr_status (fst (api_exec c e)) \<noteq> QuotaExceeded"
  by (cases c; simp add: sr_map_def split_beta engine_set_def engine_get_def engine_del_def engine_exists_def engine_expire_def
      engine_persist_def engine_ttl_def engine_pttl_def engine_dbsize_def engine_keys_def engine_lpush_def engine_rpush_def
      engine_lpop_def engine_rpop_def engine_llen_def engine_lindex_def engine_sadd_def engine_srem_def engine_scard_def
      engine_sismember_def engine_smembers_def engine_hset_def engine_hget_def engine_hdel_def engine_hlen_def
      engine_hexists_def engine_hgetall_def Let_def put_logged_status live_unlimited init_status read_status
      split: option.split list.split)

lemma call_config: "eng_inv e \<Longrightarrow> same_config e (snd (api_exec c e))"
  using call_keeps [of e c] api_exec_no_key [of c e]
  by (cases "call_key c") (auto simp: keeps_def same_config_def)

section \<open>The log of the server\<close>

definition storage_log :: "Storage \<Rightarrow> Mutation list" where
  "storage_log st = concat (st_submitted st)"

definition view_logged :: "(nat \<Rightarrow> int) \<Rightarrow> keyspace \<Rightarrow> keyspace \<Rightarrow> bool" where
  "view_logged clock now log \<longleftrightarrow> (\<forall>k. now k = log k \<or> now k = None \<and> (\<exists>r n. log k = Some r \<and> isExpired r (clock n)))"

definition logged :: "(nat \<Rightarrow> int) \<Rightarrow> keyspace \<Rightarrow> Storage \<Rightarrow> bool" where
  "logged clock base st \<longleftrightarrow> st_orchestrator st \<and> eng_inv (st_engine st) \<and> max_storage_bytes (eng_backend (st_engine st)) = 0 \<and>
     eng_clock (st_engine st) = clock \<and> (\<forall>m \<in> set (storage_log st). mut_wf m) \<and>
     view_logged clock (eng_view (st_engine st)) (replay (storage_log st) base)"

lemma view_logged_replay:
  assumes "view_logged clock now log" "\<forall>m \<in> set ms. mut_ok m"
  shows "view_logged clock (replay ms now) (replay ms log)"
  unfolding view_logged_def
proof
  fix k
  show "replay ms now k = replay ms log k \<or> replay ms now k = None \<and> (\<exists>r n. replay ms log k = Some r \<and> isExpired r (clock n))"
    using assms replay_touched [of ms k now log] replay_untouched [of ms k]
    by (cases "touches ms k") (auto simp: view_logged_def)
qed

lemma view_logged_trans: "view_logged clock a b \<Longrightarrow> view_logged clock b d \<Longrightarrow> view_logged clock a d"
  unfolding view_logged_def by (metis option.distinct(1))

lemma logged_call: "logged clock base st \<Longrightarrow> logged clock base (snd (storage_call c st))"
proof -
  assume l: "logged clock base st"
  let ?e = "st_engine st" and ?e' = "snd (api_exec c (st_engine st))" and ?ms = "sr_mutations (fst (api_exec c (st_engine st)))"
  have inv: "eng_inv ?e" and u: "unlimited ?e" using l by (simp_all add: logged_def unlimited_def)
  have wf: "\<forall>m \<in> set ?ms. mut_wf m" using call_mut_wf [OF inv] by blast
  have "view_logged clock (replay ?ms (eng_view ?e)) (replay ?ms (replay (storage_log st) base))"
    using l wf by (intro view_logged_replay) (auto simp: logged_def mut_wf_def)
  then have "view_logged clock (eng_view ?e') (replay (storage_log st @ ?ms) base)"
    using call_replay [OF inv call_status [OF u]] by simp
  moreover have "same_config ?e ?e'" using inv by (rule call_config)
  ultimately show ?thesis
    using l wf call_inv [OF inv, of c]
    by (auto simp: logged_def storage_call_def storage_submit_def split_beta Let_def storage_log_def same_config_def)
qed

lemma logged_flushall: "logged clock base st \<Longrightarrow> logged clock base (flushall_storage st)"
proof -
  assume l: "logged clock base st"
  let ?e = "loadSnapshot [] (st_engine st)"
  have "eng_inv ?e" using loadSnapshot_inv [of "st_engine st" "[]"] l by (simp add: logged_def)
  moreover have "eng_view ?e = Map.empty" by (simp add: loadSnapshot_view)
  moreover have "max_storage_bytes (eng_backend ?e) = 0" "eng_clock ?e = clock"
    using l by (simp_all add: logged_def loadSnapshot_def setBypassStorageLimit_def clearAll_def)
  moreover have "mut_wf (mut_clear (clock_now ?e))" if "eng_inv ?e"
    using in_i64_now [OF that] by (simp add: mut_wf_def mut_clear_def mut_ok_def)
  ultimately show ?thesis
    using l eng_inv_now [of ?e]
    by (auto simp: logged_def flushall_storage_def storage_submit_def Let_def split_beta storage_log_def view_logged_def)
qed

lemma dump_config: "dump_keys ks e = (out, e') \<Longrightarrow> same_config e e'"
proof (induction ks arbitrary: e out e')
  case (Cons k ks)
  obtain r ms e1 where g: "getLiveRecordOrExpire k e = (r, ms, e1)" by (metis prod_cases3)
  obtain out1 where d: "dump_keys ks e1 = (out1, e')"
    using Cons.prems(1) g by (cases "dump_keys ks e1") (auto split: option.splits)
  have "same_config e e1"
    using g by (auto simp: getLiveRecordOrExpire_def split_beta Let_def same_config_def delKey_def split: option.splits if_splits)
  with Cons.IH [OF d] show ?case by (simp add: same_config_def)
qed (simp add: same_config_def)

lemma logged_snapshot: "logged clock base st \<Longrightarrow> logged clock base (snapshot_storage st)"
proof -
  assume l: "logged clock base st"
  obtain out e' where d: "dumpAllLiveRecords (st_engine st) = (out, e')" by (metis surj_pair)
  have dk: "dump_keys (be_keys (eng_backend (st_engine st))) (st_engine st) = (out, e')"
    using d by (simp add: dumpAllLiveRecords_def)
  have inv: "eng_inv (st_engine st)" using l by (simp add: logged_def)
  have "view_logged clock (eng_view e') (eng_view (st_engine st))"
    unfolding view_logged_def
  proof
    fix k
    show "eng_view e' k = eng_view (st_engine st) k \<or> eng_view e' k = None \<and>
        (\<exists>r n. eng_view (st_engine st) k = Some r \<and> isExpired r (clock n))"
      using dump_keys_sub [OF dk, of k] dump_keys_lost [OF dk, of k] l
      by (cases "eng_view (st_engine st) k") (auto simp: logged_def)
  qed
  moreover have "same_config (st_engine st) e'" using dump_config [OF dk] .
  ultimately show ?thesis
    using l dump_view(3) [OF inv d]
    by (auto simp: logged_def snapshot_storage_def storage_log_def same_config_def d intro: view_logged_trans)
qed

lemma logged_steps: "storage_steps st st' \<Longrightarrow> logged clock base st \<Longrightarrow> logged clock base st'"
  by (induction rule: storage_steps.induct) (auto intro: logged_call logged_flushall logged_snapshot)

definition server_logged :: "(nat \<Rightarrow> int) \<Rightarrow> keyspace \<Rightarrow> Server \<Rightarrow> bool" where
  "server_logged clock base s \<longleftrightarrow> (case srv_storage s of None \<Rightarrow> False | Some st \<Rightarrow> logged clock base st)"

lemma subscribe_storage [simp]:
  "srv_storage (snd (subscribeChannel c ch s)) = srv_storage s" "srv_storage (snd (unsubscribeChannel c ch s)) = srv_storage s"
  "srv_storage (snd (unsubscribeAllChannels c s)) = srv_storage s" "srv_storage (clearSubscriptionsForConnection c s) = srv_storage s"
  by (simp_all add: subscribeChannel_def unsubscribeChannel_def unsubscribeAllChannels_def clearSubscriptionsForConnection_def
      refreshPubSubStatsLocked_def upd_stats_def Let_def split_beta split: option.split)

interpretation log: server_inv "server_logged clock base"
proof unfold_locales
  fix s s' c ch ctx f p evs cs
  show "effect s s' \<Longrightarrow> server_logged clock base s \<Longrightarrow> server_logged clock base s'"
    by (auto simp: effect_def server_logged_def intro: logged_steps elim: option.rel_cases split: option.splits)
qed (simp_all add: server_logged_def upd_stats_def set_ctx_def)

end
