(* ===== verification/Server_Pipeline.thy ===== *)
theory Server_Pipeline
  imports Server_Inv
begin

text \<open>
  The message callback against its specification: a connection with no waiting input that receives encoded
  commands, in one piece or a command in two, runs these commands in order (\<open>run_commands\<close>) and has
  no waiting input afterwards.
\<close>

fun run_commands :: "(nat \<Rightarrow> cmd_envs) \<Rightarrow> conn \<Rightarrow> RESPValue list \<Rightarrow> Server \<Rightarrow> Server option" where
  "run_commands env c [] s = Some s"
| "run_commands env c (v # vs) s = (case processCommand c v (env (total_commands (srv_stats s))) s of
      None \<Rightarrow> None
    | Some s \<Rightarrow> run_commands env c vs (count_command s))"

definition idle :: "conn \<Rightarrow> Server \<Rightarrow> bool" where
  "idle c s \<longleftrightarrow> (case conn_inbuf s c of None \<Rightarrow> True
     | Some ctx \<Rightarrow> pending_input ctx = [] \<and> pending_offset ctx = 0 \<and> conn_parser ctx = new_RESPParser)"

definition open_conn :: "conn \<Rightarrow> Server \<Rightarrow> Server" where
  "open_conn c s = set_ctx c (case conn_inbuf s c of None \<Rightarrow> new_ConnParseState | Some ctx \<Rightarrow> ctx) s"

interpretation known: command_inv "\<lambda>s. conn_inbuf s c \<noteq> None"
proof unfold_locales
  fix s s' :: Server
  assume "effect s s'" "conn_inbuf s c \<noteq> None"
  then show "conn_inbuf s' c \<noteq> None" unfolding effect_def
    by (metis (no_types, lifting) Server.select_convs(4) Server.surjective Server.update_convs(2) Server.update_convs(3))
qed (auto simp: upd_stats_def set_ctx_def subscribeChannel_def unsubscribeChannel_def unsubscribeAllChannels_def
    refreshPubSubStatsLocked_def Let_def split: option.splits)

lemma run_known: "run_commands env c vs s = Some s' \<Longrightarrow> conn_inbuf s c' \<noteq> None \<Longrightarrow> conn_inbuf s' c' \<noteq> None"
proof (induction vs arbitrary: s)
  case (Cons v vs)
  then obtain s1 where s1: "processCommand c v (env (total_commands (srv_stats s))) s = Some s1"
    "run_commands env c vs (count_command s1) = Some s'" by (auto split: option.splits)
  from Cons.IH [OF s1(2) known.inv_counters(2) [OF known.inv_command [OF Cons.prems(2) s1(1)]]] show ?case .
qed simp

lemma run_input: "run_commands env c vs (put_input c' inp off p s) = map_option (put_input c' inp off p) (run_commands env c vs s)"
  by (induction vs arbitrary: s) (simp_all add: input.processCommand_F split: option.split)

lemma put_input_again [simp]: "put_input c inp off p (put_input c inp' off' p' s) = put_input c inp off p s"
  by (simp add: put_input_def option.map_comp comp_def)

lemma set_ctx_input:
  "conn_inbuf s c = Some ctx \<Longrightarrow> set_ctx c (ctx\<lparr>conn_parser := p, pending_offset := n\<rparr>) s = put_input c (pending_input ctx) n p s"
  by (cases ctx) (simp add: set_ctx_def put_input_def set_input_def)

lemma reset_input: "conn_inbuf s c \<noteq> None \<Longrightarrow> reset_conn_parser c (put_input c inp off p s) = put_input c inp off new_RESPParser s"
  by (auto simp: reset_conn_parser_def set_ctx_def put_input_def set_input_def)

lemma idle_input: "conn_inbuf s c \<noteq> None \<Longrightarrow> idle c s \<longleftrightarrow> put_input c [] 0 new_RESPParser s = s"
proof -
  assume "conn_inbuf s c \<noteq> None"
  then obtain ctx where c: "conn_inbuf s c = Some ctx" by auto
  have "put_input c [] 0 new_RESPParser s = s \<longleftrightarrow> (conn_inbuf s)(c \<mapsto> set_input [] 0 new_RESPParser ctx) = conn_inbuf s"
    using c by (cases s) (simp add: put_input_def)
  also have "\<dots> \<longleftrightarrow> set_input [] 0 new_RESPParser ctx = ctx" using c by (metis fun_upd_same fun_upd_triv option.inject)
  finally show ?thesis by (cases ctx) (auto simp: idle_def c set_input_def)
qed

section \<open>The loop\<close>

lemma loop_next: "message_step env c s = Some (LoopNext s') \<Longrightarrow> message_loop env c s = message_loop env c s'"
  by (simp add: message_loop.simps [of env c s])

lemma step_command:
  assumes "conn_inbuf s c = Some ctx" "pending_offset ctx < length (pending_input ctx)"
    and "parse (drop (pending_offset ctx) (pending_input ctx)) (conn_parser ctx) = Some (makeSuccess v n, p)"
  shows "message_step env c s = (let off = pending_offset ctx + (n - processed_bytes (conn_parser ctx)) in
    map_option (\<lambda>s'. LoopNext (put_input c (pending_input ctx) off new_RESPParser (count_command s')))
      (processCommand c v (env (total_commands (srv_stats s))) s))"
proof -
  let ?off = "pending_offset ctx + (n - processed_bytes (conn_parser ctx))" and ?e = "env (total_commands (srv_stats s))"
  have "conn_inbuf (count_command s') c \<noteq> None" if "processCommand c v ?e s = Some s'" for s'
    using known.inv_counters(2) [OF known.inv_command [OF _ that]] assms(1) by simp
  then show ?thesis
    using assms set_ctx_input [OF assms(1), where p = p and n = ?off]
    by (simp add: message_step_def makeSuccess_def Let_def reset_input input.processCommand_F split: option.split)
qed

lemma loop_pipeline:
  assumes "\<forall>v \<in> set vs. flat_ok v" "conn_inbuf s c = Some ctx" "conn_parser ctx = new_RESPParser"
    and "drop (pending_offset ctx) (pending_input ctx) = concat (map encode vs)"
    and "pending_offset ctx \<le> length (pending_input ctx)"
  shows "message_loop env c s = map_option (\<lambda>s'. (True, put_input c (pending_input ctx) (length (pending_input ctx)) new_RESPParser s'))
    (run_commands env c vs s)"
  using assms
proof (induction vs arbitrary: s ctx)
  case Nil
  then have "pending_offset ctx = length (pending_input ctx)" by simp
  with Nil show ?case
    by (simp add: message_loop.simps [of env c s] message_step_def) (cases ctx; cases s; simp add: put_input_def set_input_def fun_upd_idem)
next
  case (Cons v vs)
  let ?inp = "pending_input ctx" and ?n = "pending_offset ctx + length (encode v)"
  obtain p' where p: "parse (encode v @ concat (map encode vs)) new_RESPParser = Some (makeSuccess v (length (encode v)), p')"
    using parse_flat [of v "concat (map encode vs)"] Cons.prems(1) by auto
  have lt: "pending_offset ctx < length ?inp"
    using Cons.prems(4) encode_not_Nil [of v] by (metis append_is_Nil_conv concat.simps(2) drop_all list.simps(9) not_less)
  have d: "drop ?n ?inp = concat (map encode vs)" using drop_part [of "pending_offset ctx" ?inp "encode v"] Cons.prems(4) by simp
  have le: "?n \<le> length ?inp" using Cons.prems(4,5) length_drop [of "pending_offset ctx" ?inp] by simp
  have step: "message_step env c s = map_option (\<lambda>s'. LoopNext (put_input c ?inp ?n new_RESPParser (count_command s')))
      (processCommand c v (env (total_commands (srv_stats s))) s)"
    using step_command [OF Cons.prems(2) lt, of v "length (encode v)" p' env] p Cons.prems(3,4) by (simp add: new_RESPParser_def)
  show ?case
  proof (cases "processCommand c v (env (total_commands (srv_stats s))) s")
    case None
    then show ?thesis using step by (simp add: message_loop.simps [of env c s])
  next
    case (Some s1)
    let ?s = "count_command s1"
    obtain ctx1 where c1: "conn_inbuf ?s c = Some ctx1"
      using known.inv_counters(2) [OF known.inv_command [OF _ Some]] Cons.prems(2) by auto
    have "message_loop env c (put_input c ?inp ?n new_RESPParser ?s) =
        map_option (\<lambda>s'. (True, put_input c ?inp (length ?inp) new_RESPParser s')) (run_commands env c vs (put_input c ?inp ?n new_RESPParser ?s))"
      using Cons.IH [of "put_input c ?inp ?n new_RESPParser ?s" "set_input ?inp ?n new_RESPParser ctx1"] Cons.prems(1) c1 d le by simp
    with step Some show ?thesis by (simp add: loop_next run_input option.map_comp comp_def)
  qed
qed

section \<open>Messages\<close>

lemma open_conn_known: "conn_inbuf (open_conn c s) c \<noteq> None"
  by (simp add: open_conn_def set_ctx_def)

lemma open_idle: "idle c s \<Longrightarrow> idle c (open_conn c s)"
  by (auto simp: idle_def open_conn_def set_ctx_def new_ConnParseState_def split: option.splits)

lemma put_input_max: "put_input c inp off p (updateMaxInputBufferBytes n s) = updateMaxInputBufferBytes n (put_input c inp off p s)"
  by (simp add: updateMaxInputBufferBytes_def)

lemma max_again: "updateMaxInputBufferBytes m (updateMaxInputBufferBytes n s) = updateMaxInputBufferBytes (max n m) s"
    "updateMaxInputBufferBytes 0 s = s"
  by (simp_all add: updateMaxInputBufferBytes_def upd_stats_def max.commute max.left_commute)

text \<open>The first part of a message: the chunk is waiting. The parser may be inside a command.\<close>

definition reads_with :: "RESPParser \<Rightarrow> conn \<Rightarrow> Server \<Rightarrow> bool" where
  "reads_with p c s \<longleftrightarrow> (case conn_inbuf s c of None \<Rightarrow> p = new_RESPParser
     | Some ctx \<Rightarrow> pending_input ctx = [] \<and> pending_offset ctx = 0 \<and> conn_parser ctx = p)"

lemma idle_reads: "idle c s \<Longrightarrow> reads_with new_RESPParser c s"
  by (simp add: idle_def reads_with_def split: option.splits)

lemma message_unfold:
  assumes "reads_with p c s" "length chunk \<le> max_inbuf s"
  shows "onMessage env c chunk s = (case message_loop env c
      (put_input c chunk 0 p (updateMaxInputBufferBytes (length chunk) (open_conn c s))) of
    None \<Rightarrow> None | Some (False, s) \<Rightarrow> Some s | Some (True, s) \<Rightarrow> Some (message_end c s))"
proof -
  let ?ctx = "case conn_inbuf s c of None \<Rightarrow> new_ConnParseState | Some ctx \<Rightarrow> ctx"
  have i: "pending_input ?ctx = []" "pending_offset ?ctx = 0" "conn_parser ?ctx = p"
    using assms(1) by (simp_all add: reads_with_def new_ConnParseState_def split: option.splits)
  have "set_ctx c (?ctx\<lparr>pending_input := chunk\<rparr>) s = put_input c chunk 0 p (open_conn c s)"
    using i by (cases ?ctx) (simp add: open_conn_def put_input_def set_ctx_def set_input_def)
  with assms(2) i show ?thesis
    by (simp add: onMessage_def Let_def pendingReadableBytes_def put_input_max max_inbuf_def set_ctx_def)
qed

lemma message_end_done:
  assumes "conn_inbuf s c \<noteq> None"
  shows "message_end c (put_input c inp (length inp) p s) = put_input c [] 0 p s"
proof -
  obtain ctx where c: "conn_inbuf s c = Some ctx" using assms by auto
  have "set_ctx c (compact_input (set_input inp (length inp) p ctx)) (put_input c inp (length inp) p s) = put_input c [] 0 p s"
    using c by (cases ctx) (simp add: compact_input_def set_ctx_def put_input_def set_input_def)
  then show ?thesis
    using c by (simp add: message_end_def Let_def pendingReadableBytes_def max_again) (simp add: compact_input_def max_again)
qed

lemma run_keeps_idle: "run_commands env c vs s = Some s' \<Longrightarrow> idle c' s \<Longrightarrow> conn_inbuf s c' \<noteq> None \<Longrightarrow> idle c' s'"
  using run_input [of env c vs c' "[]" 0 new_RESPParser s] run_known [of env c vs s s' c']
  by (simp add: idle_input)

lemma message_pipeline:
  assumes "idle c s" "\<forall>v \<in> set vs. flat_ok v" "length (concat (map encode vs)) \<le> max_inbuf s"
  shows "onMessage env c (concat (map encode vs)) s =
    run_commands env c vs (updateMaxInputBufferBytes (length (concat (map encode vs))) (open_conn c s))"
proof -
  let ?b = "concat (map encode vs)"
  let ?s = "updateMaxInputBufferBytes (length ?b) (open_conn c s)"
  obtain ctx where c: "conn_inbuf ?s c = Some ctx"
    using known.inv_counters(3) [OF open_conn_known] by blast
  have id: "idle c ?s" using open_idle [OF assms(1)] by (simp add: idle_def updateMaxInputBufferBytes_def upd_stats_def)
  have "message_loop env c (put_input c ?b 0 new_RESPParser ?s) =
      map_option (\<lambda>s'. (True, put_input c ?b (length ?b) new_RESPParser s')) (run_commands env c vs (put_input c ?b 0 new_RESPParser ?s))"
    using loop_pipeline [OF assms(2), of "put_input c ?b 0 new_RESPParser ?s" c "set_input ?b 0 new_RESPParser ctx"] c by simp
  moreover have "put_input c [] 0 new_RESPParser s' = s'" "conn_inbuf s' c \<noteq> None" if "run_commands env c vs ?s = Some s'" for s'
    using run_keeps_idle [OF that id] run_known [OF that, of c] c by (auto simp: idle_input)
  ultimately show ?thesis
    by (auto simp: message_unfold [OF idle_reads [OF assms(1)] assms(3)] run_input message_end_done split: option.split)
qed

text \<open>A command in two pieces, the first of which the parser consumes.\<close>

lemma message_split:
  assumes "idle c s" "flat_ok v" "encode v = d1 @ d2" "d1 \<noteq> []" "d2 \<noteq> []" "length (encode v) \<le> max_inbuf s"
    and "parse d1 new_RESPParser = Some (r, p1)" "pr_success r" "\<not> pr_complete r"
  shows "\<exists>s1. onMessage env c d1 s = Some s1 \<and> srv_out s1 = srv_out s \<and> srv_storage s1 = srv_storage s \<and>
    onMessage env c d2 s1 =
      run_commands env c [v] (updateMaxInputBufferBytes (max (length d1) (length d2)) (open_conn c s))"
proof -
  let ?s = "updateMaxInputBufferBytes (length d1) (open_conn c s)"
  let ?s1 = "put_input c [] 0 p1 ?s" and ?s2 = "updateMaxInputBufferBytes (max (length d1) (length d2)) (open_conn c s)"
  obtain ctx where c: "conn_inbuf ?s c = Some ctx" using known.inv_counters(3) [OF open_conn_known] by blast
  obtain p2 where p2: "parse d2 p1 = Some (makeSuccess v (length (encode v)), p2)"
    using parse_flat [OF assms(2), of "[]"] parse_chunks [OF assms(7-9,4,5)] assms(3) by auto
  have n: "processed_bytes p1 = length d1" "pr_processed r = length d1"
    using loop_consumes [of d1 new_RESPParser 0 r p1] assms(4,7-9) by (simp_all add: parse_def new_RESPParser_def)
  have l1: "message_loop env c (put_input c d1 0 new_RESPParser ?s) = Some (True, put_input c d1 (length d1) p1 ?s)"
    using c assms(4,7-9) n
    by (simp add: message_loop.simps [of env c] message_step_def Let_def set_ctx_input new_RESPParser_def)
  have m1: "onMessage env c d1 s = Some ?s1"
    using message_unfold [OF idle_reads [OF assms(1)], of d1 env] assms(3,6) l1 c by (simp add: message_end_done)
  have o: "open_conn c ?s1 = ?s1" using c by (simp add: open_conn_def set_ctx_def put_input_def)
  have reads: "reads_with p1 c ?s1" using c by (simp add: reads_with_def)
  have max1: "max_inbuf ?s1 = max_inbuf s"
    by (simp add: max_inbuf_def updateMaxInputBufferBytes_def upd_stats_def open_conn_def set_ctx_def)
  have in2: "put_input c d2 0 p1 (updateMaxInputBufferBytes (length d2) ?s1) = put_input c d2 0 p1 ?s2"
    by (simp add: put_input_max [symmetric] max_again)
  obtain ctx2 where c2: "conn_inbuf ?s2 c = Some ctx2" using known.inv_counters(3) [OF open_conn_known] by blast
  have "message_step env c (put_input c d2 0 p1 ?s2) =
      map_option (\<lambda>s'. LoopNext (put_input c d2 (length d2) new_RESPParser (count_command s')))
        (processCommand c v (env (total_commands (srv_stats ?s2))) (put_input c d2 0 p1 ?s2))"
    using step_command [of "put_input c d2 0 p1 ?s2" c "set_input d2 0 p1 ctx2" v "length (encode v)" p2 env] c2 p2 n assms(3,5) by simp
  then have l2: "message_loop env c (put_input c d2 0 p1 ?s2) =
      map_option (\<lambda>s'. (True, put_input c d2 (length d2) new_RESPParser s')) (run_commands env c [v] ?s2)"
    by (cases "processCommand c v (env (total_commands (srv_stats ?s2))) ?s2")
      (use c2 in \<open>auto simp: message_loop.simps [of env c] input.processCommand_F message_step_def split: option.split\<close>)
  have id2: "idle c ?s2" using open_idle [OF assms(1)] by (simp add: idle_def updateMaxInputBufferBytes_def upd_stats_def)
  have "put_input c [] 0 new_RESPParser s' = s'" "conn_inbuf s' c \<noteq> None" if "run_commands env c [v] ?s2 = Some s'" for s'
    using run_keeps_idle [OF that id2] run_known [OF that, of c] c2 by (auto simp: idle_input)
  then have "onMessage env c d2 ?s1 = run_commands env c [v] ?s2"
    using message_unfold [OF reads, of d2 env] assms(3,6) max1 o in2 l2 by (auto simp: message_end_done split: option.split)
  moreover have "srv_out ?s1 = srv_out s" "srv_storage ?s1 = srv_storage s"
    by (simp_all add: updateMaxInputBufferBytes_def upd_stats_def open_conn_def set_ctx_def)
  ultimately show ?thesis using m1 by blast
qed

end
