(* ===== verification/Server_Tx.thy ===== *)
theory Server_Tx
  imports Server_Pubsub Server_Pipeline
begin

text \<open>
  Transactions. The reference is \<open>data_replies\<close>, the replies of data commands run one after the
  other; both the direct execution of the commands and \<^verbatim>\<open>MULTI\<close>, queueing and \<^verbatim>\<open>EXEC\<close> agree with it.
\<close>

section \<open>Data commands alone\<close>

definition unknown_command :: string where
  "unknown_command = serializeError ''ERR unknown command''"

definition is_data_command :: "RESPValue list \<Rightarrow> bool" where
  "is_data_command a \<longleftrightarrow> a \<noteq> [] \<and> getType (hd a) = BULK_STRING \<and> command_name a \<in> set (map fst data_table)"

definition data_reply :: "CmdEnv \<Rightarrow> RESPValue list \<Rightarrow> Server \<Rightarrow> string \<times> Server" where
  "data_reply e a s = (case run_handler None (command_name a) a e s of
      None \<Rightarrow> ([], s)
    | Some (handled, out, s') \<Rightarrow> (if handled then concat out else unknown_command, s'))"

fun data_replies :: "CmdEnv \<Rightarrow> RESPValue list list \<Rightarrow> Server \<Rightarrow> string list \<times> Server" where
  "data_replies e [] s = ([], s)"
| "data_replies e (a # as) s = (let (r, s) = data_reply e a s; (rs, s) = data_replies e as s in (r # rs, s))"

lemma map_of_filter_keys: "P k \<Longrightarrow> map_of (filter (\<lambda>(k, v). P k) xs) k = map_of xs k"
  by (induction xs) auto

lemma data_table_lookup:
  assumes "name \<in> set (map fst data_table)"
  obtains h where "map_of array_cmd_dispatch_table name = Some h" "h \<in> set (map snd data_table)"
proof -
  have "map_of array_cmd_dispatch_table name = map_of data_table name" if "name \<notin> set server_commands"
    using that unfolding data_table_def by (simp add: map_of_filter_keys [of "\<lambda>name. name \<notin> set server_commands"])
  moreover have "name \<notin> set server_commands" using assms by (auto simp: data_table_def)
  moreover obtain h where h: "map_of data_table name = Some h" using assms by (auto dest: weak_map_of_SomeI)
  moreover have "h \<in> set (map snd data_table)" using map_of_SomeD [OF h] by force
  ultimately show thesis using that by simp
qed

lemma data_handler_conn: "h \<in> set (map snd data_table) \<Longrightarrow> h c a env s = h None a env s"
  unfolding data_table_set by (elim insertE emptyE; simp add: data_handler_defs)

text \<open>One command: it returns, on a connection or not, and its reply is one value.\<close>

lemma data_command:
  assumes "is_data_command a" "data_reply e a s = (r, s')"
  shows "\<exists>handled. run_handler c (command_name a) a e s = Some (handled, if handled then [r] else [], s') \<and>
      (\<not> handled \<longrightarrow> r = unknown_command)" "effect s s'" "is_reply r"
proof -
  obtain h where h: "map_of array_cmd_dispatch_table (command_name a) = Some h" "h \<in> set (map snd data_table)"
    using assms(1) data_table_lookup by (auto simp: is_data_command_def)
  obtain b out t where t: "h None a e s = Some (b, out, t)" "effect s t" "if b then \<exists>x. out = [x] \<and> is_reply x else out = []"
    using data_handler_result [OF h(2), of s None a e] by (auto simp: data_result_def)
  have "(if b then concat out else unknown_command, t) = (r, s')" using assms(2) t(1) h(1) by (simp add: data_reply_def run_handler_def)
  with t h(1) data_handler_conn [OF h(2), of c a e s]
  show "\<exists>handled. run_handler c (command_name a) a e s = Some (handled, if handled then [r] else [], s') \<and>
      (\<not> handled \<longrightarrow> r = unknown_command)" "effect s s'" "is_reply r"
    by (auto simp: run_handler_def unknown_command_def split: if_splits)
qed

lemma data_reply_core: "is_data_command a \<Longrightarrow> data_reply e a (core s) = apsnd core (data_reply e a s)"
proof -
  assume "is_data_command a"
  then obtain h where "map_of array_cmd_dispatch_table (command_name a) = Some h" "h \<in> set (map snd data_table)"
    using data_table_lookup by (auto simp: is_data_command_def)
  then show ?thesis
    using core.data_handler_F [of h None a e s] by (simp add: data_reply_def run_handler_def split: option.split)
qed

lemma data_replies_core: "\<forall>a \<in> set as. is_data_command a \<Longrightarrow> data_replies e as (core s) = apsnd core (data_replies e as s)"
  by (induction as arbitrary: s) (simp_all add: data_reply_core Let_def split_beta)

section \<open>On a connection\<close>

text \<open>A connection that is open and not subscribed.\<close>

definition plain :: "conn \<Rightarrow> Server \<Rightarrow> bool" where
  "plain c s \<longleftrightarrow> c \<in> set (srv_connected s) \<and> \<not> isSubscribeMode c s \<and> conn_inbuf s c \<noteq> None"

definition array_of :: "RESPValue list \<Rightarrow> RESPValue" where
  "array_of a = RESPArray (Some a)"

lemma data_name:
  assumes "is_data_command a"
  shows "command_name a \<notin> {''WATCH'', ''UNWATCH'', ''QUIT'', ''MULTI'', ''DISCARD'', ''EXEC''}"
proof -
  have "command_name a \<in> set (map fst array_cmd_dispatch_table)" using assms by (auto simp: is_data_command_def data_table_def)
  moreover have "x \<notin> set (map fst array_cmd_dispatch_table)" if "x \<in> {''WATCH'', ''UNWATCH'', ''QUIT'', ''MULTI'', ''DISCARD'', ''EXEC''}" for x
    using that by (elim insertE emptyE) (simp_all add: array_cmd_dispatch_table_def)
  ultimately show ?thesis by blast
qed

text \<open>What counting and sending leave alone.\<close>

lemma core_simps [simp]: "core (send c d s) = core s" "core (recordCommandMetrics x n s) = core s" "core (count_command s) = core s"
    "core (set_multi b qs c s) = core s"
  by (simp_all add: core_def send_def recordCommandMetrics_def count_command_def upd_stats_def set_multi_def set_ctx_def Let_def
      split: option.split)

lemma plain_simps [simp]:
  "plain c (send c' d s) = plain c s" "plain c (recordCommandMetrics x n s) = plain c s" "plain c (count_command s) = plain c s"
  "plain c (set_multi b qs c s) = plain c s"
  by (auto simp: plain_def isSubscribeMode_def send_def recordCommandMetrics_def count_command_def upd_stats_def set_multi_def set_ctx_def
      Let_def split: option.splits)

lemma multi_simps [simp]:
  "ctx_in_multi c (send c' d s) = ctx_in_multi c s" "ctx_in_multi c (recordCommandMetrics x n s) = ctx_in_multi c s"
  "ctx_in_multi c (count_command s) = ctx_in_multi c s" "ctx_queue c (send c' d s) = ctx_queue c s"
  "ctx_queue c (recordCommandMetrics x n s) = ctx_queue c s" "ctx_queue c (count_command s) = ctx_queue c s"
  by (auto simp: ctx_in_multi_def ctx_queue_def send_def recordCommandMetrics_def count_command_def upd_stats_def Let_def)

lemma multi_set [simp]: "plain c s \<Longrightarrow> ctx_in_multi c (set_multi b qs c s) = b" "plain c s \<Longrightarrow> ctx_queue c (set_multi b qs c s) = qs"
  by (auto simp: ctx_in_multi_def ctx_queue_def set_multi_def set_ctx_def plain_def)

lemma out_simps [simp]: "plain c s \<Longrightarrow> srv_out (send c d s) = srv_out s @ [Send c d]"
    "srv_out (recordCommandMetrics x n s) = srv_out s" "srv_out (count_command s) = srv_out s" "srv_out (set_multi b qs c s) = srv_out s"
  by (simp_all add: plain_def send_def recordCommandMetrics_def count_command_def upd_stats_def set_multi_def set_ctx_def Let_def
      split: option.split)

lemma effect_plain: "effect s s' \<Longrightarrow> plain c s' = plain c s" "effect s s' \<Longrightarrow> ctx_in_multi c s' = ctx_in_multi c s"
    "effect s s' \<Longrightarrow> ctx_queue c s' = ctx_queue c s"
  by (simp_all add: plain_def isSubscribeMode_def ctx_in_multi_def ctx_queue_def effect_fields)

section \<open>Direct execution\<close>

lemma direct_command:
  assumes "is_data_command a" "plain c s" "\<not> ctx_in_multi c s" "data_reply e a s = (r, s')"
  shows "\<exists>err. processCommand c (array_of a) (\<lambda>_. e) s = Some (recordCommandMetrics err (env_latency_us e) (send c r s'))"
proof -
  obtain handled where h: "run_handler (Some c) (command_name a) a e s = Some (handled, if handled then [r] else [], s')"
    "\<not> handled \<longrightarrow> r = unknown_command" using data_command(1) [OF assms(1,4)] by blast
  have n: "command_name a \<noteq> ''WATCH'' \<and> command_name a \<noteq> ''UNWATCH'' \<and> command_name a \<noteq> ''QUIT'' \<and> command_name a \<noteq> ''MULTI'' \<and>
      command_name a \<noteq> ''DISCARD'' \<and> command_name a \<noteq> ''EXEC''" using data_name [OF assms(1)] by auto
  have "processNamed c (command_name a) a (\<lambda>_. e) s = Some (if handled then Returned False else FallThrough, if handled then send c r s' else s')"
    using n h(1) assms(2,3) by (auto simp: processNamed_def plain_def dispatchArrayCommandsLookup_def)
  then show ?thesis
    using assms(1) h(2) by (auto simp: processCommand_def processArray_def array_of_def is_data_command_def unknown_command_def)
qed

lemma direct_run:
  assumes "\<forall>a \<in> set as. is_data_command a" "plain c s" "\<not> ctx_in_multi c s" "data_replies e as s = (rs, s')"
  shows "\<exists>s2. run_commands (\<lambda>_ _. e) c (map array_of as) s = Some s2 \<and> core s2 = core s' \<and> srv_out s2 = srv_out s @ map (Send c) rs \<and>
    plain c s2 \<and> \<not> ctx_in_multi c s2"
  using assms
proof (induction as arbitrary: s rs s')
  case (Cons a as)
  obtain r t where r: "data_reply e a s = (r, t)" by (metis surj_pair)
  obtain err where p: "processCommand c (array_of a) (\<lambda>_. e) s = Some (recordCommandMetrics err (env_latency_us e) (send c r t))"
    using direct_command [OF _ Cons.prems(2,3) r] Cons.prems(1) by auto
  let ?t = "count_command (recordCommandMetrics err (env_latency_us e) (send c r t))"
  have eff: "effect s t" using data_command(2) [OF _ r] Cons.prems(1) by simp
  obtain rs' u where u: "data_replies e as ?t = (rs', u)" by (metis surj_pair)
  obtain s2 where s2: "run_commands (\<lambda>_ _. e) c (map array_of as) ?t = Some s2" "core s2 = core u" "srv_out s2 = srv_out ?t @ map (Send c) rs'"
      "plain c s2" "\<not> ctx_in_multi c s2"
    using Cons.IH [OF _ _ _ u] Cons.prems(1-3) effect_plain [OF eff, of c] by auto
  obtain rs1 u1 where u1: "data_replies e as t = (rs1, u1)" by (metis surj_pair)
  have "apsnd core (data_replies e as ?t) = apsnd core (data_replies e as t)"
    using data_replies_core [of as e ?t] data_replies_core [of as e t] Cons.prems(1) by simp
  then have "rs1 = rs'" "core u1 = core u" using u u1 by simp_all
  moreover have "rs = r # rs1" "s' = u1" using Cons.prems(4) r u1 by simp_all
  moreover have "srv_out t = srv_out s" "plain c t" using effect_fields(5) [OF eff] effect_plain [OF eff, of c] Cons.prems(2) by simp_all
  ultimately show ?case using p s2 by auto
qed simp

section \<open>Queueing and EXEC\<close>

definition queued :: "RESPValue list \<Rightarrow> QueuedCommand" where
  "queued a = \<lparr>qc_name = command_name a, qc_array = a\<rparr>"

lemma queued_simps [simp]: "qc_name (queued a) = command_name a" "qc_array (queued a) = a"
  by (simp_all add: queued_def)

definition queued_reply :: string where
  "queued_reply = ''+QUEUED'' @ crlf"

lemma queue_command:
  assumes "a \<noteq> []" "getType (hd a) = BULK_STRING" "plain c s" "ctx_in_multi c s"
    and "command_name a \<notin> {''WATCH'', ''UNWATCH'', ''QUIT'', ''MULTI'', ''DISCARD'', ''EXEC''}"
  shows "processCommand c (array_of a) (\<lambda>_. e) s =
    Some (recordCommandMetrics False (env_latency_us e) (send c queued_reply (set_multi True (ctx_queue c s @ [queued a]) c s)))"
proof -
  have "processNamed c (command_name a) a (\<lambda>_. e) s = Some (Returned False, send c queued_reply (set_multi True (ctx_queue c s @ [queued a]) c s))"
    using assms(3-5) by (simp add: processNamed_def plain_def processQueue_def returned_def queued_def queued_reply_def)
  then show ?thesis using assms(1,2) by (simp add: processCommand_def processArray_def array_of_def)
qed

lemma queue_run:
  assumes "\<forall>a \<in> set as. is_data_command a" "plain c s" "ctx_in_multi c s"
  shows "\<exists>s2. run_commands (\<lambda>_ _. e) c (map array_of as) s = Some s2 \<and> core s2 = core s \<and> plain c s2 \<and> ctx_in_multi c s2 \<and>
    ctx_queue c s2 = ctx_queue c s @ map queued as \<and> srv_out s2 = srv_out s @ map (\<lambda>_. Send c queued_reply) as"
  using assms
proof (induction as arbitrary: s)
  case (Cons a as)
  let ?t = "count_command (recordCommandMetrics False (env_latency_us e) (send c queued_reply (set_multi True (ctx_queue c s @ [queued a]) c s)))"
  have "run_commands (\<lambda>_ _. e) c (map array_of (a # as)) s = run_commands (\<lambda>_ _. e) c (map array_of as) ?t"
    using queue_command [OF _ _ Cons.prems(2,3) data_name, of a e] Cons.prems(1) by (simp add: is_data_command_def)
  moreover obtain s2 where "run_commands (\<lambda>_ _. e) c (map array_of as) ?t = Some s2" "core s2 = core ?t" "plain c s2" "ctx_in_multi c s2"
      "ctx_queue c s2 = ctx_queue c ?t @ map queued as" "srv_out s2 = srv_out ?t @ map (\<lambda>_. Send c queued_reply) as"
    using Cons.IH [of ?t] Cons.prems by auto
  ultimately show ?case using Cons.prems(2) by auto
qed simp

lemma exec_run:
  assumes "\<forall>a \<in> set as. is_data_command a" "data_replies e as s = (rs, s')"
  shows "exec_queued (\<lambda>_. e) i (map queued as) out s = Some (out @ concat rs, s') \<and> effect s s'"
  using assms
proof (induction as arbitrary: s rs s' i out)
  case (Cons a as)
  obtain r t where r: "data_reply e a s = (r, t)" by (metis surj_pair)
  have d: "executeArrayCommandToResp (command_name a) a e s = Some (r, t)" "effect s t"
    using data_command(1) [OF _ r, of None] data_command(2) [OF _ r] Cons.prems(1)
    by (auto simp: executeArrayCommandToResp_def unknown_command_def)
  obtain rs1 where u: "data_replies e as t = (rs1, s')" "rs = r # rs1"
    using Cons.prems(2) r by (auto simp: Let_def split: prod.splits)
  have x: "exec_queued (\<lambda>_. e) (Suc i) (map queued as) (out @ r) t = Some ((out @ r) @ concat rs1, s') \<and> effect t s'"
    by (rule Cons.IH [OF _ u(1)]) (use Cons.prems(1) in simp)
  then have "effect s s'" using effect_trans [OF d(2)] by blast
  with x show ?case using d(1) u(2) by simp
qed simp

definition MULTI_cmd :: RESPValue where
  "MULTI_cmd = RESPArray (Some [RESPBulkString (Some ''MULTI'')])"

definition EXEC_cmd :: RESPValue where
  "EXEC_cmd = RESPArray (Some [RESPBulkString (Some ''EXEC'')])"

lemma control_name [simp]: "command_name [RESPBulkString (Some ''MULTI'')] = ''MULTI''" "command_name [RESPBulkString (Some ''EXEC'')] = ''EXEC''"
  by (simp_all add: command_name_def toupper_def bulk_getValue_def)

lemma run_append: "run_commands env c (vs @ ws) s = (case run_commands env c vs s of None \<Rightarrow> None | Some s \<Rightarrow> run_commands env c ws s)"
  by (induction vs arbitrary: s) (auto split: option.split)

lemma multi_command:
  assumes "plain c s" "\<not> ctx_in_multi c s"
  shows "processCommand c MULTI_cmd (\<lambda>_. e) s = Some (recordCommandMetrics False (env_latency_us e) (send c kSimpleStringOk (set_multi True [] c s)))"
proof -
  have "processNamed c ''MULTI'' [RESPBulkString (Some ''MULTI'')] (\<lambda>_. e) s = processMulti c s"
    using assms(1) by (simp add: processNamed_def plain_def)
  then show ?thesis using assms(2) by (simp add: processCommand_def processArray_def MULTI_cmd_def processMulti_def returned_def)
qed

lemma tx_run:
  assumes "\<forall>a \<in> set as. is_data_command a" "plain c s" "\<not> ctx_in_multi c s" "data_replies e as s = (rs, s')"
  shows "\<exists>s2. run_commands (\<lambda>_ _. e) c (MULTI_cmd # map array_of as @ [EXEC_cmd]) s = Some s2 \<and> core s2 = core s' \<and>
    srv_out s2 = srv_out s @ Send c kSimpleStringOk # map (\<lambda>_. Send c queued_reply) as @
      [Send c (''*'' @ nat_to_string (length as) @ crlf @ concat rs)] \<and> \<not> ctx_in_multi c s2"
proof -
  let ?t = "count_command (recordCommandMetrics False (env_latency_us e) (send c kSimpleStringOk (set_multi True [] c s)))"
  note m = multi_command [OF assms(2,3), of e]
  obtain q where q: "run_commands (\<lambda>_ _. e) c (map array_of as) ?t = Some q" "core q = core ?t" "plain c q" "ctx_in_multi c q"
      "ctx_queue c q = map queued as" "srv_out q = srv_out ?t @ map (\<lambda>_. Send c queued_reply) as"
    using queue_run [OF assms(1), of c ?t e] assms(2) by auto
  obtain rs1 u where u: "data_replies e as q = (rs1, u)" by (metis surj_pair)
  have "apsnd core (data_replies e as q) = apsnd core (data_replies e as s)"
    using data_replies_core [OF assms(1), of e q] data_replies_core [OF assms(1), of e s] q(2) by simp
  then have rs: "rs1 = rs" "core u = core s'" using u assms(4) by simp_all
  note x = exec_run [OF assms(1) u, of 1 "''*'' @ nat_to_string (length as) @ crlf"]
  then have pu: "plain c u" "srv_out u = srv_out q" using effect_plain [of q u c] effect_fields(5) [of q u] q(3) by simp_all
  let ?out = "''*'' @ nat_to_string (length as) @ crlf @ concat rs"
  let ?s2 = "recordCommandMetrics False (env_latency_us e) (send c ?out (set_multi False [] c u))"
  have "processExec c (\<lambda>_. e) q = Some (Returned False, send c ?out (set_multi False [] c u))"
    using q(4,5) x rs(1) by (simp add: processExec_def returned_def)
  then have "processCommand c EXEC_cmd (\<lambda>_. e) q = Some ?s2"
    using q(3) by (simp add: processCommand_def processArray_def EXEC_cmd_def processNamed_def plain_def)
  then have "run_commands (\<lambda>_ _. e) c (MULTI_cmd # map array_of as @ [EXEC_cmd]) s = Some (count_command ?s2)"
    using m q(1) by (simp add: run_append)
  moreover have "srv_out (count_command ?s2) = srv_out s @ Send c kSimpleStringOk # map (\<lambda>_. Send c queued_reply) as @ [Send c ?out]"
    using pu q(6) assms(2) by simp
  moreover have "core (count_command ?s2) = core s'" "\<not> ctx_in_multi c (count_command ?s2)" using rs(2) pu(1) by simp_all
  ultimately show ?thesis by blast
qed

end
