(* ===== verification/Server_Reply.thy ===== *)
theory Server_Reply
  imports Server_Tx
begin

text \<open>
  Replies: a command other than \<^verbatim>\<open>SUBSCRIBE\<close> and \<^verbatim>\<open>UNSUBSCRIBE\<close> is answered by exactly one RESP value,
  also \<^verbatim>\<open>EXEC\<close>, and what a publication sends to others.
\<close>

fun sends_to :: "conn \<Rightarrow> NetEvent list \<Rightarrow> string list" where
  "sends_to c [] = []"
| "sends_to c (Send c' d # evs) = (if c' = c then d # sends_to c evs else sends_to c evs)"
| "sends_to c (ForceClose c' # evs) = sends_to c evs"

lemma sends_append [simp]: "sends_to c (evs @ evs') = sends_to c evs @ sends_to c evs'"
  by (induction c evs rule: sends_to.induct) auto

lemma sends_message: "distinct cs \<Longrightarrow> sends_to c (map (\<lambda>c'. Send c' d) cs) = (if c \<in> set cs then [d] else [])"
  by (induction cs) auto

section \<open>Publication\<close>

lemma fold_send: "set cs \<subseteq> set (srv_connected s) \<Longrightarrow>
    fold (\<lambda>c. send c d) cs s = s\<lparr>srv_out := srv_out s @ map (\<lambda>c. Send c d) cs\<rparr>"
  by (induction cs arbitrary: s) (auto simp: send_def)

definition channel_message :: "string \<Rightarrow> string \<Rightarrow> string" where
  "channel_message ch payload =
     encode (RESPArray (Some [RESPBulkString (Some ''message''), RESPBulkString (Some ch), RESPBulkString (Some payload)]))"

lemma nat_to_string_3: "nat_to_string (Suc (Suc (Suc 0))) = ''3''"
  by code_simp

definition live_subscribers :: "string \<Rightarrow> Server \<Rightarrow> conn list" where
  "live_subscribers ch s = filter (\<lambda>c. c \<in> set (srv_connected s)) (lookup_channel (channel_subscribers s) ch)"

lemma publish_effect:
  assumes "publishMessage ch payload s = (n, s')"
  shows "n = int (length (live_subscribers ch s))"
    "srv_out s' = srv_out s @ map (\<lambda>c. Send c (channel_message ch payload)) (live_subscribers ch s)"
    "srv_storage s' = srv_storage s" "conn_inbuf s' = conn_inbuf s" "channel_subscribers s' = channel_subscribers s"
    "srv_connected s' = srv_connected s"
proof -
  have m: "''*3'' @ crlf @ serializeBulkString ''message'' @ serializeBulkString ch @ serializeBulkString payload = channel_message ch payload"
    by (simp add: channel_message_def serialize_simps nat_to_string_3)
  have f: "fold (\<lambda>c. send c d) (filter (\<lambda>c. c \<in> set (srv_connected s)) cs) s =
      s\<lparr>srv_out := srv_out s @ map (\<lambda>c. Send c d) (filter (\<lambda>c. c \<in> set (srv_connected s)) cs)\<rparr>" for cs d
    by (rule fold_send) auto
  show "n = int (length (live_subscribers ch s))"
    "srv_out s' = srv_out s @ map (\<lambda>c. Send c (channel_message ch payload)) (live_subscribers ch s)"
    "srv_storage s' = srv_storage s" "conn_inbuf s' = conn_inbuf s" "channel_subscribers s' = channel_subscribers s"
    "srv_connected s' = srv_connected s"
    using assms unfolding publishMessage_def m
    by (auto simp: Let_def live_subscribers_def lookup_channel_def upd_stats_def f split: option.splits)
qed

section \<open>One command\<close>

definition silent :: "conn \<Rightarrow> Server \<Rightarrow> bool" where
  "silent c s \<longleftrightarrow> (\<forall>ch. c \<notin> set (lookup_channel (channel_subscribers s) ch))"

lemma live_silent: "silent c s \<Longrightarrow> sends_to c (map (\<lambda>c'. Send c' d) (live_subscribers ch s)) = []"
proof -
  assume "silent c s"
  then have "c \<notin> set (live_subscribers ch s)" by (auto simp: silent_def live_subscribers_def)
  moreover have "c \<notin> set cs \<Longrightarrow> sends_to c (map (\<lambda>c'. Send c' d) cs) = []" for cs by (induction cs) auto
  ultimately show ?thesis by blast
qed

lemma report_effect: "effect s (snd (buildStatsReport env s))"
  by (simp add: buildStatsReport_def Let_def split_beta)

text \<open>What a command other than the two keeps, seen from a connection that has no subscription.\<close>

definition quiet_step :: "conn \<Rightarrow> Server \<Rightarrow> Server \<Rightarrow> bool" where
  "quiet_step c s s' \<longleftrightarrow> sends_to c (srv_out s') = sends_to c (srv_out s) \<and> channel_subscribers s' = channel_subscribers s \<and>
     conn_inbuf s' = conn_inbuf s \<and> srv_connected s' = srv_connected s"

definition one_reply :: "string list \<Rightarrow> bool \<Rightarrow> bool" where
  "one_reply out handled \<longleftrightarrow> (if handled then \<exists>r. out = [r] \<and> is_reply r else out = [])"

lemma quiet_effect: "effect s s' \<Longrightarrow> quiet_step c s s'"
  by (simp add: quiet_step_def effect_fields)

lemma quiet_trans: "quiet_step c s s' \<Longrightarrow> quiet_step c s' s'' \<Longrightarrow> quiet_step c s s''"
  by (simp add: quiet_step_def)

lemma quiet_silent: "quiet_step c s s' \<Longrightarrow> silent c s' = silent c s"
  by (simp add: quiet_step_def silent_def)

lemma quiet_reply:
  "quiet_step c s s' \<Longrightarrow> is_reply r \<Longrightarrow> \<exists>b out t. reply r s' = Some (b, out, t) \<and> quiet_step c s t \<and> one_reply out b"
  "\<exists>b out t. unhandled s = Some (b, out, t) \<and> quiet_step c s t \<and> one_reply out b"
  by (auto simp: reply_def unhandled_def one_reply_def quiet_step_def)

lemma handler_answer:
  assumes "name \<noteq> ''SUBSCRIBE''" "name \<noteq> ''UNSUBSCRIBE''" "silent c s"
  shows "\<exists>b out s'. run_handler c' name a env s = Some (b, out, s') \<and> quiet_step c s s' \<and> one_reply out b"
proof (cases "map_of array_cmd_dispatch_table name")
  case (Some h)
  have data: ?thesis if d: "h \<in> set (map snd data_table)"
  proof -
    obtain b out s' where r: "h c' a env s = Some (b, out, s')" "effect s s'"
      "if b then \<exists>resp. out = [resp] \<and> is_reply resp else out = []"
      using data_handler_result [OF d, of s c' a env] by (auto simp: data_result_def)
    then show ?thesis using Some quiet_effect [OF r(2)] by (simp add: run_handler_def one_reply_def)
  qed
  note q = quiet_effect [OF report_effect, of c s env]
  have dbg: "quiet_step c s (s\<lparr>srv_pool := p\<rparr>)" for p by (simp add: quiet_step_def)
  have pub: "quiet_step c s (snd (publishMessage ch d s))" for ch d
    using publish_effect [of ch d s] live_silent [OF assms(3)] by (simp add: quiet_step_def prod_eq_iff)
  show ?thesis
  proof (cases "name \<in> set server_commands")
    case False
    then have "name \<in> set (map fst data_table)" using map_of_SomeD [OF Some] by (force simp: data_table_def)
    with Some data show ?thesis by (metis data_table_lookup option.inject)
  next
    case True
    then have n: "name = ''STATS'' \<or> name = ''MONITOR'' \<or> name = ''DEBUG'' \<or> name = ''PUBLISH''"
      using assms(1,2) by (auto simp: server_commands_def)
    have lookup: "run_handler c' ''STATS'' a env s = cmdStats c' a env s" "run_handler c' ''MONITOR'' a env s = cmdMonitor c' a env s"
      "run_handler c' ''DEBUG'' a env s = cmdDebug c' a env s" "run_handler c' ''PUBLISH'' a env s = cmdPublish c' a env s"
      by (simp_all add: run_handler_def array_cmd_dispatch_table_def)
    have "\<exists>b out t. cmdStats c' a env s = Some (b, out, t) \<and> quiet_step c s t \<and> one_reply out b"
      "\<exists>b out t. cmdMonitor c' a env s = Some (b, out, t) \<and> quiet_step c s t \<and> one_reply out b"
      "\<exists>b out t. cmdPublish c' a env s = Some (b, out, t) \<and> quiet_step c s t \<and> one_reply out b"
      unfolding cmdStats_def cmdMonitor_def cmdPublish_def split_beta Let_def
      using quiet_reply(2) quiet_reply(1) [OF q] quiet_reply(1) [OF pub] by simp_all
    moreover have "\<exists>b out t. cmdDebug c' a env s = Some (b, out, t) \<and> quiet_step c s t \<and> one_reply out b"
      unfolding cmdDebug_def split_beta Let_def
      using quiet_reply(1) [OF q] quiet_reply(1) [OF dbg] quiet_reply(1) [OF quiet_effect [OF effect_refl]] by simp
    ultimately show ?thesis using n lookup by metis
  qed
qed (use quiet_reply(2) in \<open>simp add: run_handler_def\<close>)

section \<open>EXEC\<close>

lemma encode_array: "encode (RESPArray (Some vs)) = ''*'' @ nat_to_string (length vs) @ crlf @ concat (map encode vs)"
  by simp

lemma exec_answer:
  assumes "silent c s" "\<forall>q \<in> set qs. qc_name q \<noteq> ''SUBSCRIBE'' \<and> qc_name q \<noteq> ''UNSUBSCRIBE''"
  shows "\<exists>vs s'. exec_queued env i qs out s = Some (out @ concat (map encode vs), s') \<and> quiet_step c s s' \<and>
    length vs = length qs \<and> list_all wire_ok vs"
  using assms
proof (induction qs arbitrary: i out s)
  case Nil
  then show ?case by (auto simp: quiet_step_def intro!: exI [of _ "[]"])
next
  case (Cons q qs)
  obtain b o1 t where t: "run_handler None (qc_name q) (qc_array q) (env i) s = Some (b, o1, t)" "quiet_step c s t" "one_reply o1 b"
    using handler_answer [of "qc_name q" c s None "qc_array q" "env i"] Cons.prems by auto
  have "\<exists>v. executeArrayCommandToResp (qc_name q) (qc_array q) (env i) s = Some (encode v, t) \<and> wire_ok v"
    using t is_reply_simps(9) [of "''ERR unknown command''"]
    by (auto simp: executeArrayCommandToResp_def one_reply_def is_reply_def split: if_splits)
  then obtain v where v: "executeArrayCommandToResp (qc_name q) (qc_array q) (env i) s = Some (encode v, t)" "wire_ok v" by blast
  obtain vs s' where vs: "exec_queued env (Suc i) qs (out @ encode v) t = Some ((out @ encode v) @ concat (map encode vs), s')"
      "quiet_step c t s'" "length vs = length qs" "list_all wire_ok vs"
    using Cons.IH [of t "Suc i" "out @ encode v"] Cons.prems quiet_silent [OF t(2)] by auto
  then show ?case using v quiet_trans [OF t(2) vs(2)] by (intro exI [of _ "v # vs"]) auto
qed

section \<open>Every command is answered\<close>

definition answered :: "conn \<Rightarrow> Server \<Rightarrow> Server \<Rightarrow> bool" where
  "answered c s s' \<longleftrightarrow> (\<exists>r. is_reply r \<and> sends_to c (srv_out s') = sends_to c (srv_out s) @ [r])"

lemma answered_send:
  "c \<in> set (srv_connected t) \<Longrightarrow> is_reply r \<Longrightarrow> sends_to c (srv_out t) = sends_to c (srv_out s) \<Longrightarrow> answered c s (send c r t)"
  by (auto simp: answered_def send_def)

lemma answered_metrics [simp]:
  "answered c s (recordCommandMetrics e n t) = answered c s t" "answered c s (forceClose c t) = answered c s t"
  by (simp_all add: answered_def recordCommandMetrics_def upd_stats_def forceClose_def Let_def)

lemma set_multi_net [simp]: "srv_out (set_multi b qs c s) = srv_out s" "srv_connected (set_multi b qs c s) = srv_connected s"
  by (simp_all add: set_multi_def set_ctx_def split: option.split)

lemma is_reply_queued: "is_reply (''+QUEUED'' @ crlf)"
  using is_reply_encode [of "RESPSimpleString ''QUEUED''"] by simp

lemma returned_answer:
  "c \<in> set (srv_connected t) \<Longrightarrow> is_reply r \<Longrightarrow> sends_to c (srv_out t) = sends_to c (srv_out s) \<Longrightarrow>
     \<exists>s'. returned c r err t = Some (Returned err, s') \<and> answered c s s'"
  by (auto simp: returned_def intro: answered_send)

lemma exec_is_reply: "list_all wire_ok vs \<Longrightarrow> is_reply (''*'' @ nat_to_string (length vs) @ crlf @ concat (map encode vs))"
  using is_reply_encode [of "RESPArray (Some vs)"] by simp

lemma exec_command_answer:
  assumes "c \<in> set (srv_connected s)" "silent c s"
    and "\<forall>q \<in> set (ctx_queue c s). qc_name q \<noteq> ''SUBSCRIBE'' \<and> qc_name q \<noteq> ''UNSUBSCRIBE''"
  shows "\<exists>err s'. processExec c env s = Some (Returned err, s') \<and> answered c s s'"
proof (cases "ctx_in_multi c s")
  case True
  obtain vs t where t: "exec_queued env 1 (ctx_queue c s) (''*'' @ nat_to_string (length (ctx_queue c s)) @ crlf) s =
      Some ((''*'' @ nat_to_string (length (ctx_queue c s)) @ crlf) @ concat (map encode vs), t)"
      "quiet_step c s t" "length vs = length (ctx_queue c s)" "list_all wire_ok vs"
    using exec_answer [OF assms(2,3)] by blast
  let ?out = "''*'' @ nat_to_string (length (ctx_queue c s)) @ crlf @ concat (map encode vs)"
  have "processExec c env s = returned c ?out False (set_multi False [] c t)"
    using True t(1) by (simp add: processExec_def)
  then show ?thesis
    using returned_answer [of c "set_multi False [] c t" ?out s False] t(2) assms(1) exec_is_reply [OF t(4)] t(3)
    by (auto simp: quiet_step_def)
next
  case False
  then show ?thesis
    using returned_answer [of c s "serializeError ''ERR EXEC without MULTI''" s True] assms(1) by (auto simp: processExec_def)
qed

text \<open>A command that is dispatched: it is answered, or falls through to the final error.\<close>

lemma dispatch_answer:
  assumes "c \<in> set (srv_connected s)" "name \<noteq> ''SUBSCRIBE''" "name \<noteq> ''UNSUBSCRIBE''" "silent c s \<or> name = ''PING''"
  shows "\<exists>b s'. dispatchArrayCommandsLookup c name a env s = Some (b, s') \<and> c \<in> set (srv_connected s') \<and>
    (if b then answered c s s' else sends_to c (srv_out s') = sends_to c (srv_out s))"
proof -
  have "\<exists>b out t. run_handler (Some c) name a env s = Some (b, out, t) \<and> quiet_step c s t \<and> one_reply out b"
  proof (cases "name = ''PING''")
    case True
    have "run_handler (Some c) ''PING'' a env s = cmdPing (Some c) a env s" by (simp add: run_handler_def array_cmd_dispatch_table_def)
    then show ?thesis
      using True quiet_reply(1) [of c s s kSimpleStringPong] quiet_reply(2) [of s c] quiet_effect [OF effect_refl, of c s]
      by (simp add: cmdPing_def)
  next
    case False
    then show ?thesis using handler_answer [OF assms(2,3)] assms(4) by blast
  qed
  then obtain b out t where t: "run_handler (Some c) name a env s = Some (b, out, t)" "quiet_step c s t" "one_reply out b" by blast
  have c: "c \<in> set (srv_connected t)" "sends_to c (srv_out t) = sends_to c (srv_out s)"
    using t(2) assms(1) by (simp_all add: quiet_step_def)
  show ?thesis
  proof (cases b)
    case True
    then obtain r where r: "out = [r]" "is_reply r" using t(3) by (auto simp: one_reply_def)
    then show ?thesis
      using True t(1) answered_send [OF c(1) r(2) c(2)] c(1) by (auto simp: dispatchArrayCommandsLookup_def send_def)
  next
    case False
    then show ?thesis using t c by (auto simp: dispatchArrayCommandsLookup_def one_reply_def)
  qed
qed

definition answerable :: "conn \<Rightarrow> RESPValue \<Rightarrow> Server \<Rightarrow> bool" where
  "answerable c v s \<longleftrightarrow> c \<in> set (srv_connected s) \<and>
     (command_array v = [] \<or>
       command_name (command_array v) \<noteq> ''SUBSCRIBE'' \<and> command_name (command_array v) \<noteq> ''UNSUBSCRIBE'') \<and>
     (\<forall>q \<in> set (ctx_queue c s). qc_name q \<noteq> ''SUBSCRIBE'' \<and> qc_name q \<noteq> ''UNSUBSCRIBE'')"

definition outcome_ok :: "conn \<Rightarrow> Server \<Rightarrow> cmd_result \<Rightarrow> bool" where
  "outcome_ok c s x \<longleftrightarrow> (\<exists>r s'. x = Some (r, s') \<and> (case r of Returned err \<Rightarrow> answered c s s'
    | FallThrough \<Rightarrow> c \<in> set (srv_connected s') \<and> sends_to c (srv_out s') = sends_to c (srv_out s)))"

lemma outcome_returned:
  "c \<in> set (srv_connected s) \<Longrightarrow> is_reply x \<Longrightarrow> outcome_ok c s (returned c x err s)"
  "c \<in> set (srv_connected s) \<Longrightarrow> is_reply x \<Longrightarrow> outcome_ok c s (returned c x err (set_multi b qs c s))"
  using answered_send [of c s x s] answered_send [of c "set_multi b qs c s" x s] by (auto simp: outcome_ok_def returned_def)

lemma named_answer:
  assumes "c \<in> set (srv_connected s)" "name \<noteq> ''SUBSCRIBE''" "name \<noteq> ''UNSUBSCRIBE''"
    and "\<forall>q \<in> set (ctx_queue c s). qc_name q \<noteq> ''SUBSCRIBE'' \<and> qc_name q \<noteq> ''UNSUBSCRIBE''"
    and "isSubscribeMode c s \<or> silent c s"
  shows "outcome_ok c s (processNamed c name a env s)"
proof -
  note ret = outcome_returned [OF assms(1)]
  have multi: "outcome_ok c s (processMulti c s)" "outcome_ok c s (processDiscard c s)" "outcome_ok c s (processQueue c name a s)"
    using ret is_reply_queued by (simp_all add: processMulti_def processDiscard_def processQueue_def)
  have exec: "outcome_ok c s (processExec c env s)" if "silent c s"
    using exec_command_answer [OF assms(1) that assms(4), of env] by (auto simp: outcome_ok_def)
  have quit: "outcome_ok c s (Some (Returned False, forceClose c (send c kSimpleStringOk s)))"
    using answered_send [OF assms(1)] by (simp add: outcome_ok_def)
  have disp: "outcome_ok c s (case dispatchArrayCommandsLookup c name a (env 0) s of None \<Rightarrow> None
        | Some (handled, s) \<Rightarrow> Some (if handled then Returned False else FallThrough, s))" if "silent c s \<or> name = ''PING''"
    using dispatch_answer [OF assms(1-3) that, of a "env 0"] by (auto simp: outcome_ok_def split: if_splits)
  have mode: "silent c s" if "\<not> (isSubscribeMode c s \<and> \<not> subscribe_mode_allows name)" "name \<noteq> ''PING''" "name \<noteq> ''QUIT''"
    using that assms(2,3,5) by (auto simp: subscribe_mode_allows_def)
  show ?thesis
    unfolding processNamed_def using ret quit multi exec disp mode
    by (simp split del: if_split cong: if_cong) (auto split: if_splits)
qed

lemma command_answer:
  assumes "answerable c v s" "isSubscribeMode c s \<or> silent c s"
  shows "\<exists>s'. processCommand c v env s = Some s' \<and> answered c s s'"
proof -
  have "outcome_ok c s (processArray c v env s)"
    using named_answer [of c s "command_name (command_array v)" "command_array v" env] assms
    by (auto simp: processArray_def answerable_def Let_def outcome_ok_def [of c s "Some (FallThrough, s)"])
  then obtain r s' where r: "processArray c v env s = Some (r, s')" "case r of Returned err \<Rightarrow> answered c s s'
      | FallThrough \<Rightarrow> c \<in> set (srv_connected s') \<and> sends_to c (srv_out s') = sends_to c (srv_out s)"
    by (auto simp: outcome_ok_def)
  have e: "is_reply (serializeError ''ERR unknown command'')" "is_reply kSimpleStringPong" by simp_all
  show ?thesis
    using r answered_send [OF _ e(1), of c s' s] answered_send [OF _ e(2), of c s' s]
    by (cases r) (simp_all add: processCommand_def)
qed

end
