(* ===== verification/Server_Props.thy ===== *)
theory Server_Props
  imports Server_Log Server_Reply
begin

text \<open>The properties of the server, with an example server for their witnesses.\<close>

section \<open>Lemmas\<close>

lemma command_input:
  assumes "processCommand c' v e s = Some s'" "conn_inbuf s c = Some ctx"
  shows "\<exists>ctx'. conn_inbuf s' c = Some ctx' \<and> pending_input ctx' = pending_input ctx \<and> pending_offset ctx' = pending_offset ctx"
proof -
  let ?F = "put_input c (pending_input ctx) (pending_offset ctx) (conn_parser ctx)"
  have "?F s = s" using assms(2) by (cases ctx; cases s) (simp add: put_input_def set_input_def fun_upd_idem)
  then have f: "?F s' = s'" using input.processCommand_F [of c' v e c "pending_input ctx" "pending_offset ctx" "conn_parser ctx" s] assms(1) by simp
  obtain ctx' where c: "conn_inbuf s' c = Some ctx'" using known.inv_command [OF _ assms(1), of c] assms(2) by auto
  have "conn_inbuf (?F s') c = conn_inbuf s' c" using f by simp
  then have "set_input (pending_input ctx) (pending_offset ctx) (conn_parser ctx) ctx' = ctx'" using c by simp
  then show ?thesis using c by (metis set_input_simps(4,5))
qed

interpretation config: server_inv "\<lambda>s. srv_config s = cfg"
  by unfold_locales (auto simp: effect_fields upd_stats_def set_ctx_def subscribeChannel_def unsubscribeChannel_def
      unsubscribeAllChannels_def clearSubscriptionsForConnection_def refreshPubSubStatsLocked_def Let_def split: option.splits)

definition input_within :: "conn \<Rightarrow> nat \<Rightarrow> Server \<Rightarrow> bool" where
  "input_within c n s \<longleftrightarrow> (case conn_inbuf s c of None \<Rightarrow> True | Some ctx \<Rightarrow> pendingReadableBytes ctx \<le> n)"

lemma within_same [simp]:
  "input_within c n (send c' d s) = input_within c n s" "input_within c n (count_command s) = input_within c n s"
  "input_within c n (forceClose c' s) = input_within c n s" "input_within c n (updateMaxInputBufferBytes m s) = input_within c n s"
  by (simp_all add: input_within_def send_def count_command_def upd_stats_def forceClose_def updateMaxInputBufferBytes_def)

lemma within_set [simp]: "input_within c n (set_ctx c ctx s) \<longleftrightarrow> pendingReadableBytes ctx \<le> n"
  by (simp add: input_within_def set_ctx_def)

lemma within_reset [simp]: "input_within c n (reset_conn_parser c s) = input_within c n s"
  by (auto simp: reset_conn_parser_def input_within_def set_ctx_def pendingReadableBytes_def split: option.splits)

lemma within_command: "processCommand c' v e s = Some s' \<Longrightarrow> conn_inbuf s c \<noteq> None \<Longrightarrow> input_within c n s \<Longrightarrow> input_within c n s'"
  using command_input [of c' v e s s' c] by (fastforce simp: input_within_def pendingReadableBytes_def)

lemma within_step: "message_step env c s = Some r \<Longrightarrow> input_within c n s \<Longrightarrow>
    case r of LoopStop b s' \<Rightarrow> input_within c n s' | LoopNext s' \<Rightarrow> input_within c n s'"
proof (cases "conn_inbuf s c")
  case (Some ctx)
  assume a: "message_step env c s = Some r" "input_within c n s"
  then have le: "pendingReadableBytes ctx \<le> n" using Some by (simp add: input_within_def)
  have w1: "input_within c n (set_ctx c (ctx\<lparr>conn_parser := p\<rparr>) s)" for p using le by (simp add: pendingReadableBytes_def)
  have w2: "pending_offset ctx \<le> k \<Longrightarrow> input_within c n (set_ctx c (ctx\<lparr>conn_parser := p, pending_offset := k\<rparr>) s)" for p k
    using le by (simp add: pendingReadableBytes_def)
  have cmd: "processCommand c v e (set_ctx c (ctx\<lparr>conn_parser := p, pending_offset := pending_offset ctx + m\<rparr>) s) = Some t \<Longrightarrow>
      input_within c n t" for v e p m t
    by (erule within_command) (simp add: set_ctx_def, rule w2, simp)
  show ?thesis using a Some w1 w2
    by (auto simp: message_step_def Let_def split: option.splits if_splits simp del: within_set) (erule cmd)
qed (auto simp: message_step_def)

lemma within_loop: "message_loop env c s = Some r \<Longrightarrow> input_within c n s \<longrightarrow> input_within c n (snd r)"
proof (rule message_loop.raw_induct [where P = "\<lambda>env c s r. input_within c n s \<longrightarrow> input_within c n (snd r)"])
  fix loop env c s r
  assume IH: "\<And>env c s r. loop env c s = Some r \<Longrightarrow> input_within c n s \<longrightarrow> input_within c n (snd r)"
    and eq: "(case message_step env c s of None \<Rightarrow> None | Some (LoopStop b s) \<Rightarrow> Some (b, s) | Some (LoopNext s) \<Rightarrow> loop env c s) = Some r"
  show "input_within c n s \<longrightarrow> input_within c n (snd r)"
    using within_step [of env c s _ n] IH [of env c _ r] eq by (auto split: option.splits LoopStep.splits)
qed

lemma message_bound:
  assumes "onMessage env c chunk s = Some s'" "c \<in> set (srv_connected s')"
  shows "input_within c (max_inbuf s') s'"
proof -
  let ?ctx = "(case conn_inbuf s c of None \<Rightarrow> new_ConnParseState | Some ctx \<Rightarrow> ctx)"
  let ?s = "set_ctx c (?ctx\<lparr>pending_input := pending_input ?ctx @ chunk\<rparr>) s"
  have cfg: "max_inbuf s' = max_inbuf s"
    using config.inv_message [OF _ assms(1), of "srv_config s"] by (simp add: max_inbuf_def)
  have closed: "c \<notin> set (srv_connected (overflow_close c t))" for t by (simp add: overflow_close_def forceClose_def)
  have m: "max_inbuf (set_ctx c x t) = max_inbuf t" "max_inbuf (updateMaxInputBufferBytes k t) = max_inbuf t" for x k t
    by (simp_all add: max_inbuf_def set_ctx_def updateMaxInputBufferBytes_def upd_stats_def)
  have le: "pendingReadableBytes (?ctx\<lparr>pending_input := pending_input ?ctx @ chunk\<rparr>) \<le> max_inbuf s"
    using assms closed by (auto simp: onMessage_def Let_def m split: if_splits)
  then obtain b t where t: "message_loop env c (updateMaxInputBufferBytes
      (pendingReadableBytes (?ctx\<lparr>pending_input := pending_input ?ctx @ chunk\<rparr>)) ?s) = Some (b, t)"
      "s' = (if b then message_end c t else t)"
    using assms(1) by (auto simp: onMessage_def Let_def m split: option.splits bool.splits)
  have wt: "input_within c (max_inbuf s) t" using within_loop [OF t(1), of "max_inbuf s"] le by simp
  show ?thesis
  proof (cases b)
    case True
    then show ?thesis using t(2) assms(2) cfg wt closed
      by (auto simp: message_end_def Let_def m split: option.splits if_splits)
  qed (use t(2) wt cfg in simp)
qed

section \<open>An example server\<close>

definition ex_config :: ServerConfig where
  "ex_config = \<lparr>max_conn_input_buffer_mb = 1, slowlog_threshold_ms = 10, max_ttl_seconds = 100\<rparr>"

definition ex_storage :: Storage where
  "ex_storage = \<lparr>st_engine = new_engine 400 0 (\<lambda>_. 5), st_orchestrator = True, st_submitted = []\<rparr>"

definition ex_start :: Server where
  "ex_start = new_Server ex_config (Some ex_storage) \<lparr>final_file = None, tmp_file = None\<rparr> new_BufferPool"

definition ex_server :: Server where
  "ex_server = onConnection ''c'' (ex_start\<lparr>srv_connected := [''c'']\<rparr>)"

definition ex_cmd_env :: CmdEnv where
  "ex_cmd_env = \<lparr>env_uptime_seconds = 1, env_snap = ex_snap_env, env_latency_us = 3\<rparr>"

definition bulks :: "string list \<Rightarrow> RESPValue list" where
  "bulks = map (\<lambda>x. RESPBulkString (Some x))"

lemma ex_reach: "server_reach ex_start ex_server"
proof -
  have "server_step ex_start (onConnection ''c'' (ex_start\<lparr>srv_connected := ''c'' # srv_connected ex_start\<rparr>))"
    by (rule accept) (simp_all add: ex_start_def new_Server_def)
  then show ?thesis using start_reach step_reach by (fastforce simp: ex_server_def ex_start_def new_Server_def)
qed

lemma ex_server_simps [simp]: "conn_inbuf ex_server = Map.empty" "srv_connected ex_server = [''c'']" "srv_config ex_server = ex_config"
    "srv_storage ex_server = Some ex_storage"
  by (simp_all add: ex_server_def onConnection_def upd_stats_def ex_start_def new_Server_def)

lemma ex_idle: "idle c ex_server"
  by (simp add: idle_def)

lemma ex_max: "max_inbuf ex_server = 1048576"
  by (simp add: max_inbuf_def ex_config_def)

section \<open>Commands on a connection\<close>

text \<open>
  C1. A connection with no waiting input that receives any number of encoded commands in one message,
  within the input limit: the message callback returns exactly when running the commands in order does, leaves the
  same server, with every reply, and leaves no waiting input.
\<close>

theorem server_runs_pipeline:
  assumes "idle c s" "\<forall>v \<in> set vs. flat_ok v" "length (concat (map encode vs)) \<le> max_inbuf s"
  shows "onMessage env c (concat (map encode vs)) s =
      run_commands env c vs (updateMaxInputBufferBytes (length (concat (map encode vs))) (open_conn c s)) \<and>
    (\<forall>s'. onMessage env c (concat (map encode vs)) s = Some s' \<longrightarrow> idle c s')"
proof -
  let ?t = "updateMaxInputBufferBytes (length (concat (map encode vs))) (open_conn c s)"
  have "idle c ?t" "conn_inbuf ?t c \<noteq> None"
    using open_idle [OF assms(1)] open_conn_known [of c s] by (simp_all add: idle_def updateMaxInputBufferBytes_def upd_stats_def)
  then show ?thesis using message_pipeline [OF assms, of env] run_keeps_idle [of env c vs ?t] by auto
qed

theorem server_runs_pipeline_witness:
  "onMessage (\<lambda>_ _. ex_cmd_env) ''c'' (concat (map encode [array_of (bulks [''PING'']), array_of (bulks [''GET'', ''k''])])) ex_server =
     run_commands (\<lambda>_ _. ex_cmd_env) ''c'' [array_of (bulks [''PING'']), array_of (bulks [''GET'', ''k''])]
       (updateMaxInputBufferBytes (length (concat (map encode [array_of (bulks [''PING'']), array_of (bulks [''GET'', ''k''])])))
         (open_conn ''c'' ex_server))"
proof -
  let ?vs = "[array_of (bulks [''PING'']), array_of (bulks [''GET'', ''k''])]"
  have "\<forall>v \<in> set ?vs. flat_ok v" by (simp add: array_of_def bulks_def i64_max_def)
  moreover have "length (concat (map encode ?vs)) = 34" by code_simp
  then have "length (concat (map encode ?vs)) \<le> max_inbuf ex_server" unfolding ex_max by simp
  ultimately show ?thesis using server_runs_pipeline [OF ex_idle] by blast
qed

text \<open>
  A command that arrives in two messages, the first of which the parser consumes: the first message
  changes no data and sends nothing, and the second runs the command exactly once, as if it had arrived whole.
\<close>

theorem server_runs_split_command:
  assumes "idle c s" "flat_ok v" "encode v = d1 @ d2" "d1 \<noteq> []" "d2 \<noteq> []" "length (encode v) \<le> max_inbuf s"
    and "parse d1 new_RESPParser = Some (r, p1)" "pr_success r" "\<not> pr_complete r"
  shows "\<exists>s1. onMessage env c d1 s = Some s1 \<and> srv_out s1 = srv_out s \<and> srv_storage s1 = srv_storage s \<and>
    onMessage env c d2 s1 =
      run_commands env c [v] (updateMaxInputBufferBytes (max (length d1) (length d2)) (open_conn c s))"
  using assms by (rule message_split)

theorem server_runs_split_command_witness:
  "\<exists>s1. onMessage (\<lambda>_ _. ex_cmd_env) ''c'' (''*1'' @ crlf) ex_server = Some s1 \<and>
    onMessage (\<lambda>_ _. ex_cmd_env) ''c'' (''$4'' @ crlf @ ''PING'' @ crlf) s1 =
      run_commands (\<lambda>_ _. ex_cmd_env) ''c'' [array_of (bulks [''PING''])] (updateMaxInputBufferBytes (max 4 10) (open_conn ''c'' ex_server))"
proof -
  let ?v = "array_of (bulks [''PING''])"
  have e: "encode ?v = (''*1'' @ crlf) @ (''$4'' @ crlf @ ''PING'' @ crlf)" by code_simp
  obtain r p1 where p: "parse (''*1'' @ crlf) new_RESPParser = Some (r, p1)" "pr_success r" "\<not> pr_complete r"
  proof -
    have "parse (''*1'' @ crlf) new_RESPParser = Some (makeIncomplete 4,
        new_RESPParser\<lparr>array_stack := [\<lparr>ctx_size = 1, ctx_count = 0, ctx_elements = []\<rparr>], processed_bytes := 4\<rparr>)" by code_simp
    then show thesis using that by (simp add: makeIncomplete_def)
  qed
  have f: "flat_ok ?v" by (simp add: array_of_def bulks_def i64_max_def)
  have l: "length (''*1'' @ crlf) = 4" "length (''$4'' @ crlf @ ''PING'' @ crlf) = 10" by code_simp+
  show ?thesis
    using server_runs_split_command [OF ex_idle f e _ _ _ p, of "\<lambda>_ _. ex_cmd_env" "''c''"] l unfolding e ex_max by force
qed

lemma data_replies_length: "length (fst (data_replies e as s)) = length as"
  by (induction as arbitrary: s) (simp_all add: Let_def split_beta)

text \<open>
  C8. A transaction of data commands, MULTI, the commands, EXEC, gives the same store, snapshot files and
  log submissions as the same commands sent one by one, and the reply of EXEC is the array of exactly the replies the
  commands have when sent one by one; every command in between is answered by QUEUED.
\<close>

theorem transaction_as_direct:
  assumes "\<forall>a \<in> set as. is_data_command a" "plain c s" "\<not> ctx_in_multi c s"
  shows "\<exists>s1 s2 rs. run_commands (\<lambda>_ _. e) c (map array_of as) s = Some s1 \<and>
    run_commands (\<lambda>_ _. e) c (MULTI_cmd # map array_of as @ [EXEC_cmd]) s = Some s2 \<and>
    core s2 = core s1 \<and> \<not> ctx_in_multi c s2 \<and> length rs = length as \<and> srv_out s1 = srv_out s @ map (Send c) rs \<and>
    srv_out s2 = srv_out s @ Send c kSimpleStringOk # map (\<lambda>_. Send c queued_reply) as @
      [Send c (''*'' @ nat_to_string (length as) @ crlf @ concat rs)]"
proof -
  obtain rs t where r: "data_replies e as s = (rs, t)" by (metis surj_pair)
  have "length rs = length as" using data_replies_length [of e as s] r by simp
  then show ?thesis using direct_run [OF assms r] tx_run [OF assms r] by fastforce
qed

lemma ex_plain: "plain ''c'' (open_conn ''c'' ex_server)" "\<not> ctx_in_multi ''c'' (open_conn ''c'' ex_server)"
  by (simp_all add: plain_def open_conn_def isSubscribeMode_def ctx_in_multi_def new_ConnParseState_def set_ctx_def)

theorem transaction_as_direct_witness:
  "\<exists>s1 s2. run_commands (\<lambda>_ _. ex_cmd_env) ''c'' (map array_of [bulks [''SET'', ''k'', ''v''], bulks [''GET'', ''k'']])
      (open_conn ''c'' ex_server) = Some s1 \<and>
    run_commands (\<lambda>_ _. ex_cmd_env) ''c'' (MULTI_cmd # map array_of [bulks [''SET'', ''k'', ''v''], bulks [''GET'', ''k'']] @ [EXEC_cmd])
      (open_conn ''c'' ex_server) = Some s2 \<and> core s2 = core s1"
proof -
  have "is_data_command (bulks [''SET'', ''k'', ''v''])" "is_data_command (bulks [''GET'', ''k''])" by code_simp+
  then have d: "\<forall>a \<in> set [bulks [''SET'', ''k'', ''v''], bulks [''GET'', ''k'']]. is_data_command a" by simp
  from transaction_as_direct [OF d ex_plain, of ex_cmd_env] show ?thesis by blast
qed

section \<open>Publish and subscribe\<close>

lemma new_pubsub_ok: "pubsub_ok (new_Server cfg st fs pool)"
  by (simp add: pubsub_ok_def new_Server_def pubsub_rel_def table_ok_def lookup_channel_def channels_of_def no_stats_def)

definition ex_after :: "string list \<Rightarrow> Server option" where
  "ex_after args = run_commands (\<lambda>_ _. ex_cmd_env) ''c'' [array_of (bulks args)]
     (updateMaxInputBufferBytes (length (encode (array_of (bulks args)))) (open_conn ''c'' ex_server))"

lemma ex_after_message:
  assumes "ex_after args = Some s" "flat_ok (array_of (bulks args))" "length (encode (array_of (bulks args))) \<le> 1048576"
  shows "onMessage (\<lambda>_ _. ex_cmd_env) ''c'' (encode (array_of (bulks args))) ex_server = Some s"
  using message_pipeline [OF ex_idle, of "[array_of (bulks args)]"] assms by (simp add: ex_max ex_after_def)

lemma ex_after_reach:
  assumes "ex_after args = Some s" "flat_ok (array_of (bulks args))" "length (encode (array_of (bulks args))) \<le> 1048576"
  shows "server_reach ex_start s"
  using ex_after_message [OF assms] ex_reach step_reach message by blast

lemma ex_subscribed:
  obtains s where "ex_after [''SUBSCRIBE'', ''ch''] = Some s" "server_reach ex_start s"
    "channel_subscribers s = [(''ch'', [''c''])]" "srv_connected s = [''c'']"
proof -
  have "map_option (\<lambda>s. (channel_subscribers s, srv_connected s)) (ex_after [''SUBSCRIBE'', ''ch'']) = Some ([(''ch'', [''c''])], [''c''])"
    by code_simp
  moreover have "flat_ok (array_of (bulks [''SUBSCRIBE'', ''ch'']))" by (simp add: array_of_def bulks_def i64_max_def)
  moreover have "length (encode (array_of (bulks [''SUBSCRIBE'', ''ch'']))) = 27" by code_simp
  ultimately show thesis using that ex_after_reach by fastforce
qed

text \<open>
  C12. In every reachable state of the server a connection is in the subscriber set of a channel
  exactly when the channel is in the connection's own set, no channel without subscribers is kept, and the two
  counters of the statistics are the number of channels and the number of subscriptions.
\<close>

theorem pubsub_tables_agree:
  assumes "server_reach (new_Server cfg st fs pool) s"
  shows "(c \<in> set (lookup_channel (channel_subscribers s) ch) \<longleftrightarrow> ch \<in> set (channels_of s c)) \<and>
    [] \<notin> snd ` set (channel_subscribers s) \<and>
    pubsub_channel_count (srv_stats s) = length (channel_subscribers s) \<and>
    pubsub_subscription_count (srv_stats s) = sum_list (map (length \<circ> snd) (channel_subscribers s))"
proof -
  have "pubsub_ok s" using pubsub.inv_reach [OF assms] new_pubsub_ok by blast
  then show ?thesis by (auto simp: pubsub_ok_def pubsub_rel_def table_ok_def list_all_iff)
qed

theorem pubsub_tables_agree_witness:
  "\<exists>s. ex_after [''SUBSCRIBE'', ''ch''] = Some s \<and> ''ch'' \<in> set (channels_of s ''c'') \<and> pubsub_subscription_count (srv_stats s) = 1"
proof -
  obtain s where s: "ex_after [''SUBSCRIBE'', ''ch''] = Some s" "server_reach ex_start s" "channel_subscribers s = [(''ch'', [''c''])]"
    by (rule ex_subscribed)
  then show ?thesis using pubsub_tables_agree [OF s(2) [unfolded ex_start_def], of "''c''" "''ch''"] by (simp add: lookup_channel_def)
qed

text \<open>
  C17. PUBLISH sends the message once to every connected subscriber of the channel, in no other
  connection and on no other channel, changes neither the store nor the subscriptions, and its count is the number of
  messages sent.
\<close>

theorem publish_reaches_subscribers:
  assumes "server_reach (new_Server cfg st fs pool) s" "publishMessage ch payload s = (n, s')"
  shows "\<exists>cs. distinct cs \<and> (\<forall>c. c \<in> set cs \<longleftrightarrow> ch \<in> set (channels_of s c) \<and> c \<in> set (srv_connected s)) \<and>
    n = int (length cs) \<and> srv_out s' = srv_out s @ map (\<lambda>c. Send c (channel_message ch payload)) cs \<and>
    srv_storage s' = srv_storage s \<and> conn_inbuf s' = conn_inbuf s \<and> channel_subscribers s' = channel_subscribers s"
proof -
  have "pubsub_rel (channel_subscribers s) (channels_of s)"
    using pubsub.inv_reach [OF assms(1)] new_pubsub_ok by (auto simp: pubsub_ok_def)
  then have "distinct (live_subscribers ch s)"
      "\<forall>c. c \<in> set (live_subscribers ch s) \<longleftrightarrow> ch \<in> set (channels_of s c) \<and> c \<in> set (srv_connected s)"
    by (auto simp: live_subscribers_def pubsub_rel_def lookup_distinct)
  then show ?thesis using publish_effect [OF assms(2)] by blast
qed

theorem publish_reaches_subscribers_witness:
  "\<exists>s n s'. ex_after [''SUBSCRIBE'', ''ch''] = Some s \<and> publishMessage ''ch'' ''hello'' s = (n, s') \<and> n = 1 \<and>
    srv_out s' = srv_out s @ [Send ''c'' (channel_message ''ch'' ''hello'')]"
proof -
  obtain s where s: "ex_after [''SUBSCRIBE'', ''ch''] = Some s" "server_reach ex_start s" "channel_subscribers s = [(''ch'', [''c''])]"
      "srv_connected s = [''c'']" by (rule ex_subscribed)
  obtain n s' where p: "publishMessage ''ch'' ''hello'' s = (n, s')" by fastforce
  obtain cs where cs: "distinct cs" "\<forall>c. c \<in> set cs \<longleftrightarrow> ''ch'' \<in> set (channels_of s c) \<and> c \<in> set (srv_connected s)"
      "n = int (length cs)" "srv_out s' = srv_out s @ map (\<lambda>c. Send c (channel_message ''ch'' ''hello'')) cs"
    using publish_reaches_subscribers [OF s(2) [unfolded ex_start_def] p] by blast
  have "pubsub_ok s" using pubsub.inv_reach [OF s(2) [unfolded ex_start_def]] new_pubsub_ok by blast
  then have "''ch'' \<in> set (channels_of s ''c'') \<longleftrightarrow> ''c'' \<in> set (lookup_channel (channel_subscribers s) ''ch'')"
    by (simp add: pubsub_ok_def pubsub_rel_def)
  then have "''ch'' \<in> set (channels_of s ''c'')" using s(3) by (simp add: lookup_channel_def)
  then have "set cs = {''c''}" using cs(2) s(4) by auto
  then have "cs = [''c'']" using cs(1) by (metis distinct_singleton list.set(1,2) set_eq_iff distinct.simps(2) insertCI list.exhaust singletonD)
  then show ?thesis using s(1) p cs(3,4) by auto
qed

section \<open>One reply to a command\<close>



text \<open>
  C38. A client that sends MULTI, SUBSCRIBE to a channel, EXEC: the server does not come back, because EXEC
  runs the queued handler with a null connection, which the handler follows.
\<close>

theorem exec_of_queued_subscribe_crashes:
  assumes "plain c s" "\<not> ctx_in_multi c s"
  shows "run_commands (\<lambda>_ _. e) c [MULTI_cmd, array_of (bulks [''SUBSCRIBE'', ch]), EXEC_cmd] s = None"
proof -
  let ?a = "bulks [''SUBSCRIBE'', ch]"
  let ?t = "count_command (recordCommandMetrics False (env_latency_us e) (send c kSimpleStringOk (set_multi True [] c s)))"
  let ?u = "count_command (recordCommandMetrics False (env_latency_us e) (send c queued_reply (set_multi True [queued ?a] c ?t)))"
  have a: "?a \<noteq> []" "getType (hd ?a) = BULK_STRING" by (simp_all add: bulks_def)
  have n: "command_name ?a = ''SUBSCRIBE''" by (simp add: command_name_def bulks_def) code_simp
  have t: "plain c ?t" "ctx_in_multi c ?t" "ctx_queue c ?t = []" using assms(1) by simp_all
  have q: "processCommand c (array_of ?a) (\<lambda>_. e) ?t =
      Some (recordCommandMetrics False (env_latency_us e) (send c queued_reply (set_multi True [queued ?a] c ?t)))"
    using queue_command [OF a t(1,2), of e] t(3) n by simp
  have u: "plain c ?u" "ctx_in_multi c ?u" "ctx_queue c ?u = [queued ?a]" using t by simp_all
  have "map_of array_cmd_dispatch_table ''SUBSCRIBE'' = Some cmdSubscribe" by (simp add: array_cmd_dispatch_table_def)
  then have "executeArrayCommandToResp ''SUBSCRIBE'' ?a e t = None" for t
    by (simp add: executeArrayCommandToResp_def run_handler_def cmdSubscribe_def bulks_def)
  then have "processExec c (\<lambda>_. e) ?u = None" unfolding processExec_def u(3) using u(2) n by simp
  then have "processCommand c EXEC_cmd (\<lambda>_. e) ?u = None"
    using u(1) by (simp add: processCommand_def processArray_def EXEC_cmd_def processNamed_def plain_def)
  then show ?thesis using multi_command [OF assms, of e] q by simp
qed

theorem exec_of_queued_subscribe_crashes_witness:
  "run_commands (\<lambda>_ _. ex_cmd_env) ''c'' [MULTI_cmd, array_of (bulks [''SUBSCRIBE'', ''ch'']), EXEC_cmd] (open_conn ''c'' ex_server) = None"
  by (rule exec_of_queued_subscribe_crashes [OF ex_plain])

section \<open>Durability of the server\<close>


lemma ex_stored:
  obtains s st where "ex_after [''SET'', ''k'', ''v''] = Some s" "server_reach ex_start s" "srv_storage s = Some st"
    "st_submitted st = [[mut_put ''k'' (Record0\<lparr>rec_value := DataValue_str ''v'', expire_at_us := -1, version := 0\<rparr>) 5]]"
proof -
  have "map_option (\<lambda>s. map_option st_submitted (srv_storage s)) (ex_after [''SET'', ''k'', ''v'']) =
      Some (Some [[mut_put ''k'' (Record0\<lparr>rec_value := DataValue_str ''v'', expire_at_us := -1, version := 0\<rparr>) 5]])"
    by code_simp
  then obtain s st where s: "ex_after [''SET'', ''k'', ''v''] = Some s" "srv_storage s = Some st"
      "st_submitted st = [[mut_put ''k'' (Record0\<lparr>rec_value := DataValue_str ''v'', expire_at_us := -1, version := 0\<rparr>) 5]]"
    unfolding map_option_eq_Some by blast
  have "flat_ok (array_of (bulks [''SET'', ''k'', ''v'']))" by (simp add: array_of_def bulks_def i64_max_def)
  moreover have "length (encode (array_of (bulks [''SET'', ''k'', ''v'']))) = 27" by code_simp
  ultimately have "server_reach ex_start s" using ex_after_reach [OF s(1)] by simp
  with s show thesis using that by blast
qed


section \<open>Bounded input\<close>

text \<open>
  C34. After a message, the waiting input of a connection that is still open is within the configured
  limit, whatever the message and the state: a client that exceeds it has been disconnected.
\<close>

theorem server_input_bounded:
  assumes "onMessage env c chunk s = Some s'" "c \<in> set (srv_connected s')" "conn_inbuf s' c = Some ctx"
  shows "pendingReadableBytes ctx \<le> max_inbuf s'"
  using message_bound [OF assms(1,2)] assms(3) by (simp add: input_within_def)

theorem server_input_bounded_witness:
  "\<exists>s ctx. onMessage (\<lambda>_ _. ex_cmd_env) ''c'' (encode (array_of (bulks [''SUBSCRIBE'', ''ch'']))) ex_server = Some s \<and>
    conn_inbuf s ''c'' = Some ctx \<and> pendingReadableBytes ctx \<le> max_inbuf s"
proof -
  obtain s where s: "ex_after [''SUBSCRIBE'', ''ch''] = Some s" "channel_subscribers s = [(''ch'', [''c''])]" "srv_connected s = [''c'']"
    by (rule ex_subscribed)
  have m: "onMessage (\<lambda>_ _. ex_cmd_env) ''c'' (encode (array_of (bulks [''SUBSCRIBE'', ''ch'']))) ex_server = Some s"
  proof -
    have "flat_ok (array_of (bulks [''SUBSCRIBE'', ''ch'']))" by (simp add: array_of_def bulks_def i64_max_def)
    moreover have "length (encode (array_of (bulks [''SUBSCRIBE'', ''ch'']))) = 27" by code_simp
    ultimately show ?thesis using ex_after_message s(1) by simp
  qed
  have "conn_inbuf s ''c'' \<noteq> None" using s(1) unfolding ex_after_def by (rule run_known) (simp add: updateMaxInputBufferBytes_def upd_stats_def open_conn_known)
  then obtain ctx where "conn_inbuf s ''c'' = Some ctx" by blast
  then show ?thesis using m s(3) server_input_bounded [OF m, of ctx] by auto
qed

end
