(* ===== verification/Client_Props.thy ===== *)
theory Client_Props
  imports Client_Link Server_Props
begin

text \<open>
  The client and the server together. \<open>server_sock\<close> is a socket whose other end is the server model: a request
  is one message to the server, and what the server sends is on its way to the client, who receives it in
  pieces of the given size, after some interrupted calls and after some waits that time out. It has the contract of
  \<open>client_link\<close>; the properties are about the calls of the client library over it.
\<close>

declare serialize_simps [simp del]

section \<open>The wire\<close>

record Wire =
  wire_server :: "Server option"
  wire_unread :: string
  wire_chunk :: nat
  wire_interrupts :: nat
  wire_timeouts :: nat

definition sys_ok :: "int \<Rightarrow> SysRc" where
  "sys_ok n = \<lparr>rc = n, errno_eintr = False, errno_einprogress = False, errno_text = []\<rparr>"

definition sys_eintr :: SysRc where
  "sys_eintr = \<lparr>rc = -1, errno_eintr = True, errno_einprogress = False, errno_text = ''Interrupted system call''\<rparr>"

definition wire_send :: "(nat \<Rightarrow> cmd_envs) \<Rightarrow> conn \<Rightarrow> string \<Rightarrow> Wire \<Rightarrow> Wire" where
  "wire_send env name d w = (case wire_server w of
      None \<Rightarrow> w
    | Some s \<Rightarrow> (case onMessage env name d s of
          None \<Rightarrow> w\<lparr>wire_server := None\<rparr>
        | Some s' \<Rightarrow> w\<lparr>wire_server := Some s',
            wire_unread := wire_unread w @ concat (sends_to name (drop (length (srv_out s)) (srv_out s')))\<rparr>))"

definition wire_recv :: "Wire \<Rightarrow> SysRc \<times> string \<times> Wire" where
  "wire_recv w =
     (if 0 < wire_interrupts w then (sys_eintr, [], w\<lparr>wire_interrupts := wire_interrupts w - 1\<rparr>)
      else let d = take (Suc (wire_chunk w)) (wire_unread w)
        in (sys_ok (int (length d)), d, w\<lparr>wire_unread := drop (length d) (wire_unread w)\<rparr>))"

definition wire_select :: "bool \<Rightarrow> Wire \<Rightarrow> SysRc \<times> Wire" where
  "wire_select writable w =
     (if writable then (sys_ok 1, w)
      else if 0 < wire_timeouts w then (sys_ok 0, w\<lparr>wire_timeouts := wire_timeouts w - 1\<rparr>)
      else (sys_ok (if wire_unread w = [] then 0 else 1), w))"

definition server_sock :: "(nat \<Rightarrow> cmd_envs) \<Rightarrow> conn \<Rightarrow> Wire Sock" where
  "server_sock env name = \<lparr>sys_socket = (\<lambda>w. (sys_ok 3, w)), sys_inet_pton = (\<lambda>_. True), sys_getfl = (\<lambda>_ w. (sys_ok 0, w)),
     sys_setfl = (\<lambda>_ _ _ w. (sys_ok 0, w)), sys_connect = (\<lambda>_ _ _ w. (sys_ok 0, w)), sys_so_error = (\<lambda>_ w. (sys_ok 0, 0, w)),
     sys_strerror = (\<lambda>_. []), sys_select = (\<lambda>_ writable _ w. wire_select writable w),
     sys_send = (\<lambda>_ d w. (sys_ok (int (length d)), wire_send env name d w)), sys_recv = (\<lambda>_ w. wire_recv w),
     sys_close = (\<lambda>_ w. w)\<rparr>"

definition wire_incoming :: "Wire \<Rightarrow> string" where
  "wire_incoming w = (if wire_timeouts w = 0 then wire_unread w else [])"

text \<open>What the client sees of the other end: the server, the size of the pieces and the waits that time out.\<close>

definition wire_peer :: "Wire \<Rightarrow> Server option \<times> nat \<times> nat" where
  "wire_peer w = (wire_server w, wire_chunk w, wire_timeouts w)"

interpretation wire: client_link "server_sock env name" fd wire_incoming wire_interrupts wire_peer "wire_send env name"
proof unfold_locales
  fix w w' :: Wire and r t buf d
  show "0 < rc r \<and> wire_incoming w' = wire_incoming w \<and> wire_interrupts w' = wire_interrupts w \<and> wire_peer w' = wire_peer w"
    if "wire_incoming w \<noteq> []" "sys_select (server_sock env name) fd False t w = (r, w')"
    using that by (auto simp: wire_incoming_def server_sock_def wire_select_def sys_ok_def split: if_splits)
  show "wire_peer w' = wire_peer w \<and>
      (0 < rc r \<and> nat (rc r) \<le> length buf \<and> wire_incoming w = take (nat (rc r)) buf @ wire_incoming w' \<and> wire_interrupts w' \<le> wire_interrupts w \<or>
       rc r < 0 \<and> errno_eintr r \<and> wire_incoming w' = wire_incoming w \<and> wire_interrupts w' < wire_interrupts w)"
    if "wire_incoming w \<noteq> []" "sys_recv (server_sock env name) fd w = (r, buf, w')"
    using that by (auto simp: wire_incoming_def wire_peer_def server_sock_def wire_recv_def sys_ok_def sys_eintr_def Let_def
        split: if_splits)
  show "0 < rc r \<and> w' = w" if "sys_select (server_sock env name) fd True t w = (r, w')"
    using that by (auto simp: server_sock_def wire_select_def sys_ok_def)
  show "rc r = int (length d) \<and> w' = wire_send env name d w" if "d \<noteq> []" "sys_send (server_sock env name) fd d w = (r, w')"
    using that by (auto simp: server_sock_def sys_ok_def)
qed

section \<open>Serving a client\<close>

text \<open>A connection the server is ready to serve: open, no input waiting, not subscribed, no transaction.\<close>

definition served :: "conn \<Rightarrow> Server \<Rightarrow> bool" where
  "served c s \<longleftrightarrow> c \<in> set (srv_connected s) \<and> idle c s \<and> \<not> isSubscribeMode c s \<and> \<not> ctx_in_multi c s"

lemma served_open:
  assumes "served c s"
  shows "plain c (open_conn c s)" "\<not> ctx_in_multi c (open_conn c s)"
  using assms
  by (auto simp: served_def plain_def open_conn_def isSubscribeMode_def ctx_in_multi_def set_ctx_def new_ConnParseState_def
      split: option.splits)

lemma bulks_flat: "\<forall>x \<in> set args. int (length x) \<le> i64_max - 1 \<Longrightarrow> int (length args) < i64_max \<Longrightarrow> flat_ok (array_of (bulks args))"
  by (auto simp: array_of_def bulks_def list_all_iff)

lemma encode_commands: "encodeRespArrayCommand args = encode (array_of (bulks args))"
  by (simp add: encode_command array_of_def bulks_def)

definition cmd_fits :: "string list \<Rightarrow> bool" where
  "cmd_fits args \<longleftrightarrow> is_data_command (bulks args) \<and> flat_ok (array_of (bulks args))"

lemma core_updates [simp]: "core (updateMaxInputBufferBytes n s) = core s" "core (open_conn c s) = core s"
  "srv_out (updateMaxInputBufferBytes n s) = srv_out s" "srv_out (open_conn c s) = srv_out s"
  by (simp_all add: core_def updateMaxInputBufferBytes_def upd_stats_def open_conn_def set_ctx_def)

lemma update_plain [simp]: "plain c (updateMaxInputBufferBytes n s) = plain c s" "ctx_in_multi c (updateMaxInputBufferBytes n s) = ctx_in_multi c s"
  by (simp_all add: plain_def isSubscribeMode_def ctx_in_multi_def updateMaxInputBufferBytes_def upd_stats_def)

lemma server_answers:
  assumes "served c s" "list_all cmd_fits cmds" "length (concat (map encodeRespArrayCommand cmds)) \<le> max_inbuf s"
    and "data_replies e (map bulks cmds) s = (rs, t)"
  shows "\<exists>s'. onMessage (\<lambda>_ _. e) c (concat (map encodeRespArrayCommand cmds)) s = Some s' \<and> core s' = core t \<and>
    srv_out s' = srv_out s @ map (Send c) rs \<and> served c s'"
proof -
  let ?vs = "map array_of (map bulks cmds)" and ?n = "length (concat (map encodeRespArrayCommand cmds))"
  let ?u = "updateMaxInputBufferBytes ?n (open_conn c s)"
  have enc: "concat (map encodeRespArrayCommand cmds) = concat (map encode ?vs)"
    by (simp add: encode_commands [abs_def] comp_def)
  have id: "idle c s" "idle c ?u" "conn_inbuf ?u c \<noteq> None"
    using assms(1) open_idle [of c s] open_conn_known [of c s] by (simp_all add: served_def idle_def updateMaxInputBufferBytes_def upd_stats_def)
  have d: "\<forall>a \<in> set (map bulks cmds). is_data_command a" using assms(2) by (auto simp: cmd_fits_def list_all_iff)
  obtain rs1 t1 where r1: "data_replies e (map bulks cmds) ?u = (rs1, t1)" by fastforce
  have "apsnd core (data_replies e (map bulks cmds) ?u) = apsnd core (data_replies e (map bulks cmds) s)"
    using data_replies_core [OF d, of e ?u] data_replies_core [OF d, of e s] by simp
  then have eq: "rs1 = rs" "core t1 = core t" using r1 assms(4) by simp_all
  obtain s' where s': "run_commands (\<lambda>_ _. e) c ?vs ?u = Some s'" "core s' = core t1" "srv_out s' = srv_out s @ map (Send c) rs1"
      "plain c s'" "\<not> ctx_in_multi c s'"
    using direct_run [OF d _ _ r1, of c] served_open [OF assms(1)] by auto
  have "onMessage (\<lambda>_ _. e) c (concat (map encode ?vs)) s = Some s'"
    using message_pipeline [OF id(1), of ?vs "\<lambda>_ _. e"] assms(2,3) s'(1) enc by (auto simp: cmd_fits_def list_all_iff)
  moreover have "idle c s'" using run_keeps_idle [OF s'(1) id(2,3)] by blast
  ultimately show ?thesis using s' eq enc by (auto simp: served_def plain_def)
qed

section \<open>Calls over the wire\<close>

definition ready :: "conn \<Rightarrow> Client \<Rightarrow> Server \<Rightarrow> Wire \<Rightarrow> bool" where
  "ready name c s w \<longleftrightarrow> isConnected c \<and> cl_inbuf c = [] \<and> 0 \<le> opt_read_timeout_ms (cl_options c) \<and>
     0 \<le> opt_write_timeout_ms (cl_options c) \<and> wire_server w = Some s \<and> wire_unread w = [] \<and> served name s"

lemma sends_map: "sends_to c (map (Send c) rs) = rs"
  by (induction rs) auto

lemma wire_send_answers:
  assumes "wire_server w = Some s" "served name s" "list_all cmd_fits cmds" "length (concat (map encodeRespArrayCommand cmds)) \<le> max_inbuf s"
    and "data_replies e (map bulks cmds) s = (rs, t)"
  obtains s' where "wire_send (\<lambda>_ _. e) name (concat (map encodeRespArrayCommand cmds)) w =
      w\<lparr>wire_server := Some s', wire_unread := wire_unread w @ concat rs\<rparr>"
    "core s' = core t" "served name s'" "srv_config s' = srv_config s"
proof -
  obtain s' where s': "onMessage (\<lambda>_ _. e) name (concat (map encodeRespArrayCommand cmds)) s = Some s'" "core s' = core t"
      "srv_out s' = srv_out s @ map (Send name) rs" "served name s'"
    using server_answers [OF assms(2-5)] by blast
  moreover have "srv_config s' = srv_config s" using config.inv_message [OF refl s'(1)] .
  ultimately show thesis using that assms(1) by (simp add: wire_send_def sends_map)
qed


lemma client_command_over_server:
  assumes "ready name c s w" "wire_timeouts w = 0" "cmd_fits args"
    and "length (encodeRespArrayCommand args) \<le> max_inbuf s" "data_reply e (bulks args) s = (encode v, t)" "client_ok v"
  shows "\<exists>s' w'. client_command (server_sock (\<lambda>_ _. e) name) args c w =
      Some (if rv_type (client_value v) = Error then Failure ServerError (rv_str (client_value v)) else Success (client_value v), c, w') \<and>
    core s' = core t \<and> ready name c s' w' \<and> wire_timeouts w' = 0 \<and> srv_config s' = srv_config s"
proof -
  obtain s' where s': "wire_send (\<lambda>_ _. e) name (encodeRespArrayCommand args) w = w\<lparr>wire_server := Some s', wire_unread := encode v\<rparr>"
    "core s' = core t" "served name s'" "srv_config s' = srv_config s"
    using wire_send_answers [of w s name "[args]" e "[encode v]" t] assms(1,3-5) by (auto simp: ready_def)
  have ne: "args \<noteq> []" using assms(3) by (auto simp: cmd_fits_def is_data_command_def bulks_def)
  obtain inb w' where w': "client_command (server_sock (\<lambda>_ _. e) name) args c w =
      Some (if rv_type (client_value v) = Error then Failure ServerError (rv_str (client_value v)) else Success (client_value v), c\<lparr>cl_inbuf := inb\<rparr>, w')"
      "inb @ wire_incoming w' = []" "wire_peer w' = wire_peer (w\<lparr>wire_server := Some s', wire_unread := encode v\<rparr>)"
    using wire.command_reply [of c "cl_fd c" args v "\<lambda>_ _. e" name w "[]"] assms(1,2,6) ne s'(1)
    by (auto simp: ready_def isConnected_def wire_incoming_def)
  then have "inb = []" "wire_unread w' = []" "wire_server w' = Some s'" "wire_timeouts w' = 0"
    using assms(2) by (auto simp: wire_incoming_def wire_peer_def split: if_splits)
  moreover have "c\<lparr>cl_inbuf := []\<rparr> = c" using assms(1) by (simp add: ready_def)
  ultimately show ?thesis using w'(1) s'(2-4) assms(1) by (auto simp: ready_def)
qed

section \<open>Reading one's own write\<close>

lemma command_name_bulks [simp]: "command_name (bulks (x # xs)) = map toupper x"
  by (simp add: command_name_def bulks_def bulk_getValue_def)

lemma set_get_names: "command_name (bulks [''SET'', k, v]) = ''SET''" "command_name (bulks [''GET'', k]) = ''GET''"
  "is_data_command (bulks [''SET'', k, v])" "is_data_command (bulks [''GET'', k])"
proof -
  have "map toupper ''SET'' = ''SET''" "map toupper ''GET'' = ''GET''" by code_simp+
  then show n: "command_name (bulks [''SET'', k, v]) = ''SET''" "command_name (bulks [''GET'', k]) = ''GET''" by simp_all
  have "''SET'' \<in> set (map fst data_table)" "''GET'' \<in> set (map fst data_table)" by code_simp+
  with n show "is_data_command (bulks [''SET'', k, v])" "is_data_command (bulks [''GET'', k])"
    by (simp_all add: is_data_command_def) (simp_all add: bulks_def)
qed

lemma run_set_get: "run_handler None ''SET'' = cmdSet None" "run_handler None ''GET'' = cmdGet None"
  by (simp_all add: fun_eq_iff run_handler_def array_cmd_dispatch_table_def)

lemma storage_call_engine [simp]: "st_engine (snd (storage_call c st)) = snd (api_exec c (st_engine st))"
  "sr_status (fst (storage_call c st)) = sr_status (fst (api_exec c (st_engine st)))"
  "sr_value (fst (storage_call c st)) = sr_value (fst (api_exec c (st_engine st)))"
  by (simp_all add: storage_call_def storage_submit_def split_beta Let_def)

lemma set_reply:
  assumes "srv_storage s = Some st" "unlimited (st_engine st)"
  obtains t st' where "data_reply e (bulks [''SET'', k, v]) s = (kSimpleStringOk, t)" "srv_storage t = Some st'"
    "st_engine st' = snd (engine_set k v (st_engine st))"
proof -
  have "sr_status (fst (engine_set k v (st_engine st))) = StatusCode.Ok"
    using unlimited_put [OF assms(2)] by (simp add: engine_set_def put_logged_def Let_def split_beta sr_ok_def)
  then have "sr_status (fst (api_exec (ApiSet k v) (st_engine st))) \<noteq> QuotaExceeded"
    by simp
  then have "cmdSet None (bulks [''SET'', k, v]) e s = reply kSimpleStringOk (s\<lparr>srv_storage := Some (snd (storage_call (ApiSet k v) st))\<rparr>)"
    using assms(1) by (simp add: cmdSet_def require_bulk_def bulk_value_def bulk_getValue_def bulks_def api_def split_beta Let_def)
  then have "data_reply e (bulks [''SET'', k, v]) s = (kSimpleStringOk, s\<lparr>srv_storage := Some (snd (storage_call (ApiSet k v) st))\<rparr>)"
    unfolding data_reply_def set_get_names run_set_get by (simp add: reply_def)
  then show thesis using that by simp
qed

lemma get_reply:
  assumes "srv_storage s = Some st" "eng_view (st_engine st) k = Some r" "expire_at_us r = -1" "rec_value r = DataValue_str v"
  obtains t where "data_reply e (bulks [''GET'', k]) s = (serializeBulkString v, t)"
proof -
  have "fst (engine_get k (st_engine st)) = sr_ok (Some v) []"
    using assms(2-4) by (simp add: engine_get_def eng_get_def Let_def split_beta isExpired_def DataValue_str_def DataValue0_def)
  then have "sr_status (fst (api_exec (ApiGet k) (st_engine st))) = StatusCode.Ok" "sr_value (fst (api_exec (ApiGet k) (st_engine st))) = VOpt (Some v)"
    by (simp_all add: sr_ok_def sr_map_def split_beta)
  then have "cmdGet None (bulks [''GET'', k]) e s = reply (serializeBulkString v) (s\<lparr>srv_storage := Some (snd (storage_call (ApiGet k) st))\<rparr>)"
    using assms(1)
    by (simp add: cmdGet_def require_bulk_def bulk_value_def bulk_getValue_def bulks_def api_def split_beta Let_def del: api_exec.simps)
  then have "data_reply e (bulks [''GET'', k]) s = (serializeBulkString v, s\<lparr>srv_storage := Some (snd (storage_call (ApiGet k) st))\<rparr>)"
    unfolding data_reply_def set_get_names run_set_get by (simp add: reply_def)
  then show thesis using that by simp
qed

lemma set_get_fit:
  assumes "length (encodeRespArrayCommand [''SET'', k, v]) \<le> n" "int n < i64_max"
  shows "cmd_fits [''SET'', k, v]" "cmd_fits [''GET'', k]" "length (encodeRespArrayCommand [''GET'', k]) \<le> n" "int (length v) \<le> i64_max"
proof -
  have l: "length k + length v \<le> n" using assms(1) by (simp add: encodeRespArrayCommand_def)
  have "1 \<le> length (nat_to_string m)" for m by (metis length_0_conv less_one nat_to_string_not_Nil not_le)
  moreover have "nat_to_string 2 = ''2''" "nat_to_string 3 = ''3''" by code_simp+
  ultimately show "length (encodeRespArrayCommand [''GET'', k]) \<le> n"
    using assms(1) by (simp add: encodeRespArrayCommand_def numeral_2_eq_2 numeral_3_eq_3)
  have "i64_max > 5" by (simp add: i64_max_def)
  then show "cmd_fits [''SET'', k, v]" "cmd_fits [''GET'', k]"
    using l assms(2) by (simp_all add: cmd_fits_def set_get_names) (simp_all add: array_of_def bulks_def)
  show "int (length v) \<le> i64_max" using l assms(2) by simp
qed

text \<open>
  C21. A client that sets a key on a server with storage and without a quota succeeds, and its next get of
  the key returns the value, whatever the key, the value and the pieces in which the replies arrive.
\<close>

theorem client_reads_own_write:
  assumes "ready name c s w" "wire_timeouts w = 0" "srv_storage s = Some st" "unlimited (st_engine st)"
    and "length (encodeRespArrayCommand [''SET'', k, v]) \<le> max_inbuf s" "int (max_inbuf s) < i64_max"
  shows "\<exists>w1 w2. client_set (server_sock (\<lambda>_ _. e) name) k v c w = Some (Success (), c, w1) \<and>
    client_get (server_sock (\<lambda>_ _. e) name) k c w1 = Some (Success (Some v), c, w2)"
proof -
  note fit = set_get_fit [OF assms(5,6)]
  obtain t st1 where t: "data_reply e (bulks [''SET'', k, v]) s = (kSimpleStringOk, t)" "srv_storage t = Some st1"
    "st_engine st1 = snd (engine_set k v (st_engine st))" using set_reply [OF assms(3,4)] by blast
  have ok: "kSimpleStringOk = encode (RESPSimpleString ''OK'')" by (simp add: kSimpleStringOk_def)
  obtain s1 w1 where 1: "client_command (server_sock (\<lambda>_ _. e) name) [''SET'', k, v] c w = Some (Success (simpleString ''OK''), c, w1)"
      "core s1 = core t" "ready name c s1 w1" "wire_timeouts w1 = 0" "srv_config s1 = srv_config s"
    using client_command_over_server [OF assms(1,2) fit(1) assms(5) t(1) [unfolded ok]] by (auto simp: simpleString_def)
  have st1: "srv_storage s1 = Some st1" using arg_cong [OF 1(2), of srv_storage] t(2) by (simp add: core_def)
  obtain u where u: "data_reply e (bulks [''GET'', k]) s1 = (serializeBulkString v, u)"
    by (rule get_reply [OF st1, unfolded t(3), OF engine_set_effect(1) [OF assms(4)]]) simp_all
  have bulk: "serializeBulkString v = encode (RESPBulkString (Some v))" by (simp add: serializeBulkString_def)
  have m: "max_inbuf s1 = max_inbuf s" using 1(5) by (simp add: max_inbuf_def)
  obtain s2 w2 where "client_command (server_sock (\<lambda>_ _. e) name) [''GET'', k] c w1 = Some (Success (bulkString v), c, w2)"
    using client_command_over_server [OF 1(3,4) fit(2) _ u [unfolded bulk]] fit(3,4) m by (auto simp: bulkString_def)
  then show ?thesis
    using 1(1) by (auto simp: client_set_def client_get_def typed_def expect_ok_def is_ok_def expect_optional_def is_string_def
        simpleString_def bulkString_def)
qed

section \<open>An example\<close>

definition ex_client :: Client where
  "ex_client = \<lparr>cl_options = \<lparr>opt_host = ''127.0.0.1'', opt_port = 6380, opt_connect_timeout_ms = 1000,
     opt_read_timeout_ms = 2000, opt_write_timeout_ms = 2000\<rparr>, cl_fd = 3, cl_inbuf = []\<rparr>"

definition ex_wire :: "nat \<Rightarrow> Wire" where
  "ex_wire timeouts = \<lparr>wire_server = Some ex_server, wire_unread = [], wire_chunk = 2, wire_interrupts = 1, wire_timeouts = timeouts\<rparr>"

abbreviation ex_sock :: "Wire Sock" where
  "ex_sock \<equiv> server_sock (\<lambda>_ _. ex_cmd_env) ''c''"

lemma ex_ready: "ready ''c'' ex_client ex_server (ex_wire n)"
  by (simp add: ready_def isConnected_def ex_client_def ex_wire_def served_def ex_idle isSubscribeMode_def ctx_in_multi_def)

lemma ex_wire_timeouts [simp]: "wire_timeouts (ex_wire n) = n"
  by (simp add: ex_wire_def)

lemma ex_unlimited: "unlimited (st_engine ex_storage)"
  by (simp add: ex_storage_def)

lemma ex_get_fits: "cmd_fits [''GET'', ''k'']" "length (encodeRespArrayCommand [''GET'', ''k'']) \<le> max_inbuf ex_server"
proof -
  have l: "length (encodeRespArrayCommand [''SET'', ''k'', ''v'']) = 27" by code_simp
  from set_get_fit [of "''k''" "''v''" 27] l
  show "cmd_fits [''GET'', ''k'']" "length (encodeRespArrayCommand [''GET'', ''k'']) \<le> max_inbuf ex_server"
    by (simp_all add: i64_max_def ex_max)
qed

lemma ex_get_reply:
  obtains t where "data_reply ex_cmd_env (bulks [''GET'', ''k'']) ex_server = (encode (RESPBulkString None), t)"
proof -
  have "fst (data_reply ex_cmd_env (bulks [''GET'', ''k'']) ex_server) = encode (RESPBulkString None)" by code_simp
  then show thesis using that by (metis prod.collapse)
qed


theorem client_reads_own_write_witness:
  "\<exists>w1 w2. client_set ex_sock ''k'' ''v'' ex_client (ex_wire 0) = Some (Success (), ex_client, w1) \<and>
    client_get ex_sock ''k'' ex_client w1 = Some (Success (Some ''v''), ex_client, w2)"
proof -
  have "length (encodeRespArrayCommand [''SET'', ''k'', ''v'']) = 27" by code_simp
  then have "length (encodeRespArrayCommand [''SET'', ''k'', ''v'']) \<le> max_inbuf ex_server" "int (max_inbuf ex_server) < i64_max"
    by (simp_all add: ex_max i64_max_def)
  from client_reads_own_write [OF ex_ready ex_wire_timeouts ex_server_simps(4) ex_unlimited this] show ?thesis .
qed

section \<open>Late replies\<close>

text \<open>
  When the reply to a command comes later than the read timeout, the call fails with a timeout but
  the connection stays open, and the next call, whatever its command, returns the late reply as its own.
\<close>

theorem client_timeout_desync:
  assumes "ready name c s w" "wire_timeouts w = 1" "cmd_fits args1" "cmd_fits args2"
    and "length (encodeRespArrayCommand args1) \<le> max_inbuf s" "length (encodeRespArrayCommand args2) \<le> max_inbuf s"
    and "data_reply e (bulks args1) s = (encode v1, t)" "client_ok v1" "rv_type (client_value v1) \<noteq> Error"
  shows "\<exists>w1 c2 w2. client_command (server_sock (\<lambda>_ _. e) name) args1 c w = Some (Failure Timeout ''I/O timeout'', c, w1) \<and>
    client_command (server_sock (\<lambda>_ _. e) name) args2 c w1 = Some (Success (client_value v1), c2, w2)"
proof -
  let ?os = "server_sock (\<lambda>_ _. e) name"
  have ne: "args1 \<noteq> []" "args2 \<noteq> []" using assms(3,4) by (auto simp: cmd_fits_def is_data_command_def bulks_def)
  have c: "0 \<le> cl_fd c" "cl_inbuf c = []" "0 \<le> opt_read_timeout_ms (cl_options c)" "0 \<le> opt_write_timeout_ms (cl_options c)"
      "wire_server w = Some s" "served name s" "wire_unread w = []"
    using assms(1) by (auto simp: ready_def isConnected_def)
  obtain s1 where s1: "wire_send (\<lambda>_ _. e) name (encodeRespArrayCommand args1) w = w\<lparr>wire_server := Some s1, wire_unread := encode v1\<rparr>"
      "served name s1" "srv_config s1 = srv_config s"
    using wire_send_answers [OF c(5,6), of "[args1]" e "[encode v1]" t] assms(3,5,7) c(7) by auto
  let ?w0 = "w\<lparr>wire_server := Some s1, wire_unread := encode v1\<rparr>" and ?w1 = "w\<lparr>wire_server := Some s1, wire_unread := encode v1, wire_timeouts := 0\<rparr>"
  have "waitFdReady ?os (cl_fd c) False (opt_read_timeout_ms (cl_options c)) ?w0 = (Failure Timeout ''I/O timeout'', ?w1)"
    using c(3) assms(2) by (simp add: waitFdReady_def server_sock_def wire_select_def sys_ok_def)
  then have "recvOneRespWithTimeout ?os (cl_fd c) [] (opt_read_timeout_ms (cl_options c)) ?w0 = Some (Failure Timeout ''I/O timeout'', [], ?w1)"
    by (subst recvOneRespWithTimeout.simps) (simp add: parseRespValue_def parseOne.simps)
  moreover have "c\<lparr>cl_inbuf := []\<rparr> = c" using c(2) by simp
  ultimately have 1: "client_command ?os args1 c w = Some (Failure Timeout ''I/O timeout'', c, ?w1)"
    using wire.send_whole [OF wire.encode_command_ne c(4), of "\<lambda>_ _. e" name "cl_fd c" args1 w] s1(1) c(1,2) ne(1)
    by (simp add: client_command_def isConnected_def on_io_error_def)
  obtain r2 t2 where r2: "data_replies e (map bulks [args2]) s1 = (r2, t2)" by fastforce
  obtain s2 where s2: "wire_send (\<lambda>_ _. e) name (encodeRespArrayCommand args2) ?w1 = ?w1\<lparr>wire_server := Some s2, wire_unread := encode v1 @ concat r2\<rparr>"
    using wire_send_answers [of ?w1 s1 name "[args2]" e r2 t2] s1(2,3) assms(4,6) r2 by (auto simp: max_inbuf_def)
  have "\<exists>inb w2. client_command ?os args2 c ?w1 = Some (Success (client_value v1), c\<lparr>cl_inbuf := inb\<rparr>, w2)"
    using wire.command_reply [of c "cl_fd c" args2 v1 "\<lambda>_ _. e" name ?w1 "concat r2"] c(1-4) ne(2) assms(8,9) s2
    by (auto simp: wire_incoming_def)
  then show ?thesis using 1 by blast
qed

theorem client_timeout_desync_witness:
  "\<exists>w1 c2 w2. client_command ex_sock [''GET'', ''k''] ex_client (ex_wire 1) = Some (Failure Timeout ''I/O timeout'', ex_client, w1) \<and>
    client_command ex_sock [''SET'', ''k'', ''v''] ex_client w1 = Some (Success nullBulkString, c2, w2)"
proof -
  have l: "length (encodeRespArrayCommand [''SET'', ''k'', ''v'']) = 27" by code_simp
  have f: "cmd_fits [''SET'', ''k'', ''v'']" using set_get_fit [of "''k''" "''v''" 27] l by (simp add: i64_max_def)
  have m: "length (encodeRespArrayCommand [''SET'', ''k'', ''v'']) \<le> max_inbuf ex_server" using l by (simp add: ex_max)
  obtain t where t: "data_reply ex_cmd_env (bulks [''GET'', ''k'']) ex_server = (encode (RESPBulkString None), t)" by (rule ex_get_reply)
  from client_timeout_desync [OF ex_ready ex_wire_timeouts ex_get_fits(1) f ex_get_fits(2) m t] show ?thesis
    by (auto simp: nullBulkString_def)
qed

section \<open>The codec against the server's encoder\<close>

text \<open>
  The client's parser reads back what the server encodes, whatever follows it, and asks for more on
  every proper prefix of it; the client's request is the server's encoding of the command as an array of bulk strings.
\<close>

theorem client_codec_roundtrip:
  assumes "client_ok v" "n < length (encode v)"
  shows "parseRespValue (encode v @ rest) = RespParseResult0\<lparr>rp_success := True, rp_complete := True,
      consumed_bytes := length (encode v), rp_value := client_value v\<rparr> \<and>
    parseRespValue (take n (encode v)) = RespParseResult0\<lparr>rp_success := True\<rparr>"
  using parse_encoded [OF assms(1)] parse_cut [OF assms] by (simp_all add: parseRespValue_def)

theorem client_codec_roundtrip_witness:
  "rp_value (parseRespValue (encode (RESPArray (Some [RESPInteger 7, RESPBulkString (Some ''v'')])) @ ''+'')) =
     arrayValue [integerValue 7, bulkString ''v''] \<and>
   \<not> rp_complete (parseRespValue (take 5 (encode (RESPArray (Some [RESPInteger 7, RESPBulkString (Some ''v'')])))))"
proof -
  let ?v = "RESPArray (Some [RESPInteger 7, RESPBulkString (Some ''v'')])"
  have "client_ok ?v" by (simp add: in_i64_def i64_min_def i64_max_def)
  moreover have "5 < length (encode ?v)" by code_simp
  ultimately show ?thesis using client_codec_roundtrip [of ?v 5 "''+''"] by simp
qed

end
