(* ===== verification/Timer_Queue.thy ===== *)
theory Timer_Queue
  imports Std_Containers
begin

text \<open>
  The timers of an event loop, \<^verbatim>\<open>network/Timer.h\<close> and \<^verbatim>\<open>network/TimerQueue.cpp\<close>. A timer object is a number in
  the heap \<open>timer_objs\<close>; the set of entries is ordered by the expiration time alone, so it is a map from expiration times
  to timers. Times are nanoseconds of the steady clock, whose readings are the function \<open>tq_clock\<close>. The descriptor of
  \<^verbatim>\<open>timerfd_create\<close> is the time at which it fires, \<open>None\<close> when it is off; \<^verbatim>\<open>timerfd_settime\<close> with a zero duration
  turns it off. What a callback asks of the queue is a parameter.
\<close>

section \<open>Timers\<close>

record Timer =
  tm_expiration :: int
  tm_interval :: int

definition tm_repeat :: "Timer \<Rightarrow> bool" where
  "tm_repeat t \<longleftrightarrow> tm_interval t > 0"

definition restart :: "int \<Rightarrow> Timer \<Rightarrow> Timer" where
  "restart now t = t\<lparr>tm_expiration := (if tm_repeat t then now + tm_interval t else 0)\<rparr>"

definition timer_expired :: "int \<Rightarrow> Timer \<Rightarrow> bool" where
  "timer_expired now t \<longleftrightarrow> now \<ge> tm_expiration t"

datatype TimerTask = InsertTask nat | CancelTask int

record TimerQueue =
  timers :: "(int \<times> nat) list"
  timerMap :: "(int \<times> nat) list"
  nextTimerId :: int
  timer_objs :: "nat \<Rightarrow> Timer"
  timers_created :: nat
  timerfd :: "int option"
  tq_clock :: "nat \<Rightarrow> int"
  tq_reads :: nat
  tq_tasks :: "TimerTask list"
  callbacks_run :: "nat list"

definition new_TimerQueue :: "(nat \<Rightarrow> int) \<Rightarrow> TimerQueue" where
  "new_TimerQueue clock = \<lparr>timers = [], timerMap = [], nextTimerId = 1, timer_objs = (\<lambda>_. \<lparr>tm_expiration = 0, tm_interval = 0\<rparr>),
     timers_created = 0, timerfd = None, tq_clock = clock, tq_reads = 0, tq_tasks = [], callbacks_run = []\<rparr>"

section \<open>Operations\<close>

definition steady_now :: "TimerQueue \<Rightarrow> int \<times> TimerQueue" where
  "steady_now q = (tq_clock q (tq_reads q), q\<lparr>tq_reads := Suc (tq_reads q)\<rparr>)"

definition resetTimerfd :: "int \<Rightarrow> TimerQueue \<Rightarrow> TimerQueue" where
  "resetTimerfd when q =
     (let (now, q) = steady_now q; duration = when - now; duration = (if duration < 0 then 0 else duration);
          seconds = duration div 1000000000; nanoseconds = duration - seconds * 1000000000
      in q\<lparr>timerfd := (if seconds = 0 \<and> nanoseconds = 0 then None else Some (now + (seconds * 1000000000 + nanoseconds)))\<rparr>)"

definition tq_insert :: "nat \<Rightarrow> TimerQueue \<Rightarrow> bool \<times> TimerQueue" where
  "tq_insert timer q =
     (let when = tm_expiration (timer_objs q timer); earliestChanged = (timers q = [] \<or> when < fst (hd (timers q)));
          q = q\<lparr>timers := std_map_emplace when timer (timers q)\<rparr>
      in (earliestChanged, if earliestChanged then resetTimerfd when q else q))"

definition addTimer :: "bool \<Rightarrow> int \<Rightarrow> int \<Rightarrow> TimerQueue \<Rightarrow> int \<times> TimerQueue" where
  "addTimer in_loop when interval q =
     (let timer = Suc (timers_created q); timerId = nextTimerId q;
          q = q\<lparr>timers_created := timer, timer_objs := (timer_objs q)(timer := \<lparr>tm_expiration = when, tm_interval = interval\<rparr>),
                nextTimerId := timerId + 1, timerMap := std_map_assign timerId timer (timerMap q)\<rparr>
      in (timerId, if in_loop then snd (tq_insert timer q) else q\<lparr>tq_tasks := tq_tasks q @ [InsertTask timer]\<rparr>))"

fun erase_timer :: "nat \<Rightarrow> (int \<times> nat) list \<Rightarrow> (int \<times> nat) list" where
  "erase_timer t [] = []"
| "erase_timer t (e # es) = (if snd e = t then es else e # erase_timer t es)"

definition cancelInLoop :: "int \<Rightarrow> TimerQueue \<Rightarrow> TimerQueue" where
  "cancelInLoop timerId q = (case map_of (timerMap q) timerId of
      None \<Rightarrow> q
    | Some timer \<Rightarrow> q\<lparr>timerMap := std_map_erase timerId (timerMap q), timers := erase_timer timer (timers q)\<rparr>)"

definition tq_cancel :: "bool \<Rightarrow> int \<Rightarrow> TimerQueue \<Rightarrow> TimerQueue" where
  "tq_cancel in_loop timerId q =
     (if in_loop then cancelInLoop timerId q else q\<lparr>tq_tasks := tq_tasks q @ [CancelTask timerId]\<rparr>)"

definition getExpired :: "int \<Rightarrow> TimerQueue \<Rightarrow> (int \<times> nat) list \<times> TimerQueue" where
  "getExpired now q =
     (takeWhile (\<lambda>e. fst e < now) (timers q), q\<lparr>timers := dropWhile (\<lambda>e. fst e < now) (timers q)\<rparr>)"

text \<open>What a callback may ask of the queue: new timers and cancellations, in the thread of the loop.\<close>

datatype TimerRequest = AddRequest int int | CancelRequest int

fun run_request :: "TimerRequest \<Rightarrow> TimerQueue \<Rightarrow> TimerQueue" where
  "run_request (AddRequest when interval) q = snd (addTimer True when interval q)"
| "run_request (CancelRequest timerId) q = tq_cancel True timerId q"

definition timer_run :: "(nat \<Rightarrow> TimerRequest list) \<Rightarrow> nat \<Rightarrow> TimerQueue \<Rightarrow> TimerQueue" where
  "timer_run cb timer q = fold run_request (cb timer) (q\<lparr>callbacks_run := callbacks_run q @ [timer]\<rparr>)"

definition restart_timer :: "int \<Rightarrow> nat \<Rightarrow> TimerQueue \<Rightarrow> TimerQueue" where
  "restart_timer now timer q =
     (if tm_repeat (timer_objs q timer)
      then snd (tq_insert timer (q\<lparr>timer_objs := (timer_objs q)(timer := restart now (timer_objs q timer))\<rparr>)) else q)"

definition tq_reset :: "(int \<times> nat) list \<Rightarrow> int \<Rightarrow> TimerQueue \<Rightarrow> TimerQueue" where
  "tq_reset expired now q =
     (let q = fold (\<lambda>e. restart_timer now (snd e)) expired q
      in if timers q \<noteq> [] then resetTimerfd (fst (hd (timers q))) q else q)"

text \<open>The descriptor fired once and is off until it is set again.\<close>

definition tq_handleRead :: "(nat \<Rightarrow> TimerRequest list) \<Rightarrow> TimerQueue \<Rightarrow> TimerQueue" where
  "tq_handleRead cb q =
     (let (now, q) = steady_now (q\<lparr>timerfd := None\<rparr>); (expired, q) = getExpired now q;
          q = fold (\<lambda>e. timer_run cb (snd e)) expired q
      in tq_reset expired now q)"

fun run_timer_task :: "TimerTask \<Rightarrow> TimerQueue \<Rightarrow> TimerQueue" where
  "run_timer_task (InsertTask timer) q = snd (tq_insert timer q)"
| "run_timer_task (CancelTask timerId) q = cancelInLoop timerId q"

text \<open>The methods of \<^verbatim>\<open>EventLoop\<close>.\<close>

definition runAt :: "bool \<Rightarrow> int \<Rightarrow> TimerQueue \<Rightarrow> int \<times> TimerQueue" where
  "runAt in_loop time q = addTimer in_loop time 0 q"

definition runAfter :: "bool \<Rightarrow> int \<Rightarrow> TimerQueue \<Rightarrow> int \<times> TimerQueue" where
  "runAfter in_loop delay q = (let (now, q) = steady_now q in runAt in_loop (now + delay) q)"

definition runEvery :: "bool \<Rightarrow> int \<Rightarrow> TimerQueue \<Rightarrow> int \<times> TimerQueue" where
  "runEvery in_loop interval q = (let (now, q) = steady_now q in addTimer in_loop (now + interval) interval q)"

definition cancelTimer :: "bool \<Rightarrow> int \<Rightarrow> TimerQueue \<Rightarrow> TimerQueue" where
  "cancelTimer in_loop timerId q = tq_cancel in_loop timerId q"

section \<open>What an event runs\<close>

text \<open>The entries are in order of time, and no request of a callback changes which callbacks run.\<close>

definition tq_ok :: "TimerQueue \<Rightarrow> bool" where
  "tq_ok q \<longleftrightarrow> key_ordered (timers q)"

lemma resetTimerfd_fields [simp]:
  "timers (resetTimerfd w q) = timers q" "callbacks_run (resetTimerfd w q) = callbacks_run q" "timer_objs (resetTimerfd w q) = timer_objs q"
  "tq_clock (resetTimerfd w q) = tq_clock q" "timerMap (resetTimerfd w q) = timerMap q"
  by (simp_all add: resetTimerfd_def steady_now_def Let_def)

lemma insert_fields [simp]:
  "timers (snd (tq_insert t q)) = std_map_emplace (tm_expiration (timer_objs q t)) t (timers q)"
  "callbacks_run (snd (tq_insert t q)) = callbacks_run q" "timer_objs (snd (tq_insert t q)) = timer_objs q"
  "tq_clock (snd (tq_insert t q)) = tq_clock q" "timerMap (snd (tq_insert t q)) = timerMap q"
  by (simp_all add: tq_insert_def Let_def)

lemma key_ordered_emplace: "key_ordered ps \<Longrightarrow> key_ordered (std_map_emplace k v ps)"
  by (simp add: std_map_emplace_def key_ordered_std_map_assign)

lemma key_ordered_erase_timer: "key_ordered es \<Longrightarrow> key_ordered (erase_timer t es)"
proof -
  have sub: "set (erase_timer t es) \<subseteq> set es" for es by (induction es) auto
  show "key_ordered es \<Longrightarrow> ?thesis" by (induction es) (auto dest: subsetD [OF sub])
qed

lemma request_fields:
  "callbacks_run (run_request r q) = callbacks_run q \<and> tq_clock (run_request r q) = tq_clock q \<and> (tq_ok q \<longrightarrow> tq_ok (run_request r q))"
  by (cases r) (auto simp: addTimer_def Let_def tq_cancel_def cancelInLoop_def tq_ok_def key_ordered_emplace key_ordered_erase_timer split: option.split)

lemma requests_fields:
  "callbacks_run (fold run_request rs q) = callbacks_run q \<and> tq_clock (fold run_request rs q) = tq_clock q \<and> (tq_ok q \<longrightarrow> tq_ok (fold run_request rs q))"
  by (induction rs arbitrary: q) (simp_all add: request_fields)

lemma run_expired_fields:
  "callbacks_run (fold (\<lambda>e. timer_run cb (snd e)) es q) = callbacks_run q @ map snd es \<and>
   tq_clock (fold (\<lambda>e. timer_run cb (snd e)) es q) = tq_clock q \<and> (tq_ok q \<longrightarrow> tq_ok (fold (\<lambda>e. timer_run cb (snd e)) es q))"
proof (induction es arbitrary: q)
  case (Cons e es)
  have "callbacks_run (timer_run cb (snd e) q) = callbacks_run q @ [snd e] \<and> tq_clock (timer_run cb (snd e) q) = tq_clock q \<and>
      (tq_ok q \<longrightarrow> tq_ok (timer_run cb (snd e) q))"
    using requests_fields [of "cb (snd e)" "q\<lparr>callbacks_run := callbacks_run q @ [snd e]\<rparr>"] by (simp add: timer_run_def tq_ok_def)
  then show ?case using Cons.IH [of "timer_run cb (snd e) q"] by simp
qed simp

lemma restart_fields:
  "callbacks_run (restart_timer now t q) = callbacks_run q \<and> tq_clock (restart_timer now t q) = tq_clock q \<and> (tq_ok q \<longrightarrow> tq_ok (restart_timer now t q))"
  by (simp add: restart_timer_def tq_ok_def key_ordered_emplace)

lemma restarts_fields:
  "callbacks_run (fold (\<lambda>e. restart_timer now (snd e)) es q) = callbacks_run q \<and>
   tq_clock (fold (\<lambda>e. restart_timer now (snd e)) es q) = tq_clock q \<and> (tq_ok q \<longrightarrow> tq_ok (fold (\<lambda>e. restart_timer now (snd e)) es q))"
  by (induction es arbitrary: q) (simp_all add: restart_fields)

lemma due_prefix: "key_ordered es \<Longrightarrow> takeWhile (\<lambda>e. fst e < n) es = filter (\<lambda>e. fst e < n) es"
  by (induction es) (auto simp: empty_filter_conv)

lemma late_suffix: "key_ordered es \<Longrightarrow> key_ordered (dropWhile (\<lambda>e. fst e < n) es)"
  by (induction es) auto

text \<open>
  An event of the descriptor runs, in the order of their times, exactly the callbacks of the timers whose time has
  passed, each once, whatever timers the callbacks add or cancel.
\<close>

theorem timer_event_runs_due:
  assumes "tq_ok q"
  shows "callbacks_run (tq_handleRead cb q) =
      callbacks_run q @ map snd (filter (\<lambda>e. fst e < tq_clock q (tq_reads q)) (timers q)) \<and>
    tq_ok (tq_handleRead cb q)"
proof -
  let ?now = "tq_clock q (tq_reads q)" and ?q = "q\<lparr>timerfd := None, tq_reads := Suc (tq_reads q)\<rparr>"
  let ?es = "takeWhile (\<lambda>e. fst e < ?now) (timers q)" and ?r = "?q\<lparr>timers := dropWhile (\<lambda>e. fst e < ?now) (timers q)\<rparr>"
  let ?s = "fold (\<lambda>e. timer_run cb (snd e)) ?es ?r"
  have h: "tq_handleRead cb q = tq_reset ?es ?now ?s"
    by (simp add: tq_handleRead_def steady_now_def getExpired_def Let_def)
  have "tq_ok ?r" using assms by (simp add: tq_ok_def late_suffix)
  then have s: "tq_ok ?s" "callbacks_run ?s = callbacks_run q @ map snd ?es" using run_expired_fields [of cb ?es ?r] by simp_all
  then have "tq_ok (tq_reset ?es ?now ?s)" "callbacks_run (tq_reset ?es ?now ?s) = callbacks_run ?s"
    using restarts_fields [of ?now ?es ?s] by (simp_all add: tq_reset_def Let_def tq_ok_def)
  then show ?thesis using h s assms by (simp add: due_prefix tq_ok_def)
qed

section \<open>When the descriptor fires\<close>

text \<open>The descriptor fires no later than the first timer, or it is off although the time of the first timer has passed.\<close>

definition armed :: "TimerQueue \<Rightarrow> bool" where
  "armed q \<longleftrightarrow> timers q = [] \<or> (\<exists>t. timerfd q = Some t \<and> t \<le> fst (hd (timers q)))"

definition timer_stuck :: "TimerQueue \<Rightarrow> bool" where
  "timer_stuck q \<longleftrightarrow> timers q \<noteq> [] \<and> timerfd q = None \<and> 0 < tq_reads q \<and> fst (hd (timers q)) \<le> tq_clock q (tq_reads q - 1)"

lemma resetTimerfd_first:
  "timers q \<noteq> [] \<Longrightarrow> w = fst (hd (timers q)) \<Longrightarrow> armed (resetTimerfd w q) \<or> timer_stuck (resetTimerfd w q)"
  by (auto simp: resetTimerfd_def steady_now_def Let_def armed_def timer_stuck_def)

lemma reset_arms: "armed (tq_reset es now q) \<or> timer_stuck (tq_reset es now q)"
proof (cases "timers (fold (\<lambda>e. restart_timer now (snd e)) es q) = []")
  case False
  with resetTimerfd_first [OF this refl] show ?thesis by (simp add: tq_reset_def Let_def)
qed (simp add: tq_reset_def Let_def armed_def)

lemma hd_emplace:
  "es \<noteq> [] \<Longrightarrow> \<not> w < fst (hd es) \<Longrightarrow> fst (hd (std_map_emplace w t es)) = fst (hd es)"
  "es = [] \<or> w < fst (hd es) \<Longrightarrow> key_ordered es \<Longrightarrow> hd (std_map_emplace w t es) = (w, t)"
  "std_map_emplace w t es \<noteq> []"
proof -
  show "es \<noteq> [] \<Longrightarrow> \<not> w < fst (hd es) \<Longrightarrow> fst (hd (std_map_emplace w t es)) = fst (hd es)"
    by (cases es) (auto simp: std_map_emplace_def not_less)
  have "std_map_assign w t es \<noteq> []" by (cases es) (auto split: if_splits)
  then show "std_map_emplace w t es \<noteq> []" by (auto simp: std_map_emplace_def)
  show "es = [] \<or> w < fst (hd es) \<Longrightarrow> key_ordered es \<Longrightarrow> hd (std_map_emplace w t es) = (w, t)"
  proof (cases es)
    case (Cons e es')
    assume "es = [] \<or> w < fst (hd es)" "key_ordered es"
    then have "map_of es w = None" using Cons by (force simp: map_of_eq_None_iff)
    then show ?thesis using Cons \<open>es = [] \<or> w < fst (hd es)\<close> by (cases e) (auto simp: std_map_emplace_def)
  qed (simp add: std_map_emplace_def)
qed

lemma insert_arms:
  assumes "tq_ok q" "armed q"
  shows "armed (snd (tq_insert t q)) \<or> timer_stuck (snd (tq_insert t q))"
proof -
  let ?w = "tm_expiration (timer_objs q t)" and ?q = "q\<lparr>timers := std_map_emplace (tm_expiration (timer_objs q t)) t (timers q)\<rparr>"
  show ?thesis
  proof (cases "timers q = [] \<or> ?w < fst (hd (timers q))")
    case True
    have "?w = fst (hd (timers ?q))" using hd_emplace(2) [OF True] assms(1) by (simp add: tq_ok_def)
    then have "armed (resetTimerfd ?w ?q) \<or> timer_stuck (resetTimerfd ?w ?q)" using hd_emplace(3) [of ?w t "timers q"] by (intro resetTimerfd_first) simp_all
    then show ?thesis using True by (auto simp: tq_insert_def Let_def)
  next
    case False
    then have "fst (hd (timers ?q)) = fst (hd (timers q))" using hd_emplace(1) [of "timers q" ?w t] by simp
    then show ?thesis using False assms(2) by (auto simp: tq_insert_def Let_def armed_def)
  qed
qed

lemma erase_head: "key_ordered es \<Longrightarrow> erase_timer t es \<noteq> [] \<Longrightarrow> fst (hd es) \<le> fst (hd (erase_timer t es))"
proof (cases es)
  case (Cons e es')
  assume "key_ordered es" "erase_timer t es \<noteq> []"
  with Cons hd_in_set [of es'] show ?thesis by (cases "snd e = t") (auto intro: less_imp_le)
qed simp

lemma cancel_arms: "tq_ok q \<Longrightarrow> armed q \<Longrightarrow> armed (cancelInLoop i q)"
proof -
  assume q: "tq_ok q" "armed q"
  have "armed (q\<lparr>timerMap := m, timers := erase_timer t (timers q)\<rparr>)" for m t
  proof (cases "erase_timer t (timers q) = []")
    case False
    then have "timers q \<noteq> []" by auto
    then obtain x where x: "timerfd q = Some x" "x \<le> fst (hd (timers q))" using q(2) by (auto simp: armed_def)
    moreover have "fst (hd (timers q)) \<le> fst (hd (erase_timer t (timers q)))" using erase_head [OF _ False] q(1) by (simp add: tq_ok_def)
    ultimately show ?thesis by (simp add: armed_def)
  qed (simp add: armed_def)
  with q(2) show ?thesis by (simp add: cancelInLoop_def split: option.split)
qed


definition add_all :: "(int \<times> int) list \<Rightarrow> TimerQueue \<Rightarrow> TimerQueue" where
  "add_all ws q = fold (\<lambda>(w, i) q. snd (addTimer True w i q)) ws q"

lemma add_later:
  assumes "timers q \<noteq> []" "fst (hd (timers q)) \<le> w"
  shows "timerfd (snd (addTimer True w i q)) = timerfd q \<and> callbacks_run (snd (addTimer True w i q)) = callbacks_run q \<and>
    timers (snd (addTimer True w i q)) \<noteq> [] \<and> fst (hd (timers (snd (addTimer True w i q)))) = fst (hd (timers q))"
  using assms hd_emplace(1) [of "timers q" w] hd_emplace(3) by (simp add: addTimer_def tq_insert_def Let_def not_less)

lemma add_all_later:
  "timers q \<noteq> [] \<Longrightarrow> \<forall>x \<in> set ws. fst (hd (timers q)) \<le> fst x \<Longrightarrow>
    timerfd (add_all ws q) = timerfd q \<and> callbacks_run (add_all ws q) = callbacks_run q \<and> timers (add_all ws q) \<noteq> []"
proof (induction ws arbitrary: q)
  case (Cons x ws)
  obtain w i where x: "x = (w, i)" by fastforce
  with Cons.prems have "fst (hd (timers q)) \<le> w" by simp
  from add_later [OF Cons.prems(1) this, of i] Cons.IH [of "snd (addTimer True w i q)"] Cons.prems x show ?case
    by (simp add: add_all_def)
qed (simp add: add_all_def)

text \<open>
  A timer that is due when it becomes the first one turns the descriptor off: neither it nor any number of later timers
  added afterwards ever runs.
\<close>

theorem timer_due_blocks_queue:
  assumes "timers q = []" "w \<le> tq_clock q (tq_reads q)" "\<forall>x \<in> set ws. w \<le> fst x"
  shows "timerfd (add_all ws (snd (addTimer True w i q))) = None \<and> timers (add_all ws (snd (addTimer True w i q))) \<noteq> [] \<and>
    callbacks_run (add_all ws (snd (addTimer True w i q))) = callbacks_run q"
proof -
  let ?q = "snd (addTimer True w i q)"
  have "timers ?q \<noteq> []" "fst (hd (timers ?q)) = w" "timerfd ?q = None" "callbacks_run ?q = callbacks_run q"
    using assms(1,2) by (simp_all add: addTimer_def tq_insert_def resetTimerfd_def steady_now_def std_map_emplace_def Let_def)
  with add_all_later [of ?q ws] assms(3) show ?thesis by simp
qed

text \<open>A second timer for a time that has one already is not entered.\<close>

lemma timer_equal_time_dropped:
  "map_of (timers q) w = Some t \<Longrightarrow> timers (snd (addTimer True w i q)) = timers q"
  by (simp add: addTimer_def Let_def std_map_emplace_def)

text \<open>A repeating timer that cancels itself in its callback is entered again, and can no longer be cancelled.\<close>

definition self_cancel :: TimerQueue where
  "self_cancel = tq_handleRead (\<lambda>_. [CancelRequest 1]) (snd (addTimer True 5 10 (new_TimerQueue (\<lambda>n. 6 * int n))))"

lemma timer_self_cancel_ignored: "timers self_cancel = [(16, 1)] \<and> timerMap self_cancel = []"
  by (simp add: self_cancel_def tq_handleRead_def addTimer_def tq_insert_def resetTimerfd_def steady_now_def getExpired_def timer_run_def
      tq_reset_def restart_timer_def restart_def tm_repeat_def tq_cancel_def cancelInLoop_def new_TimerQueue_def Let_def
      std_map_emplace_def std_map_erase_def)

section \<open>Instances\<close>

definition ex_timers :: TimerQueue where
  "ex_timers = snd (addTimer True 5 0 (snd (addTimer True 9 4 (new_TimerQueue (\<lambda>n. 3 * int n)))))"

lemma ex_timers_fields: "timers ex_timers = [(5, 2), (9, 1)]" "timerfd ex_timers = Some 5" "callbacks_run ex_timers = []"
    "tq_clock ex_timers (tq_reads ex_timers) = 6"
  by (simp_all add: ex_timers_def addTimer_def tq_insert_def resetTimerfd_def steady_now_def new_TimerQueue_def Let_def std_map_emplace_def)

theorem timer_event_runs_due_witness: "callbacks_run (tq_handleRead (\<lambda>_. [CancelRequest 1]) ex_timers) = [2]"
  using timer_event_runs_due [of ex_timers "\<lambda>_. [CancelRequest 1]"] by (simp add: tq_ok_def ex_timers_fields)


theorem timer_due_blocks_queue_witness:
  "timerfd (add_all [(9, 0)] (snd (addTimer True 0 0 (new_TimerQueue int)))) = None"
  using timer_due_blocks_queue [of "new_TimerQueue int" 0 "[(9, 0)]" 0] by (simp add: new_TimerQueue_def)

end
