(* ===== verification/Step_Systems.thy ===== *)
theory Step_Systems
  imports SunKV_Prelude
begin

text \<open>
  Components that react to events: a step may be impossible (\<open>None\<close>), and a run is a sequence of steps. The locale \<open>step_system\<close> is what the
  theories of the network library use of an invariant: what every step keeps, every run keeps.
\<close>

primrec run_events :: "('e \<Rightarrow> 's \<Rightarrow> 's option) \<Rightarrow> 'e list \<Rightarrow> 's \<Rightarrow> 's option" where
  "run_events step [] s = Some s"
| "run_events step (e # es) s = (case step e s of None \<Rightarrow> None | Some s \<Rightarrow> run_events step es s)"

lemma run_events_append: "run_events step (es @ fs) s = Option.bind (run_events step es s) (run_events step fs)"
  by (induction es arbitrary: s) (auto split: option.split)

locale step_system =
  fixes step :: "'e \<Rightarrow> 's \<Rightarrow> 's option" and keeps :: "'s \<Rightarrow> bool" and allowed :: "'e \<Rightarrow> bool"
  assumes step_keeps: "keeps s \<Longrightarrow> allowed e \<Longrightarrow> step e s = Some s' \<Longrightarrow> keeps s'"
begin

lemma run_keeps: "keeps s \<Longrightarrow> \<forall>e \<in> set es. allowed e \<Longrightarrow> run_events step es s = Some s' \<Longrightarrow> keeps s'"
  by (induction es arbitrary: s) (auto split: option.splits intro: step_keeps)

end

end
