(* ===== verification/Net_Poller.thy ===== *)
theory Net_Poller
  imports Std_Containers Step_Systems
begin

unbundle bit_operations_syntax

text \<open>
  Channels and the poller, \<^verbatim>\<open>network/Channel.cpp\<close> and \<^verbatim>\<open>network/Poller.cpp\<close>. Channel objects are numbers in the heap
  \<open>pl_chan\<close>; the interest list of the kernel is \<open>pl_epoll\<close>, with the behaviour of \<^verbatim>\<open>epoll_ctl\<close>: adding a descriptor that is
  present, and changing or removing one that is absent, fails. The source only logs such a failure; \<open>pl_failed\<close> counts them.
  An assertion that fails is \<open>None\<close>.
\<close>

section \<open>Channels\<close>

definition kNoneEvent :: "32 word" where "kNoneEvent = 0"
definition kReadEvent :: "32 word" where "kReadEvent = 1"
definition kWriteEvent :: "32 word" where "kWriteEvent = 2"
definition kErrorEvent :: "32 word" where "kErrorEvent = 4"
definition kCloseEvent :: "32 word" where "kCloseEvent = 8"

definition EPOLLIN :: "32 word" where "EPOLLIN = 0x1"
definition EPOLLPRI :: "32 word" where "EPOLLPRI = 0x2"
definition EPOLLOUT :: "32 word" where "EPOLLOUT = 0x4"
definition EPOLLERR :: "32 word" where "EPOLLERR = 0x8"
definition EPOLLHUP :: "32 word" where "EPOLLHUP = 0x10"
definition EPOLLRDHUP :: "32 word" where "EPOLLRDHUP = 0x2000"

definition kNew :: int where "kNew = -1"
definition kAdded :: int where "kAdded = 1"
definition kDeleted :: int where "kDeleted = 2"

record Channel =
  ch_fd :: int
  ch_events :: "32 word"
  ch_revents :: "32 word"
  ch_index :: int
  ch_addedToLoop :: bool

definition new_Channel :: "int \<Rightarrow> Channel" where
  "new_Channel fd = \<lparr>ch_fd = fd, ch_events = kNoneEvent, ch_revents = kNoneEvent, ch_index = kNew, ch_addedToLoop = False\<rparr>"

definition isNoneEvent :: "Channel \<Rightarrow> bool" where
  "isNoneEvent ch \<longleftrightarrow> ch_events ch = kNoneEvent"

definition isReading :: "Channel \<Rightarrow> bool" where
  "isReading ch \<longleftrightarrow> ch_events ch AND kReadEvent \<noteq> 0"

definition isWriting :: "Channel \<Rightarrow> bool" where
  "isWriting ch \<longleftrightarrow> ch_events ch AND kWriteEvent \<noteq> 0"

text \<open>Which callbacks an event calls, in order.\<close>

datatype ChannelCallback = CloseCallback | ErrorCallback | ReadCallback | WriteCallback

definition handleEventWithGuard :: "32 word \<Rightarrow> ChannelCallback list" where
  "handleEventWithGuard revents =
     (if revents AND kCloseEvent \<noteq> 0 \<and> \<not> revents AND kReadEvent \<noteq> 0 then [CloseCallback] else []) @
     (if revents AND kErrorEvent \<noteq> 0 then [ErrorCallback] else []) @
     (if revents AND kReadEvent \<noteq> 0 then [ReadCallback] else []) @
     (if revents AND kWriteEvent \<noteq> 0 then [WriteCallback] else [])"

text \<open>A tied channel whose owner is gone calls nothing.\<close>

definition Channel_handleEvent :: "bool \<Rightarrow> bool \<Rightarrow> Channel \<Rightarrow> ChannelCallback list" where
  "Channel_handleEvent tied owner_alive ch = (if tied \<and> \<not> owner_alive then [] else handleEventWithGuard (ch_revents ch))"

section \<open>The poller\<close>

definition channelEventsToEpoll :: "32 word \<Rightarrow> 32 word" where
  "channelEventsToEpoll events =
     (let ev = 0; ev = (if events AND kReadEvent \<noteq> 0 then ev OR (EPOLLIN OR EPOLLPRI OR EPOLLRDHUP) else ev)
      in if events AND kWriteEvent \<noteq> 0 then ev OR EPOLLOUT else ev)"

definition epollReventsToChannel :: "32 word \<Rightarrow> 32 word" where
  "epollReventsToChannel ep =
     (let rev = kNoneEvent;
          rev = (if ep AND EPOLLERR \<noteq> 0 then rev OR kErrorEvent else rev);
          rev = (if ep AND (EPOLLIN OR EPOLLPRI) \<noteq> 0 then rev OR kReadEvent else rev);
          rev = (if ep AND EPOLLOUT \<noteq> 0 then rev OR kWriteEvent else rev)
      in if ep AND (EPOLLHUP OR EPOLLRDHUP) \<noteq> 0 then rev OR kCloseEvent else rev)"

record Poller =
  pl_chan :: "nat \<Rightarrow> Channel"
  pl_channels :: "(int \<times> nat) list"
  pl_epoll :: "int \<rightharpoonup> 32 word \<times> nat"
  pl_failed :: nat

definition new_Poller :: "(nat \<Rightarrow> Channel) \<Rightarrow> Poller" where
  "new_Poller chans = \<lparr>pl_chan = chans, pl_channels = [], pl_epoll = Map.empty, pl_failed = 0\<rparr>"

definition set_chan :: "nat \<Rightarrow> Channel \<Rightarrow> Poller \<Rightarrow> Poller" where
  "set_chan c ch p = p\<lparr>pl_chan := (pl_chan p)(c := ch)\<rparr>"

datatype EpollOp = EPOLL_CTL_ADD | EPOLL_CTL_DEL | EPOLL_CTL_MOD

fun epoll_ctl :: "EpollOp \<Rightarrow> int \<Rightarrow> 32 word \<times> nat \<Rightarrow> (int \<rightharpoonup> 32 word \<times> nat) \<Rightarrow> (int \<rightharpoonup> 32 word \<times> nat) option" where
  "epoll_ctl EPOLL_CTL_ADD fd ev k = (if k fd = None then Some (k(fd \<mapsto> ev)) else None)"
| "epoll_ctl EPOLL_CTL_DEL fd ev k = (if k fd = None then None else Some (k(fd := None)))"
| "epoll_ctl EPOLL_CTL_MOD fd ev k = (if k fd = None then None else Some (k(fd \<mapsto> ev)))"

definition Poller_update :: "EpollOp \<Rightarrow> nat \<Rightarrow> Poller \<Rightarrow> Poller" where
  "Poller_update operation c p =
     (let ch = pl_chan p c in
      case epoll_ctl operation (ch_fd ch) (channelEventsToEpoll (ch_events ch), c) (pl_epoll p) of
        None \<Rightarrow> p\<lparr>pl_failed := Suc (pl_failed p)\<rparr>
      | Some k \<Rightarrow> p\<lparr>pl_epoll := k\<rparr>)"

definition set_index :: "int \<Rightarrow> nat \<Rightarrow> Poller \<Rightarrow> Poller" where
  "set_index i c p = set_chan c ((pl_chan p c)\<lparr>ch_index := i\<rparr>) p"

definition updateChannel :: "nat \<Rightarrow> Poller \<Rightarrow> Poller option" where
  "updateChannel c p =
     (let ch = pl_chan p c; fd = ch_fd ch; registered = map_of (pl_channels p) fd in
      if ch_index ch = kNew \<or> ch_index ch = kDeleted
      then if ch_index ch = kNew
           then if registered \<noteq> None then None
                else Some (Poller_update EPOLL_CTL_ADD c (set_index kAdded c (p\<lparr>pl_channels := std_map_assign fd c (pl_channels p)\<rparr>)))
           else if registered \<noteq> Some c then None
                else Some (Poller_update EPOLL_CTL_ADD c (set_index kAdded c p))
      else if registered \<noteq> Some c \<or> ch_index ch \<noteq> kAdded then None
      else if isNoneEvent ch then Some (set_index kDeleted c (Poller_update EPOLL_CTL_DEL c p))
      else Some (Poller_update EPOLL_CTL_MOD c p))"

definition removeChannel :: "nat \<Rightarrow> Poller \<Rightarrow> Poller option" where
  "removeChannel c p =
     (let ch = pl_chan p c; fd = ch_fd ch in
      if map_of (pl_channels p) fd \<noteq> Some c \<or> \<not> isNoneEvent ch then None
      else if \<not> (ch_index ch = kAdded \<or> ch_index ch = kDeleted) then None
      else let p = p\<lparr>pl_channels := std_map_erase fd (pl_channels p)\<rparr>;
               p = (if ch_index ch = kAdded then Poller_update EPOLL_CTL_DEL c p else p)
        in Some (set_index kNew c p))"

definition hasChannel :: "nat \<Rightarrow> Poller \<Rightarrow> bool" where
  "hasChannel c p \<longleftrightarrow> map_of (pl_channels p) (ch_fd (pl_chan p c)) = Some c"

text \<open>Changing what a channel watches, and taking it out of the loop.\<close>

definition Channel_update :: "32 word \<Rightarrow> nat \<Rightarrow> Poller \<Rightarrow> Poller option" where
  "Channel_update events c p = updateChannel c (set_chan c ((pl_chan p c)\<lparr>ch_events := events, ch_addedToLoop := True\<rparr>) p)"

definition enableReading :: "nat \<Rightarrow> Poller \<Rightarrow> Poller option" where
  "enableReading c p = Channel_update (ch_events (pl_chan p c) OR kReadEvent) c p"

definition disableReading :: "nat \<Rightarrow> Poller \<Rightarrow> Poller option" where
  "disableReading c p = Channel_update (ch_events (pl_chan p c) AND NOT kReadEvent) c p"

definition enableWriting :: "nat \<Rightarrow> Poller \<Rightarrow> Poller option" where
  "enableWriting c p = Channel_update (ch_events (pl_chan p c) OR kWriteEvent) c p"

definition disableWriting :: "nat \<Rightarrow> Poller \<Rightarrow> Poller option" where
  "disableWriting c p = Channel_update (ch_events (pl_chan p c) AND NOT kWriteEvent) c p"

definition disableAll :: "nat \<Rightarrow> Poller \<Rightarrow> Poller option" where
  "disableAll c p = Channel_update kNoneEvent c p"

definition Channel_remove :: "nat \<Rightarrow> Poller \<Rightarrow> Poller option" where
  "Channel_remove c p =
     (if \<not> isNoneEvent (pl_chan p c) then None
      else removeChannel c (set_chan c ((pl_chan p c)\<lparr>ch_addedToLoop := False\<rparr>) p))"

text \<open>The events \<^verbatim>\<open>epoll_wait\<close> returned: the received events of the channels are set, in order.\<close>

definition fillActiveChannels :: "(32 word \<times> nat) list \<Rightarrow> Poller \<Rightarrow> nat list \<times> Poller" where
  "fillActiveChannels evs p =
     (map snd evs, fold (\<lambda>(ep, c) p. set_chan c ((pl_chan p c)\<lparr>ch_revents := epollReventsToChannel ep\<rparr>) p) evs p)"

section \<open>Agreement with the kernel\<close>

text \<open>What the interest list must be: the channels in the map that are marked as added, with what they watch.\<close>

definition kernel_view :: "Poller \<Rightarrow> int \<rightharpoonup> 32 word \<times> nat" where
  "kernel_view p fd = (case map_of (pl_channels p) fd of
      None \<Rightarrow> None
    | Some c \<Rightarrow> if ch_index (pl_chan p c) = kAdded then Some (channelEventsToEpoll (ch_events (pl_chan p c)), c) else None)"

definition index_ok :: "Poller \<Rightarrow> bool" where
  "index_ok p \<longleftrightarrow>
     (\<forall>c. ch_index (pl_chan p c) = kNew \<and> map_of (pl_channels p) (ch_fd (pl_chan p c)) \<noteq> Some c \<or>
       (ch_index (pl_chan p c) = kAdded \<or> ch_index (pl_chan p c) = kDeleted) \<and> map_of (pl_channels p) (ch_fd (pl_chan p c)) = Some c) \<and>
     (\<forall>fd c. map_of (pl_channels p) fd = Some c \<longrightarrow> ch_fd (pl_chan p c) = fd)"

definition poller_ok :: "Poller \<Rightarrow> bool" where
  "poller_ok p \<longleftrightarrow> index_ok p \<and> pl_epoll p = kernel_view p \<and> pl_failed p = 0"

lemmas index_simps [simp] = kNew_def kAdded_def kDeleted_def

lemma new_poller_ok: "(\<And>c. ch_index (chans c) = kNew) \<Longrightarrow> poller_ok (new_Poller chans)"
  by (simp add: poller_ok_def index_ok_def new_Poller_def kernel_view_def fun_eq_iff)

lemma set_chan_sel [simp]:
  "pl_chan (set_chan c ch p) = (pl_chan p)(c := ch)" "pl_channels (set_chan c ch p) = pl_channels p"
  "pl_epoll (set_chan c ch p) = pl_epoll p" "pl_failed (set_chan c ch p) = pl_failed p"
  by (simp_all add: set_chan_def)

text \<open>A change of one channel and of its descriptor in the map and in the kernel.\<close>

lemma change_ok:
  assumes "poller_ok p" and c: "pl_chan p' = (pl_chan p)(c := ch)" "ch_fd ch = ch_fd (pl_chan p c)"
    and old: "map_of (pl_channels p) (ch_fd ch) = None \<or> map_of (pl_channels p) (ch_fd ch) = Some c"
    and m: "map_of (pl_channels p') = (map_of (pl_channels p))(ch_fd ch := r)"
    and r: "r = None \<and> ch_index ch = kNew \<or> r = Some c \<and> (ch_index ch = kAdded \<or> ch_index ch = kDeleted)"
    and k: "pl_epoll p' = (pl_epoll p)(ch_fd ch := if ch_index ch = kAdded then Some (channelEventsToEpoll (ch_events ch), c) else None)"
    and "pl_failed p' = pl_failed p"
  shows "poller_ok p'"
proof -
  have i: "index_ok p" "pl_epoll p = kernel_view p" "pl_failed p' = 0" using assms(1,8) by (simp_all add: poller_ok_def)
  have other: "map_of (pl_channels p) fd = Some c' \<Longrightarrow> fd \<noteq> ch_fd ch \<Longrightarrow> c' \<noteq> c" for fd c'
    using i(1) c(2) by (auto simp: index_ok_def)
  have idx: "ch_index (pl_chan p' x) = kNew \<and> map_of (pl_channels p') (ch_fd (pl_chan p' x)) \<noteq> Some x \<or>
      (ch_index (pl_chan p' x) = kAdded \<or> ch_index (pl_chan p' x) = kDeleted) \<and> map_of (pl_channels p') (ch_fd (pl_chan p' x)) = Some x" for x
  proof (cases "x = c")
    case True
    then show ?thesis using c m r by auto
  next
    case False
    have "map_of (pl_channels p') (ch_fd (pl_chan p x)) = Some x \<longleftrightarrow> map_of (pl_channels p) (ch_fd (pl_chan p x)) = Some x"
      using m r old False by auto
    then show ?thesis using False c(1) i(1) by (auto simp: index_ok_def)
  qed
  have fds: "map_of (pl_channels p') fd = Some x \<Longrightarrow> ch_fd (pl_chan p' x) = fd" for fd x
    using i(1) c m r other [of fd x] by (cases "fd = ch_fd ch") (auto simp: index_ok_def)
  have "pl_epoll p' fd = kernel_view p' fd" for fd
  proof (cases "fd = ch_fd ch")
    case True
    then show ?thesis using k m r c(1) by (auto simp: kernel_view_def)
  next
    case False
    then show ?thesis using k m c(1) i(2) other [OF _ False] by (simp add: kernel_view_def split: option.split)
  qed
  then show ?thesis using idx fds i(3) by (simp add: poller_ok_def index_ok_def fun_eq_iff)
qed

lemma index_cases:
  assumes "index_ok p"
  obtains (new) "ch_index (pl_chan p c) = kNew" "map_of (pl_channels p) (ch_fd (pl_chan p c)) \<noteq> Some c"
  | (added) "ch_index (pl_chan p c) = kAdded" "map_of (pl_channels p) (ch_fd (pl_chan p c)) = Some c"
  | (deleted) "ch_index (pl_chan p c) = kDeleted" "map_of (pl_channels p) (ch_fd (pl_chan p c)) = Some c"
  using assms by (metis index_ok_def)

lemma kernel_entry:
  assumes "poller_ok p"
  shows "pl_epoll p (ch_fd (pl_chan p c)) = None \<longleftrightarrow> map_of (pl_channels p) (ch_fd (pl_chan p c)) = None \<or>
    (\<exists>c'. map_of (pl_channels p) (ch_fd (pl_chan p c)) = Some c' \<and> ch_index (pl_chan p c') \<noteq> kAdded)"
  using assms by (simp add: poller_ok_def kernel_view_def split: option.split)

lemmas poller_defs = Channel_update_def updateChannel_def Poller_update_def set_index_def set_chan_def isNoneEvent_def Let_def

lemma update_ok:
  assumes p: "poller_ok p"
  shows "(Channel_update ev c p = None \<longleftrightarrow> ch_index (pl_chan p c) = kNew \<and> map_of (pl_channels p) (ch_fd (pl_chan p c)) \<noteq> None) \<and>
    (Channel_update ev c p = Some p' \<longrightarrow> poller_ok p')"
proof -
  let ?ch = "pl_chan p c"
  have "index_ok p" using p by (simp add: poller_ok_def)
  then show ?thesis
  proof (cases rule: index_cases [where c = c])
    case new
    show ?thesis
    proof (cases "map_of (pl_channels p) (ch_fd ?ch)")
      case None
      let ?new = "?ch\<lparr>ch_events := ev, ch_addedToLoop := True, ch_index := kAdded\<rparr>"
      have "Channel_update ev c p = Some p' \<Longrightarrow> poller_ok p'"
        by (rule change_ok [OF p, of p' c ?new "Some c"]) (use new None kernel_entry [OF p, of c] in \<open>auto simp: poller_defs\<close>)
      then show ?thesis using new None by (simp add: poller_defs)
    qed (use new in \<open>simp add: poller_defs\<close>)
  next
    case added
    let ?new = "?ch\<lparr>ch_events := ev, ch_addedToLoop := True, ch_index := if ev = kNoneEvent then kDeleted else kAdded\<rparr>"
    have "Channel_update ev c p = Some p' \<Longrightarrow> poller_ok p'"
      by (rule change_ok [OF p, of p' c ?new "Some c"]) (use added kernel_entry [OF p, of c] in \<open>auto simp: poller_defs fun_upd_idem split: if_splits\<close>)
    then show ?thesis using added by (simp add: poller_defs)
  next
    case deleted
    let ?new = "?ch\<lparr>ch_events := ev, ch_addedToLoop := True, ch_index := kAdded\<rparr>"
    have "Channel_update ev c p = Some p' \<Longrightarrow> poller_ok p'"
      by (rule change_ok [OF p, of p' c ?new "Some c"]) (use deleted kernel_entry [OF p, of c] in \<open>auto simp: poller_defs fun_upd_idem\<close>)
    then show ?thesis using deleted by (simp add: poller_defs)
  qed
qed

lemma remove_ok:
  assumes p: "poller_ok p"
  shows "(Channel_remove c p = None \<longleftrightarrow> \<not> isNoneEvent (pl_chan p c) \<or> ch_index (pl_chan p c) = kNew) \<and>
    (Channel_remove c p = Some p' \<longrightarrow> poller_ok p')"
proof -
  let ?ch = "pl_chan p c" and ?new = "(pl_chan p c)\<lparr>ch_addedToLoop := False, ch_index := kNew\<rparr>"
  have "index_ok p" using p by (simp add: poller_ok_def)
  then show ?thesis
  proof (cases rule: index_cases [where c = c])
    case new
    then show ?thesis by (simp add: Channel_remove_def removeChannel_def poller_defs)
  next
    case added
    have "Channel_remove c p = Some p' \<Longrightarrow> poller_ok p'"
      by (rule change_ok [OF p, of p' c ?new None])
        (use added kernel_entry [OF p, of c] in \<open>auto simp: Channel_remove_def removeChannel_def poller_defs split: if_splits\<close>)
    then show ?thesis using added by (simp add: Channel_remove_def removeChannel_def poller_defs)
  next
    case deleted
    have "Channel_remove c p = Some p' \<Longrightarrow> poller_ok p'"
      by (rule change_ok [OF p, of p' c ?new None])
        (use deleted kernel_entry [OF p, of c] in \<open>auto simp: Channel_remove_def removeChannel_def poller_defs fun_upd_idem split: if_splits\<close>)
    then show ?thesis using deleted by (simp add: Channel_remove_def removeChannel_def poller_defs)
  qed
qed

lemma active_ok: "poller_ok p \<Longrightarrow> poller_ok (snd (fillActiveChannels evs p))"
proof (induction evs arbitrary: p)
  case (Cons x evs)
  obtain ep c where x: "x = (ep, c)" by fastforce
  let ?p = "set_chan c ((pl_chan p c)\<lparr>ch_revents := epollReventsToChannel ep\<rparr>) p"
  have "index_ok ?p" "kernel_view ?p = kernel_view p" using Cons.prems by (auto simp: poller_ok_def index_ok_def kernel_view_def fun_eq_iff split: option.split)
  then have "poller_ok ?p" using Cons.prems by (simp add: poller_ok_def)
  then show ?case using Cons.IH [of ?p] x by (simp add: fillActiveChannels_def)
qed (simp add: fillActiveChannels_def)

section \<open>Sequences of operations\<close>

datatype ChannelOp =
    EnableReading nat | DisableReading nat | EnableWriting nat | DisableWriting nat | DisableAll nat | RemoveChannel nat
  | PollEvents "(32 word \<times> nat) list"

fun channel_op :: "ChannelOp \<Rightarrow> Poller \<Rightarrow> Poller option" where
  "channel_op (EnableReading c) p = enableReading c p"
| "channel_op (DisableReading c) p = disableReading c p"
| "channel_op (EnableWriting c) p = enableWriting c p"
| "channel_op (DisableWriting c) p = disableWriting c p"
| "channel_op (DisableAll c) p = disableAll c p"
| "channel_op (RemoveChannel c) p = Channel_remove c p"
| "channel_op (PollEvents evs) p = Some (snd (fillActiveChannels evs p))"

abbreviation channel_ops :: "ChannelOp list \<Rightarrow> Poller \<Rightarrow> Poller option" where
  "channel_ops \<equiv> run_events channel_op"

text \<open>
  What the users of a channel must respect: no other channel has the descriptor in the loop, and a channel is taken
  out once, after it stopped watching.
\<close>

fun op_allowed :: "ChannelOp \<Rightarrow> Poller \<Rightarrow> bool" where
  "op_allowed (RemoveChannel c) p \<longleftrightarrow> isNoneEvent (pl_chan p c) \<and> hasChannel c p"
| "op_allowed (PollEvents evs) p \<longleftrightarrow> True"
| "op_allowed (EnableReading c) p \<longleftrightarrow> map_of (pl_channels p) (ch_fd (pl_chan p c)) = None \<or> hasChannel c p"
| "op_allowed (DisableReading c) p \<longleftrightarrow> map_of (pl_channels p) (ch_fd (pl_chan p c)) = None \<or> hasChannel c p"
| "op_allowed (EnableWriting c) p \<longleftrightarrow> map_of (pl_channels p) (ch_fd (pl_chan p c)) = None \<or> hasChannel c p"
| "op_allowed (DisableWriting c) p \<longleftrightarrow> map_of (pl_channels p) (ch_fd (pl_chan p c)) = None \<or> hasChannel c p"
| "op_allowed (DisableAll c) p \<longleftrightarrow> map_of (pl_channels p) (ch_fd (pl_chan p c)) = None \<or> hasChannel c p"

lemma channel_op_ok: "poller_ok p \<Longrightarrow> channel_op x p = Some p' \<Longrightarrow> poller_ok p'"
proof -
  assume p: "poller_ok p" "channel_op x p = Some p'"
  have "Channel_update ev c p = Some p' \<Longrightarrow> poller_ok p'" "Channel_remove c p = Some p' \<Longrightarrow> poller_ok p'" for ev c
    using update_ok [OF p(1), of ev c p'] remove_ok [OF p(1), of c p'] by simp_all
  then show "poller_ok p'"
    using p active_ok [OF p(1)]
    by (cases x) (simp_all add: enableReading_def disableReading_def enableWriting_def disableWriting_def disableAll_def, blast)
qed

lemma has_index: "poller_ok p \<Longrightarrow> hasChannel c p \<Longrightarrow> ch_index (pl_chan p c) \<noteq> kNew"
  by (auto simp: poller_ok_def index_ok_def hasChannel_def)

lemma channel_op_succeeds:
  assumes "poller_ok p" "op_allowed x p"
  shows "channel_op x p \<noteq> None"
proof -
  have u: "map_of (pl_channels p) (ch_fd (pl_chan p c)) = None \<or> hasChannel c p \<Longrightarrow> Channel_update ev c p \<noteq> None" for ev c
    using update_ok [OF assms(1), of ev c] has_index [OF assms(1), of c] by metis
  have r: "isNoneEvent (pl_chan p c) \<and> hasChannel c p \<Longrightarrow> Channel_remove c p \<noteq> None" for c
    using remove_ok [OF assms(1), of c] has_index [OF assms(1), of c] by metis
  show ?thesis
    using assms(2) u r
    by (cases x) (simp_all add: enableReading_def disableReading_def enableWriting_def disableWriting_def disableAll_def)
qed

interpretation channels: step_system channel_op poller_ok "\<lambda>_. True"
  by unfold_locales (rule channel_op_ok)

text \<open>
  C19. After any sequence of channel operations and events, the interest list of the kernel holds exactly the channels in
  the loop that are marked as added, with the events they watch, so every event reported belongs to a channel in the
  loop; no call of the kernel has failed; and every operation that its user may do passes the assertions.
\<close>

theorem poller_agrees_with_kernel:
  assumes "\<And>c. ch_index (chans c) = kNew" "channel_ops xs (new_Poller chans) = Some p"
  shows "pl_epoll p = kernel_view p \<and> pl_failed p = 0 \<and> (\<forall>fd ev c. pl_epoll p fd = Some (ev, c) \<longrightarrow> hasChannel c p \<and> ch_fd (pl_chan p c) = fd) \<and>
    (\<forall>x. op_allowed x p \<longrightarrow> channel_op x p \<noteq> None)"
proof -
  have ok: "poller_ok p" using channels.run_keeps [OF new_poller_ok [OF assms(1)] _ assms(2)] by simp
  then have k: "pl_epoll p = kernel_view p" "pl_failed p = 0" "index_ok p" by (simp_all add: poller_ok_def)
  have "pl_epoll p fd = Some (ev, c) \<Longrightarrow> hasChannel c p \<and> ch_fd (pl_chan p c) = fd" for fd ev c
    using k(3) unfolding k(1) by (auto simp: kernel_view_def index_ok_def hasChannel_def split: option.splits if_splits)
  then show ?thesis using k(1,2) channel_op_succeeds [OF ok] by blast
qed

definition ex_channels :: "ChannelOp list" where
  "ex_channels = [EnableReading 0, EnableReading 1, DisableAll 0, RemoveChannel 0]"

definition ex_poller :: "Poller option" where
  "ex_poller = channel_ops ex_channels (new_Poller (\<lambda>c. new_Channel (int c)))"

lemma ex_poller_run: "\<exists>p. ex_poller = Some p \<and> pl_epoll p 1 = Some (EPOLLIN OR EPOLLPRI OR EPOLLRDHUP, 1) \<and> op_allowed (EnableReading 0) p"
  by (simp add: ex_poller_def ex_channels_def new_Poller_def new_Channel_def enableReading_def disableAll_def Channel_remove_def removeChannel_def
      poller_defs channelEventsToEpoll_def kNoneEvent_def kReadEvent_def kWriteEvent_def std_map_erase_def)

theorem poller_agrees_with_kernel_witness:
  "\<exists>p. ex_poller = Some p \<and> pl_epoll p 1 = Some (EPOLLIN OR EPOLLPRI OR EPOLLRDHUP, 1) \<and> pl_epoll p = kernel_view p \<and>
    channel_op (EnableReading 0) p \<noteq> None"
proof -
  obtain p where p: "ex_poller = Some p" "pl_epoll p 1 = Some (EPOLLIN OR EPOLLPRI OR EPOLLRDHUP, 1)" "op_allowed (EnableReading 0) p"
    using ex_poller_run by blast
  have "\<And>c. ch_index (new_Channel (int c)) = kNew" by (simp add: new_Channel_def)
  from poller_agrees_with_kernel [OF this p(1) [unfolded ex_poller_def]] p show ?thesis by blast
qed

end
