(* ===== verification/Event_Loop.thy ===== *)
theory Event_Loop
  imports Step_Systems
begin

text \<open>
  The task queue of an event loop, \<^verbatim>\<open>network/EventLoop.cpp\<close>, as a state machine whose events are the steps of the thread of
  the loop (\<open>Start\<close> to \<open>Done\<close>), what callbacks and tasks do in that thread (\<open>OwnQueue\<close>, \<open>OwnQuit\<close>), and the steps of other threads.
  \<^verbatim>\<open>queueInLoop\<close> and \<^verbatim>\<open>quit\<close> called in another thread are two steps, the change under the lock and the write to the
  wake-up descriptor; \<open>lp_writers\<close> counts the threads between the two. The wake-up descriptor is its counter. \<open>lp_queued\<close> and
  \<open>lp_executed\<close> are the tasks queued and executed so far. An event that cannot happen in a state is \<open>None\<close>.
\<close>

section \<open>The loop\<close>

datatype LoopPc = Idle | Check | Polling | Handling | Running | FinalRun | Exited

record 'a EventLoop =
  lp_pc :: LoopPc
  lp_quit :: bool
  callingPendingTasks :: bool
  pendingTasks :: "'a list"
  lp_running :: "'a list"
  lp_wakeups :: nat
  lp_writers :: nat
  lp_queued :: "'a list"
  lp_executed :: "'a list"

definition new_EventLoop :: "'a EventLoop" where
  "new_EventLoop = \<lparr>lp_pc = Idle, lp_quit = False, callingPendingTasks = False, pendingTasks = [], lp_running = [], lp_wakeups = 0,
     lp_writers = 0, lp_queued = [], lp_executed = []\<rparr>"

datatype 'a LoopEvent =
    Start | CheckCondition | PollReturns | HandleWakeup | TakeTasks | RunTask | Done
  | OwnQueue 'a | OwnQuit
  | OtherQueue 'a | OtherQuit | OtherWakeup

definition loop_wakeup :: "'a EventLoop \<Rightarrow> 'a EventLoop" where
  "loop_wakeup s = s\<lparr>lp_wakeups := Suc (lp_wakeups s)\<rparr>"

text \<open>The part of \<^verbatim>\<open>queueInLoop\<close> under the lock, and whether it goes on to wake the loop.\<close>

definition push_task :: "'a \<Rightarrow> 'a EventLoop \<Rightarrow> 'a EventLoop" where
  "push_task t s = s\<lparr>pendingTasks := pendingTasks s @ [t], lp_queued := lp_queued s @ [t]\<rparr>"

definition needs_wakeup :: "bool \<Rightarrow> 'a EventLoop \<Rightarrow> bool" where
  "needs_wakeup in_loop s \<longleftrightarrow> \<not> in_loop \<or> callingPendingTasks s"

definition hasPendingTasks :: "'a EventLoop \<Rightarrow> bool" where
  "hasPendingTasks s \<longleftrightarrow> pendingTasks s \<noteq> []"

text \<open>Callbacks run while events are handled; tasks run one after the other, and the rest of a task may follow its removal.\<close>

definition in_callback :: "'a EventLoop \<Rightarrow> bool" where
  "in_callback s \<longleftrightarrow> lp_pc s = Handling \<or> (lp_pc s = Running \<or> lp_pc s = FinalRun) \<and> callingPendingTasks s"

fun loop_event :: "'a LoopEvent \<Rightarrow> 'a EventLoop \<Rightarrow> 'a EventLoop option" where
  "loop_event Start s = (if lp_pc s = Idle then Some (s\<lparr>lp_quit := False, lp_pc := Check\<rparr>) else None)"
| "loop_event CheckCondition s =
     (if lp_pc s = Check
      then Some (s\<lparr>lp_pc := if \<not> lp_quit s \<or> hasPendingTasks s then Polling else FinalRun\<rparr>) else None)"
| "loop_event PollReturns s = (if lp_pc s = Polling then Some (s\<lparr>lp_pc := Handling\<rparr>) else None)"
| "loop_event HandleWakeup s =
     (if lp_pc s = Handling \<and> 0 < lp_wakeups s then Some (s\<lparr>lp_wakeups := 0\<rparr>) else None)"
| "loop_event TakeTasks s =
     (if lp_pc s = Handling \<or> lp_pc s = FinalRun \<and> \<not> callingPendingTasks s
      then Some (s\<lparr>callingPendingTasks := True, lp_running := pendingTasks s, pendingTasks := [],
                  lp_pc := if lp_pc s = Handling then Running else FinalRun\<rparr>)
      else None)"
| "loop_event RunTask s =
     (if (lp_pc s = Running \<or> lp_pc s = FinalRun) \<and> callingPendingTasks s \<and> lp_running s \<noteq> []
      then Some (s\<lparr>lp_running := tl (lp_running s), lp_executed := lp_executed s @ [hd (lp_running s)]\<rparr>) else None)"
| "loop_event Done s =
     (if (lp_pc s = Running \<or> lp_pc s = FinalRun) \<and> callingPendingTasks s \<and> lp_running s = []
      then Some (s\<lparr>callingPendingTasks := False, lp_pc := if lp_pc s = Running then Check else Exited\<rparr>) else None)"
| "loop_event (OwnQueue t) s =
     (if in_callback s then Some (let s' = push_task t s in if needs_wakeup True s' then loop_wakeup s' else s') else None)"
| "loop_event OwnQuit s = (if in_callback s then Some (s\<lparr>lp_quit := True\<rparr>) else None)"
| "loop_event (OtherQueue t) s =
     Some (let s' = push_task t s in if needs_wakeup False s' then s'\<lparr>lp_writers := Suc (lp_writers s')\<rparr> else s')"
| "loop_event OtherQuit s = Some (s\<lparr>lp_quit := True, lp_writers := Suc (lp_writers s)\<rparr>)"
| "loop_event OtherWakeup s =
     (if 0 < lp_writers s then Some (loop_wakeup (s\<lparr>lp_writers := lp_writers s - 1\<rparr>)) else None)"

abbreviation loop_run :: "'a LoopEvent list \<Rightarrow> 'a EventLoop \<Rightarrow> 'a EventLoop option" where
  "loop_run \<equiv> run_events loop_event"

section \<open>Tasks run in order, and no wake-up is lost\<close>

definition wake_coming :: "'a EventLoop \<Rightarrow> bool" where
  "wake_coming s \<longleftrightarrow> 0 < lp_wakeups s \<or> 0 < lp_writers s"

definition loop_ok :: "'a EventLoop \<Rightarrow> bool" where
  "loop_ok s \<longleftrightarrow> lp_queued s = lp_executed s @ lp_running s @ pendingTasks s \<and>
     (lp_running s \<noteq> [] \<longrightarrow> callingPendingTasks s) \<and>
     (callingPendingTasks s \<longrightarrow> lp_pc s = Running \<or> lp_pc s = FinalRun) \<and>
     (lp_pc s \<noteq> Handling \<and> lp_pc s \<noteq> FinalRun \<and> lp_pc s \<noteq> Exited \<and> pendingTasks s \<noteq> [] \<longrightarrow> wake_coming s) \<and>
     (lp_pc s = Polling \<and> lp_quit s \<longrightarrow> wake_coming s)"

lemmas loop_defs = loop_ok_def wake_coming_def push_task_def needs_wakeup_def loop_wakeup_def in_callback_def hasPendingTasks_def Let_def

lemma loop_event_ok:
  assumes "loop_ok s" "loop_event e s = Some s'"
  shows "loop_ok s'"
proof (cases e)
  case RunTask
  with assms show ?thesis by (cases "lp_running s") (clarsimp simp: loop_defs split: if_splits)+
qed (use assms in \<open>clarsimp simp: loop_defs split: if_splits\<close>)+

interpretation tasks: step_system loop_event loop_ok "\<lambda>_. True"
  by unfold_locales (rule loop_event_ok)

text \<open>
  C16. In every state an event loop can reach, whatever other threads do: the tasks were executed in the order in which they
  were queued, each once, and the others are waiting in that order; and a loop that waits for events while tasks are
  pending or an exit is requested will be woken, by the wake-up descriptor or by a thread about to write it.
\<close>

theorem loop_runs_tasks_in_order:
  assumes "loop_run es new_EventLoop = Some s"
  shows "lp_queued s = lp_executed s @ lp_running s @ pendingTasks s \<and>
    (lp_pc s = Polling \<and> (pendingTasks s \<noteq> [] \<or> lp_quit s) \<longrightarrow> 0 < lp_wakeups s \<or> 0 < lp_writers s)"
proof -
  have "loop_ok new_EventLoop" by (simp add: loop_ok_def new_EventLoop_def)
  from tasks.run_keeps [OF this _ assms] show ?thesis by (auto simp: loop_ok_def wake_coming_def)
qed

definition ex_loop :: "nat LoopEvent list" where
  "ex_loop = [Start, CheckCondition, OtherQueue 7, OtherWakeup, PollReturns, HandleWakeup, OwnQueue 8, TakeTasks, RunTask,
     OwnQueue 9, RunTask, Done, CheckCondition]"

theorem loop_runs_tasks_in_order_witness:
  "\<exists>s. loop_run ex_loop new_EventLoop = Some s \<and> lp_executed s = [7, 8] \<and> pendingTasks s = [9] \<and> 0 < lp_wakeups s \<and>
    lp_queued s = [7, 8] @ lp_running s @ [9]"
proof -
  have "\<exists>s. loop_run ex_loop new_EventLoop = Some s \<and> lp_executed s = [7, 8] \<and> pendingTasks s = [9] \<and> 0 < lp_wakeups s"
    by (simp add: ex_loop_def new_EventLoop_def in_callback_def push_task_def needs_wakeup_def loop_wakeup_def hasPendingTasks_def Let_def)
  then obtain s where "loop_run ex_loop new_EventLoop = Some s" "lp_executed s = [7, 8]" "pendingTasks s = [9]" "0 < lp_wakeups s" by blast
  with loop_runs_tasks_in_order [of ex_loop s] show ?thesis by simp
qed

section \<open>Leaving the loop\<close>

definition quits :: "'a LoopEvent \<Rightarrow> bool" where
  "quits e \<longleftrightarrow> e = OwnQuit \<or> e = OtherQuit"

definition going_on :: "'a EventLoop \<Rightarrow> bool" where
  "going_on s \<longleftrightarrow> \<not> lp_quit s \<and> lp_pc s \<noteq> FinalRun \<and> lp_pc s \<noteq> Exited"

lemma no_quit_event: "going_on s \<Longrightarrow> \<not> quits e \<Longrightarrow> loop_event e s = Some s' \<Longrightarrow> going_on s'"
  by (cases e) (auto simp: going_on_def quits_def push_task_def needs_wakeup_def loop_wakeup_def Let_def split: if_splits)

interpretation endless: step_system loop_event going_on "\<lambda>e. \<not> quits e"
  by unfold_locales (rule no_quit_event)

text \<open>
  A request to quit that arrives before the loop was entered is forgotten: the loop is not left by any events that contain
  no further request.
\<close>

theorem loop_forgets_early_quit:
  assumes "loop_run (OtherQuit # Start # es) new_EventLoop = Some s" "\<forall>e \<in> set es. \<not> quits e"
  shows "lp_pc s \<noteq> Exited"
  using endless.run_keeps [OF _ assms(2), of "new_EventLoop\<lparr>lp_quit := False, lp_writers := 1, lp_pc := Check\<rparr>" s] assms(1)
  by (simp add: going_on_def new_EventLoop_def)

theorem loop_forgets_early_quit_witness:
  "\<exists>s. loop_run [OtherQuit, Start, OtherWakeup, CheckCondition, PollReturns, HandleWakeup, TakeTasks, Done, CheckCondition]
      (new_EventLoop :: nat EventLoop) = Some s \<and> lp_pc s = Polling \<and> lp_pc s \<noteq> Exited"
proof -
  let ?es = "[OtherWakeup, CheckCondition, PollReturns, HandleWakeup, TakeTasks, Done, CheckCondition] :: nat LoopEvent list"
  have "\<exists>s. loop_run (OtherQuit # Start # ?es) new_EventLoop = Some s \<and> lp_pc s = Polling"
    by (simp add: new_EventLoop_def loop_wakeup_def hasPendingTasks_def)
  then obtain s where "loop_run (OtherQuit # Start # ?es) new_EventLoop = Some s" "lp_pc s = Polling" by blast
  with loop_forgets_early_quit [of ?es s] show ?thesis by (simp add: quits_def)
qed

text \<open>Once the loop is left, the tasks not executed are those queued after the tasks of the last round were taken.\<close>

lemma exited_tasks:
  assumes "loop_run es new_EventLoop = Some s" "lp_pc s = Exited"
  shows "lp_queued s = lp_executed s @ pendingTasks s"
proof -
  have "loop_ok new_EventLoop" by (simp add: loop_ok_def new_EventLoop_def)
  from tasks.run_keeps [OF this _ assms(1)] assms(2) show ?thesis by (auto simp: loop_ok_def)
qed

end
