(* ===== verification/Config_Model.thy ===== *)
theory Config_Model
  imports Std_Containers
begin

text \<open>
  \<^verbatim>\<open>common/Config.cpp\<close>: the option table, the three sources with their priorities, configuration files,
  command line arguments, validation and the generated sample file. The members of the class are a map from the key
  of the option to its value; the in-class initialisers are \<open>member_defaults\<close>. Strings are bytes; the Chinese
  parts of the source are written as the bytes of their UTF-8 encoding. Taking \<^verbatim>\<open>front()\<close> of an empty string is
  undefined: \<open>None\<close>. A file that cannot be opened is absent.
\<close>

section \<open>Options\<close>

datatype CfgValue = StrV string | IntV int | BoolV bool

datatype ValueType = TString | TInt | TBool

datatype OptionSpec =
  OptionSpec (spec_key: string) (spec_group: string) (cli_flag: string) (spec_type: ValueType) (default_value: string) (description: string)

datatype Source = Default | ConfigFile | CommandLine

fun source_rank :: "Source \<Rightarrow> nat" where
  "source_rank Default = 0"
| "source_rank ConfigFile = 1"
| "source_rank CommandLine = 2"

record Config =
  cfg_values :: "string \<rightharpoonup> CfgValue"
  log_level_from_cli :: bool
  config_map :: "(string \<times> string) list"
  source_map :: "string \<rightharpoonup> Source"

definition utf8 :: "nat list \<Rightarrow> string" where
  "utf8 ns = map char_of ns"

definition member_defaults :: "(string \<times> CfgValue) list" where
  "member_defaults =
     [(''host'', StrV ''0.0.0.0''),
      (''port'', IntV 6379),
      (''max_connections'', IntV 1000),
      (''thread_pool_size'', IntV 4),
      (''data_dir'', StrV ''./data''),
      (''wal_dir'', StrV ''./data/wal''),
      (''snapshot_dir'', StrV ''./data/snapshot''),
      (''max_memory_mb'', IntV 1024),
      (''enable_wal'', BoolV True),
      (''enable_snapshot'', BoolV True),
      (''snapshot_interval_seconds'', IntV 3600),
      (''wal_sync_interval_ms'', IntV 100),
      (''max_wal_file_size_mb'', IntV 100),
      (''wal_async'', BoolV True),
      (''wal_max_queue'', IntV 100000),
      (''wal_flush_policy'', StrV ''periodic''),
      (''wal_group_commit_linger_ms'', IntV 2),
      (''wal_group_commit_max_mutations'', IntV 8192),
      (''wal_group_commit_max_bytes'', IntV 2097152),
      (''log_level'', StrV ''INFO''),
      (''log_file'', StrV ''./data/logs/sunkv.log''),
      (''log_strategy'', StrV ''fixed''),
      (''enable_console_log'', BoolV True),
      (''enable_periodic_stats_log'', BoolV False),
      (''stats_log_interval_seconds'', IntV 30),
      (''enable_slowlog'', BoolV False),
      (''slowlog_threshold_ms'', IntV 20),
      (''ttl_cleanup_interval_seconds'', IntV 5),
      (''max_ttl_seconds'', IntV (86400 * 30)),
      (''tcp_keepalive_seconds'', IntV 300),
      (''tcp_send_buffer_size'', IntV 65536),
      (''tcp_recv_buffer_size'', IntV 65536),
      (''max_conn_input_buffer_mb'', IntV 8),
      (''memory_pool_max_cached_blocks_per_size'', IntV 8)]"

definition specs :: "OptionSpec list" where
  "specs = [
     OptionSpec ''host'' ''network'' ''--host'' TString ''0.0.0.0''
       (''Server bind host''),
     OptionSpec ''port'' ''network'' ''--port'' TInt ''6379''
       (''Server port''),
     OptionSpec ''max_connections'' ''network'' ''--max-connections'' TInt ''1000''
       (''Max client connections''),
     OptionSpec ''thread_pool_size'' ''network'' ''--thread-pool-size'' TInt ''4''
       (''Worker thread count''),
     OptionSpec ''data_dir'' ''storage'' ''--data-dir'' TString ''./data''
       (''Data directory''),
     OptionSpec ''wal_dir'' ''storage'' ''--wal-dir'' TString ''./data/wal''
       (''WAL directory''),
     OptionSpec ''snapshot_dir'' ''storage'' ''--snapshot-dir'' TString ''./data/snapshot''
       (''Snapshot directory''),
     OptionSpec ''max_memory_mb'' ''storage'' ''--max-memory-mb'' TInt ''1024''
       (''Max memory (MB)''),
     OptionSpec ''enable_wal'' ''persistence'' ''--enable-wal'' TBool ''true''
       (''Enable WAL''),
     OptionSpec ''enable_snapshot'' ''persistence'' ''--enable-snapshot'' TBool ''true''
       (''Enable snapshot''),
     OptionSpec ''snapshot_interval_seconds'' ''persistence'' ''--snapshot-interval-seconds'' TInt ''3600''
       (''Snapshot interval (seconds)''),
     OptionSpec ''wal_sync_interval_ms'' ''persistence'' ''--wal-sync-interval-ms'' TInt ''100''
       (''WAL sync interval (ms)''),
     OptionSpec ''max_wal_file_size_mb'' ''persistence'' ''--max-wal-file-size-mb'' TInt ''100''
       (''Max WAL file size (MB)''),
     OptionSpec ''wal_async'' ''persistence'' ''--wal-async'' TBool ''true''
       (''Async WAL submit queue''),
     OptionSpec ''wal_max_queue'' ''persistence'' ''--wal-max-queue'' TInt ''100000''
       (''Max WAL async queue depth (batches)''),
     OptionSpec ''wal_flush_policy'' ''persistence'' ''--wal-flush-policy'' TString ''periodic''
       (''never|always|periodic''),
     OptionSpec ''wal_group_commit_linger_ms'' ''persistence'' ''--wal-group-commit-linger-ms'' TInt ''2''
       (''WAL group commit linger (ms)''),
     OptionSpec ''wal_group_commit_max_mutations'' ''persistence'' ''--wal-group-commit-max-mutations'' TInt ''8192''
       (''WAL group max mutations per write''),
     OptionSpec ''wal_group_commit_max_bytes'' ''persistence'' ''--wal-group-commit-max-bytes'' TInt ''2097152''
       (''WAL group max encoded bytes per write''),
     OptionSpec ''log_level'' ''logging'' ''--log-level'' TString ''INFO''
       (''DEBUG|INFO|WARN|ERROR (Debug '' @ utf8 [230, 158, 132, 229, 187, 186, 230, 156, 170, 230, 140, 135, 229, 174, 154, 230, 151, 182, 233, 187, 152, 232, 174, 164, 228, 184, 186] @ '' DEBUG)''),
     OptionSpec ''log_file'' ''logging'' ''--log-file'' TString ''./data/logs/sunkv.log''
       (''Log file path''),
     OptionSpec ''log_strategy'' ''logging'' ''--log-strategy'' TString ''fixed''
       (''fixed|per_run|daily''),
     OptionSpec ''enable_console_log'' ''logging'' ''--enable-console-log'' TBool ''true''
       (''Enable console log''),
     OptionSpec ''enable_periodic_stats_log'' ''logging'' ''--enable-periodic-stats-log'' TBool ''false''
       (''Enable periodic stats log''),
     OptionSpec ''stats_log_interval_seconds'' ''logging'' ''--stats-log-interval'' TInt ''30''
       (''Stats log interval (seconds)''),
     OptionSpec ''enable_slowlog'' ''logging'' ''--enable-slowlog'' TBool ''false''
       (''Enable structured slow command log''),
     OptionSpec ''slowlog_threshold_ms'' ''logging'' ''--slowlog-threshold-ms'' TInt ''20''
       (''Slow command threshold in milliseconds''),
     OptionSpec ''ttl_cleanup_interval_seconds'' ''ttl'' ''--ttl-cleanup-interval-seconds'' TInt ''5''
       (''TTL cleanup interval (seconds)''),
     OptionSpec ''max_ttl_seconds'' ''ttl'' ''--max-ttl-seconds'' TInt ''2592000''
       (''Max TTL (seconds)''),
     OptionSpec ''tcp_keepalive_seconds'' ''performance'' ''--tcp-keepalive-seconds'' TInt ''300''
       (''TCP keepalive seconds''),
     OptionSpec ''tcp_send_buffer_size'' ''performance'' ''--tcp-send-buffer-size'' TInt ''65536''
       (''TCP send buffer size (bytes)''),
     OptionSpec ''tcp_recv_buffer_size'' ''performance'' ''--tcp-recv-buffer-size'' TInt ''65536''
       (''TCP recv buffer size (bytes)''),
     OptionSpec ''max_conn_input_buffer_mb'' ''performance'' ''--max-conn-input-buffer-mb'' TInt ''8''
       (''Per-connection input buffer cap (MB)''),
     OptionSpec ''memory_pool_max_cached_blocks_per_size'' ''performance'' ''--memory-pool-max-cached-blocks-per-size'' TInt ''8''
       (''ThreadLocalBufferPool max cached blocks per size class'')]"

section \<open>Reading values\<close>

definition trim :: "string \<Rightarrow> string" where
  "trim s = rev (dropWhile is_space (rev (dropWhile is_space s)))"

definition tolower :: "char \<Rightarrow> char" where
  "tolower c = (if 65 \<le> (of_char c :: nat) \<and> (of_char c :: nat) \<le> 90 then char_of (of_char c + (32 :: nat)) else c)"

definition lower :: "string \<Rightarrow> string" where
  "lower s = map tolower s"

definition parseBoolLoose :: "string \<Rightarrow> bool option" where
  "parseBoolLoose raw =
     (let s = lower (trim raw) in
      if s = ''true'' \<or> s = ''1'' \<or> s = ''yes'' \<or> s = ''on'' then Some True
      else if s = ''false'' \<or> s = ''0'' \<or> s = ''no'' \<or> s = ''off'' then Some False
      else None)"

text \<open>\<^verbatim>\<open>std::stoi\<close>: the value and the number of characters read; it throws without digits and out of range.\<close>

definition in_i32 :: "int \<Rightarrow> bool" where
  "in_i32 x \<longleftrightarrow> -2147483648 \<le> x \<and> x \<le> 2147483647"

definition stoi :: "string \<Rightarrow> (int \<times> nat) option" where
  "stoi str =
     (let s = dropWhile is_space str; negative = (s \<noteq> [] \<and> hd s = CHR ''-'');
          u = (if s \<noteq> [] \<and> (hd s = CHR ''-'' \<or> hd s = CHR ''+'') then tl s else s);
          ds = takeWhile is_digit u; v = (if negative then - int (digits_value ds) else int (digits_value ds))
      in if ds = [] \<or> \<not> in_i32 v then None else Some (v, length str - length u + length ds))"

definition parseIntLoose :: "string \<Rightarrow> int option" where
  "parseIntLoose raw =
     (let s = trim raw in case stoi s of None \<Rightarrow> None | Some (v, idx) \<Rightarrow> if idx \<noteq> length s then None else Some v)"

fun parse_value :: "ValueType \<Rightarrow> string \<Rightarrow> CfgValue option" where
  "parse_value TString v = Some (StrV v)"
| "parse_value TInt v = map_option IntV (parseIntLoose v)"
| "parse_value TBool v = map_option BoolV (parseBoolLoose v)"

fun show_value :: "CfgValue \<Rightarrow> string" where
  "show_value (StrV s) = s"
| "show_value (IntV i) = int_to_string i"
| "show_value (BoolV b) = (if b then ''true'' else ''false'')"

definition get_as_string :: "OptionSpec \<Rightarrow> Config \<Rightarrow> string" where
  "get_as_string sp c = (case cfg_values c (spec_key sp) of None \<Rightarrow> [] | Some v \<Rightarrow> show_value v)"

section \<open>Setting options\<close>

definition specByKey :: "string \<Rightarrow> OptionSpec option" where
  "specByKey key = find (\<lambda>sp. spec_key sp = key) specs"

definition specByFlag :: "string \<Rightarrow> OptionSpec option" where
  "specByFlag flag = find (\<lambda>sp. cli_flag sp \<noteq> [] \<and> cli_flag sp = flag) specs"

definition setFromKeyValue :: "string \<Rightarrow> string \<Rightarrow> Source \<Rightarrow> Config \<Rightarrow> bool \<times> Config" where
  "setFromKeyValue key val src c = (case specByKey key of
      None \<Rightarrow> (False, c)
    | Some sp \<Rightarrow>
        if (case source_map c key of None \<Rightarrow> False | Some old \<Rightarrow> source_rank src < source_rank old) then (True, c)
        else (case parse_value (spec_type sp) val of
            None \<Rightarrow> (False, c)
          | Some x \<Rightarrow> (True, c\<lparr>cfg_values := (cfg_values c)(key \<mapsto> x), source_map := (source_map c)(key \<mapsto> src)\<rparr>)))"

definition set_all :: "Source \<Rightarrow> (string \<times> string) list \<Rightarrow> Config \<Rightarrow> Config" where
  "set_all src kvs c = fold (\<lambda>(k, v) c. snd (setFromKeyValue k v src c)) kvs c"

definition new_Config :: Config where
  "new_Config = \<lparr>cfg_values = map_of member_defaults, log_level_from_cli = False, config_map = [], source_map = Map.empty\<rparr>"

definition initSchemaDefaults :: "Config \<Rightarrow> Config" where
  "initSchemaDefaults c = set_all Default (map (\<lambda>sp. (spec_key sp, default_value sp)) specs) c"

text \<open>\<^verbatim>\<open>Config::getInstance()\<close> the first time.\<close>

definition getInstance :: Config where
  "getInstance = initSchemaDefaults new_Config"

section \<open>Files\<close>

definition is_blank :: "char \<Rightarrow> bool" where
  "is_blank c \<longleftrightarrow> c = CHR '' '' \<or> c = CHR 0x09"

definition trim_blanks :: "string \<Rightarrow> string" where
  "trim_blanks s = rev (dropWhile is_blank (rev (dropWhile is_blank s)))"

definition unquote :: "string \<Rightarrow> string option" where
  "unquote v =
     (if v = [] then None
      else if (hd v = CHR 0x22 \<and> last v = CHR 0x22) \<or> (hd v = CHR 0x27 \<and> last v = CHR 0x27)
      then Some (if length v = 1 then [] else take (length v - 2) (tl v))
      else Some v)"

definition Config_parseLine :: "string \<Rightarrow> Config \<Rightarrow> Config option" where
  "Config_parseLine line c =
     (if CHR ''='' \<notin> set line then Some c
      else let key = trim_blanks (takeWhile (\<lambda>x. x \<noteq> CHR ''='') line);
               val = trim_blanks (tl (dropWhile (\<lambda>x. x \<noteq> CHR ''='') line))
        in map_option (\<lambda>v. c\<lparr>config_map := std_map_assign key v (config_map c)\<rparr>) (unquote val))"

text \<open>\<^verbatim>\<open>std::getline\<close>: the parts between line feeds, without an empty one at the end.\<close>

fun split_lines :: "string \<Rightarrow> string \<Rightarrow> string list" where
  "split_lines [] cur = (if cur = [] then [] else [cur])"
| "split_lines (c # s) cur = (if c = CHR 0x0A then cur # split_lines s [] else split_lines s (cur @ [c]))"

definition skip_line :: "string \<Rightarrow> bool" where
  "skip_line line \<longleftrightarrow> line = [] \<or> hd line = CHR ''#'' \<or> hd line = CHR '';''"

fun parse_lines :: "string list \<Rightarrow> Config \<Rightarrow> Config option" where
  "parse_lines [] c = Some c"
| "parse_lines (l # ls) c =
     (if skip_line l then parse_lines ls c
      else case Config_parseLine l c of None \<Rightarrow> None | Some c \<Rightarrow> parse_lines ls c)"

definition Config_loadFromFile :: "string option \<Rightarrow> Config \<Rightarrow> (bool \<times> Config) option" where
  "Config_loadFromFile file c = (case file of
      None \<Rightarrow> Some (False, c)
    | Some content \<Rightarrow> (case parse_lines (split_lines content []) c of
          None \<Rightarrow> None
        | Some c \<Rightarrow> Some (True, set_all ConfigFile (config_map c) c)))"

definition sample_header :: "string list" where
  "sample_header = [''# SunKV Configuration File'',
     ''# NOTE: '' @ utf8 [232, 175, 165, 233, 133, 141, 231, 189, 174, 230, 150, 135, 228, 187, 182, 232, 175, 173, 228, 185, 137, 230, 152, 175, 226, 128, 156, 230, 137, 129, 229, 185, 179] @ '' key=value'' @ utf8 [226, 128, 157, 227, 128, 130, 232, 191, 153, 233, 135, 140, 231, 154, 132, 229, 136, 134, 231, 187, 132, 228, 187, 133, 231, 148, 168, 228, 186, 142, 233, 152, 133, 232, 175, 187, 227, 128, 130],
     ''#       CLI '' @ utf8 [228, 188, 152, 229, 133, 136, 231, 186, 167, 233, 171, 152, 228, 186, 142, 233, 133, 141, 231, 189, 174, 230, 150, 135, 228, 187, 182, 239, 188, 155, 233, 133, 141, 231, 189, 174, 230, 150, 135, 228, 187, 182, 228, 188, 152, 229, 133, 136, 231, 186, 167, 233, 171, 152, 228, 186, 142, 229, 134, 133, 231, 189, 174, 233, 187, 152, 232, 174, 164, 229, 128, 188, 227, 128, 130],
     ''# Generated automatically'', []]"

fun sample_lines :: "OptionSpec list \<Rightarrow> string \<Rightarrow> Config \<Rightarrow> string list" where
  "sample_lines [] last_group c = [[]]"
| "sample_lines (sp # sps) last_group c =
     (if spec_group sp \<noteq> last_group then [[], ''# ['' @ spec_group sp @ '']''] else []) @
     [''# '' @ description sp @ '' (default: '' @ default_value sp @ '')'',
      spec_key sp @ '' = '' @ get_as_string sp c] @ sample_lines sps (spec_group sp) c"

definition generateSampleConfig :: "Config \<Rightarrow> string" where
  "generateSampleConfig c = concat (map (\<lambda>l. l @ [CHR 0x0A]) (sample_header @ sample_lines specs [] c))"

text \<open>Saving writes the sample file, unless it cannot be created: the result and the file.\<close>

definition saveToFile :: "bool \<Rightarrow> Config \<Rightarrow> bool \<times> string option" where
  "saveToFile can_create c = (if can_create then (True, Some (generateSampleConfig c)) else (False, None))"

fun source_name :: "Source \<Rightarrow> string" where
  "source_name Default = ''default''"
| "source_name ConfigFile = ''file''"
| "source_name CommandLine = ''cli''"

fun effective_lines :: "OptionSpec list \<Rightarrow> string \<Rightarrow> Config \<Rightarrow> string list" where
  "effective_lines [] last_group c = [[]]"
| "effective_lines (sp # sps) last_group c =
     (if spec_group sp \<noteq> last_group then [[], ''['' @ spec_group sp @ '']''] else []) @
     [spec_key sp @ '' = '' @ get_as_string sp c @ ''    ('' @
        source_name (case source_map c (spec_key sp) of None \<Rightarrow> Default | Some src \<Rightarrow> src) @ '')''] @ effective_lines sps (spec_group sp) c"

definition dumpEffectiveConfigWithSource :: "Config \<Rightarrow> string" where
  "dumpEffectiveConfigWithSource c = concat (map (\<lambda>l. l @ [CHR 0x0A]) (''=== Effective config ==='' # effective_lines specs [] c))"

section \<open>Command line\<close>

datatype LoadArgsResult = ArgsOk | ShowHelp | ArgsError

fun find_config :: "string list \<Rightarrow> string \<Rightarrow> string" where
  "find_config (a # v # args) path = (if a = ''--config'' then find_config args v else find_config (v # args) path)"
| "find_config _ path = path"

fun apply_args :: "string list \<Rightarrow> Config \<Rightarrow> LoadArgsResult \<times> Config" where
  "apply_args [] c = (ArgsOk, c)"
| "apply_args (a # args) c =
     (if a = ''--config'' \<and> args \<noteq> [] then apply_args (drop 1 args) c
      else if a = ''--help'' then (ShowHelp, c)
      else case specByFlag a of
          None \<Rightarrow> apply_args args c
        | Some sp \<Rightarrow>
            if args = [] then (ArgsError, c)
            else let c = snd (setFromKeyValue (spec_key sp) (hd args) CommandLine c);
                     c = (if spec_key sp = ''log_level'' then c\<lparr>log_level_from_cli := True\<rparr> else c)
              in apply_args (drop 1 args) c)"

definition loadFromArgs :: "(string \<Rightarrow> string option) \<Rightarrow> string list \<Rightarrow> Config \<Rightarrow> (LoadArgsResult \<times> Config) option" where
  "loadFromArgs fs args c =
     (let path = find_config args [] in
      if path = [] then Some (apply_args args c)
      else case Config_loadFromFile (fs path) c of
          None \<Rightarrow> None
        | Some (ok, c) \<Rightarrow> Some (if ok then apply_args args c else (ArgsError, c)))"

definition applyBuildDefaults :: "bool \<Rightarrow> Config \<Rightarrow> Config" where
  "applyBuildDefaults ndebug c =
     (if ndebug then c
      else let has_user_value = (case source_map c ''log_level'' of None \<Rightarrow> False | Some src \<Rightarrow> src \<noteq> Default)
        in if \<not> has_user_value \<and> \<not> log_level_from_cli c then snd (setFromKeyValue ''log_level'' ''DEBUG'' Default c) else c)"

section \<open>Untyped access and validation\<close>

definition getString :: "string \<Rightarrow> string \<Rightarrow> Config \<Rightarrow> string" where
  "getString key d c = (case map_of (config_map c) key of None \<Rightarrow> d | Some v \<Rightarrow> v)"

definition getInt :: "string \<Rightarrow> int \<Rightarrow> Config \<Rightarrow> int" where
  "getInt key d c = (case map_of (config_map c) key of
      None \<Rightarrow> d
    | Some v \<Rightarrow> (case stoi v of None \<Rightarrow> d | Some (x, idx) \<Rightarrow> x))"

definition getBool :: "string \<Rightarrow> bool \<Rightarrow> Config \<Rightarrow> bool" where
  "getBool key d c = (case map_of (config_map c) key of
      None \<Rightarrow> d
    | Some v \<Rightarrow> lower v = ''true'' \<or> lower v = ''1'' \<or> lower v = ''yes'' \<or> lower v = ''on'')"

definition setString :: "string \<Rightarrow> string \<Rightarrow> Config \<Rightarrow> Config" where
  "setString key v c = c\<lparr>config_map := std_map_assign key v (config_map c)\<rparr>"

definition setInt :: "string \<Rightarrow> int \<Rightarrow> Config \<Rightarrow> Config" where
  "setInt key v c = setString key (int_to_string v) c"

definition setBool :: "string \<Rightarrow> bool \<Rightarrow> Config \<Rightarrow> Config" where
  "setBool key v c = setString key (if v then ''true'' else ''false'') c"

definition int_of :: "string \<Rightarrow> Config \<Rightarrow> int" where
  "int_of key c = (case cfg_values c key of Some (IntV i) \<Rightarrow> i | _ \<Rightarrow> 0)"

definition bool_of :: "string \<Rightarrow> Config \<Rightarrow> bool" where
  "bool_of key c = (case cfg_values c key of Some (BoolV b) \<Rightarrow> b | _ \<Rightarrow> False)"

definition str_of :: "string \<Rightarrow> Config \<Rightarrow> string" where
  "str_of key c = (case cfg_values c key of Some (StrV s) \<Rightarrow> s | _ \<Rightarrow> [])"

definition validate :: "Config \<Rightarrow> bool" where
  "validate c \<longleftrightarrow>
     \<not> (int_of ''port'' c \<le> 0 \<or> int_of ''port'' c > 65535) \<and>
     \<not> int_of ''max_connections'' c < 0 \<and>
     \<not> int_of ''thread_pool_size'' c \<le> 0 \<and>
     \<not> int_of ''max_memory_mb'' c < 0 \<and>
     \<not> (bool_of ''enable_snapshot'' c \<and> int_of ''snapshot_interval_seconds'' c \<le> 0) \<and>
     \<not> (bool_of ''enable_periodic_stats_log'' c \<and> int_of ''stats_log_interval_seconds'' c \<le> 0) \<and>
     \<not> int_of ''slowlog_threshold_ms'' c < 0 \<and>
     \<not> int_of ''ttl_cleanup_interval_seconds'' c \<le> 0 \<and>
     \<not> int_of ''max_ttl_seconds'' c \<le> 0 \<and>
     \<not> int_of ''wal_max_queue'' c < 0 \<and>
     \<not> int_of ''wal_group_commit_linger_ms'' c < 0 \<and>
     \<not> int_of ''wal_group_commit_max_mutations'' c \<le> 0 \<and>
     \<not> int_of ''wal_group_commit_max_bytes'' c \<le> 0 \<and>
     \<not> int_of ''max_wal_file_size_mb'' c < 0 \<and>
     (let p = lower (trim (str_of ''wal_flush_policy'' c)) in p = ''never'' \<or> p = ''always'' \<or> p = ''periodic'') \<and>
     \<not> int_of ''max_conn_input_buffer_mb'' c \<le> 0 \<and>
     \<not> int_of ''memory_pool_max_cached_blocks_per_size'' c \<le> 0"

end
