(* ===== verification/Config_Props.thy ===== *)
theory Config_Props
  imports Config_Model
begin

text \<open>
  The configuration: which source decides the value of an option, and that the sample file written for a
  configuration reads back as that configuration.
\<close>

section \<open>Setting many options\<close>

text \<open>The value of the last setting of an option that can be read, the reference for a sequence of settings.\<close>

fun or_else :: "'a option \<Rightarrow> 'a option \<Rightarrow> 'a option" where
  "or_else None y = y"
| "or_else (Some x) y = Some x"

definition read_setting :: "string \<Rightarrow> string \<times> string \<Rightarrow> CfgValue option" where
  "read_setting key kv =
     (if fst kv \<noteq> key then None else case specByKey key of None \<Rightarrow> None | Some sp \<Rightarrow> parse_value (spec_type sp) (snd kv))"

fun last_valid :: "string \<Rightarrow> (string \<times> string) list \<Rightarrow> CfgValue option" where
  "last_valid key [] = None"
| "last_valid key (kv # kvs) = or_else (last_valid key kvs) (read_setting key kv)"

definition sources_upto :: "nat \<Rightarrow> Config \<Rightarrow> bool" where
  "sources_upto n c \<longleftrightarrow> (\<forall>k src. source_map c k = Some src \<longrightarrow> source_rank src \<le> n)"

lemma set_one:
  assumes "sources_upto (source_rank src) c"
  shows "cfg_values (snd (setFromKeyValue k v src c)) key =
      or_else (read_setting key (k, v)) (cfg_values c key)"
    and "sources_upto (source_rank src) (snd (setFromKeyValue k v src c))"
proof -
  have "\<not> (case source_map c k of None \<Rightarrow> False | Some old \<Rightarrow> source_rank src < source_rank old)"
    using assms by (auto simp: sources_upto_def not_less split: option.split)
  then show "cfg_values (snd (setFromKeyValue k v src c)) key = or_else (read_setting key (k, v)) (cfg_values c key)"
      "sources_upto (source_rank src) (snd (setFromKeyValue k v src c))"
    using assms by (auto simp: setFromKeyValue_def read_setting_def sources_upto_def split: option.split)
qed

lemma or_else_assoc [simp]: "or_else (or_else x y) z = or_else x (or_else y z)"
  by (cases x) simp_all

lemma or_else_same [simp]: "or_else x x = x" "or_else x None = x"
  by (cases x; simp)+

lemma set_all_simps [simp]: "set_all src [] c = c" "set_all src ((k, v) # kvs) c = set_all src kvs (snd (setFromKeyValue k v src c))"
  by (simp_all add: set_all_def)

lemma set_all_values:
  "sources_upto (source_rank src) c \<Longrightarrow>
    cfg_values (set_all src kvs c) key = or_else (last_valid key kvs) (cfg_values c key) \<and>
    sources_upto (source_rank src) (set_all src kvs c)"
proof (induction kvs arbitrary: c)
  case (Cons kv kvs)
  obtain k v where kv: "kv = (k, v)" by fastforce
  with Cons.IH [OF set_one(2) [OF Cons.prems]] set_one(1) [OF Cons.prems] show ?case by simp
qed simp

section \<open>The defaults\<close>

lemmas parse_simps = parseIntLoose_def trim_def is_space_def stoi_def is_digit_def digits_value_def digit_val_def in_i32_def
  parseBoolLoose_def lower_def tolower_def

lemma defaults_listed:
  "map (\<lambda>sp. (spec_key sp, parse_value (spec_type sp) (default_value sp))) specs = map (\<lambda>(k, v). (k, Some v)) member_defaults"
  by (simp add: specs_def member_defaults_def parse_simps)

lemma distinct_keys: "distinct (map fst member_defaults)" "distinct (map spec_key specs)"
proof -
  show d: "distinct (map fst member_defaults)" by (simp add: member_defaults_def)
  have "map spec_key specs = map fst member_defaults" by (simp add: specs_def member_defaults_def)
  with d show "distinct (map spec_key specs)" by metis
qed

lemma find_distinct: "distinct (map f xs) \<Longrightarrow> x \<in> set xs \<Longrightarrow> find (\<lambda>y. f y = f x) xs = Some x"
  by (induction xs) auto

lemma spec_of_key: "sp \<in> set specs \<Longrightarrow> specByKey (spec_key sp) = Some sp"
  using find_distinct [OF distinct_keys(2)] by (simp add: specByKey_def)

lemma default_of: "sp \<in> set specs \<Longrightarrow> map_of member_defaults (spec_key sp) = parse_value (spec_type sp) (default_value sp)"
proof -
  assume "sp \<in> set specs"
  then have "(spec_key sp, parse_value (spec_type sp) (default_value sp)) \<in> set (map (\<lambda>(k, v). (k, Some v)) member_defaults)"
    using defaults_listed by (metis (no_types, lifting) image_eqI list.set_map)
  then show ?thesis using distinct_keys(1) by (auto dest: map_of_is_SomeI)
qed

lemma last_valid_agree:
  assumes "\<forall>kv \<in> set kvs. read_setting key kv = None \<or> read_setting key kv = m key"
  shows "last_valid key kvs = None \<or> last_valid key kvs = m key"
  using assms
proof (induction kvs)
  case (Cons kv kvs)
  then show ?case by (cases "last_valid key kvs") auto
qed simp

lemma getInstance_values: "cfg_values getInstance = map_of member_defaults" "sources_upto 0 getInstance" "config_map getInstance = []"
proof -
  let ?d = "map (\<lambda>sp. (spec_key sp, default_value sp)) specs"
  have s: "sources_upto (source_rank Default) new_Config" by (simp add: sources_upto_def new_Config_def)
  have nv: "cfg_values new_Config = map_of member_defaults" by (simp add: new_Config_def)
  have lv: "last_valid key ?d = None \<or> last_valid key ?d = map_of member_defaults key" for key
    by (rule last_valid_agree) (auto simp: read_setting_def spec_of_key default_of)
  have "cfg_values getInstance key = or_else (last_valid key ?d) (map_of member_defaults key)" for key
    using set_all_values [OF s, of ?d key] nv by (simp add: getInstance_def initSchemaDefaults_def)
  then have "cfg_values getInstance key = map_of member_defaults key" for key
    using lv [of key] by (metis or_else.simps(1) or_else_same(1))
  then show "cfg_values getInstance = map_of member_defaults" by (simp add: fun_eq_iff)
  show "sources_upto 0 getInstance" using set_all_values [OF s, of ?d] by (simp add: getInstance_def initSchemaDefaults_def)
  have "config_map (set_all src kvs c) = config_map c" for src kvs c
    by (induction kvs arbitrary: c) (auto simp: setFromKeyValue_def split: option.split)
  then show "config_map getInstance = []" by (simp add: getInstance_def initSchemaDefaults_def new_Config_def)
qed

section \<open>Precedence\<close>

fun cli_settings :: "string list \<Rightarrow> (string \<times> string) list" where
  "cli_settings [] = []"
| "cli_settings (a # args) =
     (if a = ''--config'' \<and> args \<noteq> [] then cli_settings (drop 1 args)
      else case specByFlag a of
          None \<Rightarrow> cli_settings args
        | Some sp \<Rightarrow> if args = [] then [] else (spec_key sp, hd args) # cli_settings (drop 1 args))"

definition file_settings :: "(string \<Rightarrow> string option) \<Rightarrow> string list \<Rightarrow> Config \<Rightarrow> (string \<times> string) list" where
  "file_settings fs args c = (let path = find_config args [] in
     if path = [] then [] else case fs path of
       None \<Rightarrow> []
     | Some content \<Rightarrow> (case parse_lines (split_lines content []) c of None \<Rightarrow> [] | Some c \<Rightarrow> config_map c))"

lemma set_log_flag [simp]: "cfg_values (set_all src kvs (c\<lparr>log_level_from_cli := b\<rparr>)) = cfg_values (set_all src kvs c)"
proof -
  have one: "snd (setFromKeyValue k v src (c\<lparr>log_level_from_cli := b\<rparr>)) = (snd (setFromKeyValue k v src c))\<lparr>log_level_from_cli := b\<rparr>" for k v c
    by (simp add: setFromKeyValue_def split: option.split)
  have "set_all src kvs (c\<lparr>log_level_from_cli := b\<rparr>) = (set_all src kvs c)\<lparr>log_level_from_cli := b\<rparr>"
    by (induction kvs arbitrary: c) (auto simp: one)
  then show ?thesis by simp
qed

lemma apply_args_settings:
  "fst (apply_args args c) = ArgsOk \<Longrightarrow> cfg_values (snd (apply_args args c)) = cfg_values (set_all CommandLine (cli_settings args) c)"
proof (induction args arbitrary: c rule: cli_settings.induct)
  case (2 a args)
  show ?case
  proof (cases "a = ''--config'' \<and> args \<noteq> []")
    case True
    then show ?thesis using 2 by simp
  next
    case False
    then show ?thesis using 2(2,3) [OF False] 2(4) False
      by (cases "specByFlag a") (auto simp: Let_def split: if_splits)
  qed
qed simp

lemma parse_lines_keeps: "parse_lines ls c = Some c' \<Longrightarrow> cfg_values c' = cfg_values c \<and> source_map c' = source_map c"
  by (induction ls arbitrary: c) (auto simp: Config_parseLine_def Let_def split: if_splits option.splits)

text \<open>
  C22. A successful start determines the value of every option: the last command line setting of it that can
  be read, else the configuration file's if it can be read, else the built-in default.
\<close>

theorem config_precedence:
  assumes "loadFromArgs fs args getInstance = Some (ArgsOk, c)"
  shows "cfg_values c key =
    or_else (last_valid key (cli_settings args)) (or_else (last_valid key (file_settings fs args getInstance)) (map_of member_defaults key))"
proof -
  obtain c1 where c1: "apply_args args c1 = (ArgsOk, c)"
      "cfg_values c1 key = or_else (last_valid key (file_settings fs args getInstance)) (map_of member_defaults key)"
      "sources_upto 2 c1"
  proof (cases "find_config args [] = []")
    case True
    then show ?thesis using assms that [of getInstance] getInstance_values
      by (auto simp: loadFromArgs_def file_settings_def sources_upto_def)
  next
    case False
    then obtain content cf where f: "fs (find_config args []) = Some content" "parse_lines (split_lines content []) getInstance = Some cf"
        "apply_args args (set_all ConfigFile (config_map cf) cf) = (ArgsOk, c)"
      using assms by (auto simp: loadFromArgs_def Config_loadFromFile_def Let_def split: option.splits if_splits)
    have "sources_upto (source_rank ConfigFile) cf" "cfg_values cf = map_of member_defaults"
      using parse_lines_keeps [OF f(2)] getInstance_values by (auto simp: sources_upto_def)
    note cf = this
    have "cfg_values (set_all ConfigFile (config_map cf) cf) key =
        or_else (last_valid key (config_map cf)) (map_of member_defaults key)"
      using set_all_values [OF cf(1), of "config_map cf" key] cf(2) by simp
    moreover have "sources_upto 2 (set_all ConfigFile (config_map cf) cf)"
      using set_all_values [OF cf(1), of "config_map cf"] by (force simp: sources_upto_def)
    ultimately show ?thesis using f False that [of "set_all ConfigFile (config_map cf) cf"] by (simp add: file_settings_def)
  qed
  then show ?thesis
    using apply_args_settings [of args c1] set_all_values [of CommandLine c1 "cli_settings args" key] by (simp add: sources_upto_def)
qed

lemma apply_args_result: "fst (apply_args args c) = fst (apply_args args c')"
proof (induction args arbitrary: c c' rule: cli_settings.induct)
  case (2 a args)
  then show ?case by (cases "specByFlag a") (auto simp: Let_def)
qed simp

lemma port_flag: "specByFlag ''--port'' = Some (OptionSpec ''port'' ''network'' ''--port'' TInt ''6379'' ''Server port'')"
  by (simp add: specByFlag_def specs_def)

lemma port_key: "specByKey ''port'' = Some (OptionSpec ''port'' ''network'' ''--port'' TInt ''6379'' ''Server port'')"
  by (simp add: specByKey_def specs_def)

theorem config_precedence_witness:
  "\<exists>c. loadFromArgs (\<lambda>_. Some ''port = 7000'') [''--config'', ''f'', ''--port'', ''8000'', ''--port'', ''x''] getInstance = Some (ArgsOk, c) \<and>
     cfg_values c ''port'' = Some (IntV 8000)"
proof -
  let ?fs = "\<lambda>_ :: string. Some ''port = 7000''" and ?args = "[''--config'', ''f'', ''--port'', ''8000'', ''--port'', ''x'']"
  have l: "Config_loadFromFile (Some ''port = 7000'') getInstance =
      Some (True, set_all ConfigFile [(''port'', ''7000'')] (getInstance\<lparr>config_map := [(''port'', ''7000'')]\<rparr>))"
    by (simp add: Config_loadFromFile_def skip_line_def Config_parseLine_def trim_blanks_def is_blank_def unquote_def getInstance_values)
  obtain c where c: "loadFromArgs ?fs ?args getInstance = Some (apply_args ?args c)"
    by (simp add: loadFromArgs_def l)
  have "fst (apply_args ?args c) = ArgsOk" by (simp add: port_flag Let_def)
  then obtain c' where "loadFromArgs ?fs ?args getInstance = Some (ArgsOk, c')" using c by (metis prod.collapse)
  moreover have "last_valid ''port'' (cli_settings ?args) = Some (IntV 8000)"
    by (simp add: port_flag read_setting_def port_key parse_simps)
  ultimately show ?thesis using config_precedence [of ?fs ?args c' "''port''"] by auto
qed

section \<open>The sample file\<close>

definition value_ok :: "ValueType \<Rightarrow> CfgValue \<Rightarrow> bool" where
  "value_ok t v = (case (t, v) of
      (TString, StrV s) \<Rightarrow> s \<noteq> [] \<and> CHR 0x0A \<notin> set s \<and> \<not> is_blank (hd s) \<and> \<not> is_blank (last s) \<and>
        \<not> (hd s = CHR 0x22 \<and> last s = CHR 0x22) \<and> \<not> (hd s = CHR 0x27 \<and> last s = CHR 0x27)
    | (TInt, IntV i) \<Rightarrow> in_i32 i
    | (TBool, BoolV b) \<Rightarrow> True
    | _ \<Rightarrow> False)"

text \<open>What the table must satisfy for its options to survive the file format.\<close>

definition spec_ok :: "OptionSpec \<Rightarrow> bool" where
  "spec_ok sp \<longleftrightarrow> spec_key sp \<noteq> [] \<and> hd (spec_key sp) \<noteq> CHR ''#'' \<and> hd (spec_key sp) \<noteq> CHR '';'' \<and>
     list_all (\<lambda>x. x \<noteq> CHR 0x0A \<and> x \<noteq> CHR ''='' \<and> \<not> is_blank x) (spec_key sp) \<and>
     CHR 0x0A \<notin> set (spec_group sp) \<and> CHR 0x0A \<notin> set (description sp) \<and> CHR 0x0A \<notin> set (default_value sp)"

lemma utf8_line [simp]: "list_all (\<lambda>n. 128 \<le> n \<and> n < 256) ns \<Longrightarrow> CHR 0x0A \<notin> set (utf8 ns)"
proof
  assume a: "list_all (\<lambda>n. 128 \<le> n \<and> n < 256) ns" "CHR 0x0A \<in> set (utf8 ns)"
  then obtain n :: nat where n: "128 \<le> n" "n < 256" "CHR 0x0A = char_of n" by (auto simp: utf8_def list_all_iff)
  then have "(of_char (CHR 0x0A) :: nat) = n mod 256" by (metis of_char_of)
  with n have "n = of_char (CHR 0x0A)" by simp
  then have "n = 10" by simp
  with n(1) show False by simp
qed

lemma specs_ok: "list_all spec_ok specs"
  by (simp add: specs_def spec_ok_def is_blank_def)

lemma header_lines: "\<forall>l \<in> set sample_header. CHR 0x0A \<notin> set l \<and> skip_line l"
  by (simp add: sample_header_def skip_line_def)

lemma split_joined: "\<forall>l \<in> set ls. CHR 0x0A \<notin> set l \<Longrightarrow> split_lines (concat (map (\<lambda>l. l @ [CHR 0x0A]) ls)) [] = ls"
proof -
  have "CHR 0x0A \<notin> set l \<Longrightarrow> split_lines (l @ CHR 0x0A # s) cur = (cur @ l) # split_lines s []" for l s cur
    by (induction l arbitrary: cur) auto
  then show "\<forall>l \<in> set ls. CHR 0x0A \<notin> set l \<Longrightarrow> ?thesis" by (induction ls) auto
qed

lemma dropWhile_hd: "s = [] \<or> \<not> P (hd s) \<Longrightarrow> dropWhile P s = s"
  by (cases s) auto

lemma trim_id: "\<not> is_blank (hd s) \<Longrightarrow> \<not> is_blank (last s) \<Longrightarrow> trim_blanks (CHR '' '' # s) = s" "\<not> is_blank (hd s) \<Longrightarrow> \<not> is_blank (last s) \<Longrightarrow> trim_blanks (s @ '' '') = s"
  by (cases "s = []"; simp add: trim_blanks_def is_blank_def dropWhile_hd hd_rev)+

definition line_value :: "string \<Rightarrow> bool" where
  "line_value s \<longleftrightarrow> s \<noteq> [] \<and> CHR 0x0A \<notin> set s \<and> \<not> is_blank (hd s) \<and> \<not> is_blank (last s) \<and>
     \<not> (hd s = CHR 0x22 \<and> last s = CHR 0x22) \<and> \<not> (hd s = CHR 0x27 \<and> last s = CHR 0x27)"

lemma option_line:
  assumes "spec_ok sp" "line_value s"
  shows "\<not> skip_line (spec_key sp @ '' = '' @ s)"
    and "Config_parseLine (spec_key sp @ '' = '' @ s) c = Some (c\<lparr>config_map := std_map_assign (spec_key sp) s (config_map c)\<rparr>)"
proof -
  let ?k = "spec_key sp"
  have k: "?k \<noteq> []" "\<forall>x \<in> set ?k. x \<noteq> CHR ''=''" "\<not> is_blank (hd ?k)" "\<not> is_blank (last ?k)"
    using assms(1) by (auto simp: spec_ok_def list_all_iff)
  show "\<not> skip_line (?k @ '' = '' @ s)" using assms(1) k(1) by (simp add: skip_line_def spec_ok_def)
  have "takeWhile (\<lambda>x. x \<noteq> CHR ''='') (?k @ '' = '' @ s) = ?k @ '' ''" "tl (dropWhile (\<lambda>x. x \<noteq> CHR ''='') (?k @ '' = '' @ s)) = CHR '' '' # s"
    using k(2) by (simp_all add: takeWhile_append dropWhile_append)
  moreover have "unquote s = Some s" using assms(2) by (auto simp: unquote_def line_value_def)
  ultimately show "Config_parseLine (?k @ '' = '' @ s) c = Some (c\<lparr>config_map := std_map_assign ?k s (config_map c)\<rparr>)"
    using trim_id [of s] trim_id [of ?k] assms(2) k by (simp add: Config_parseLine_def Let_def line_value_def)
qed

lemma no_newline_int: "CHR 0x0A \<notin> set (int_to_string i)" "\<not> is_blank (hd (int_to_string i))" "\<not> is_blank (last (int_to_string i))"
    "int_to_string i \<noteq> []" "hd (int_to_string i) \<noteq> CHR 0x22" "hd (int_to_string i) \<noteq> CHR 0x27"
proof -
  have c: "c \<in> set (int_to_string i) \<Longrightarrow> c = CHR ''-'' \<or> is_digit c" for c
    by (auto simp: int_to_string_def dest: nat_to_string_digits split: if_splits)
  show ne: "int_to_string i \<noteq> []" by (simp add: int_to_string_def)
  have "\<not> is_digit (CHR 0x0A)" "\<not> is_digit (CHR 0x22)" "\<not> is_digit (CHR 0x27)" by (simp_all add: is_digit_def)
  then show "CHR 0x0A \<notin> set (int_to_string i)" "hd (int_to_string i) \<noteq> CHR 0x22" "hd (int_to_string i) \<noteq> CHR 0x27"
    using c hd_in_set [OF ne] by (auto dest!: c)
  have "x = CHR ''-'' \<or> is_digit x \<Longrightarrow> \<not> is_blank x" for x by (auto simp: is_blank_def is_digit_def)
  then show "\<not> is_blank (hd (int_to_string i))" "\<not> is_blank (last (int_to_string i))" using c ne by auto
qed

lemma parse_int: "in_i32 i \<Longrightarrow> parseIntLoose (int_to_string i) = Some i"
proof -
  assume i: "in_i32 i"
  have sp: "c = CHR ''-'' \<or> is_digit c \<Longrightarrow> \<not> is_space c" for c by (auto simp: is_space_def is_digit_def)
  have c: "c \<in> set (int_to_string i) \<Longrightarrow> \<not> is_space c" for c
    by (rule sp) (auto simp: int_to_string_def dest: nat_to_string_digits split: if_splits)
  have ne: "int_to_string i \<noteq> []" by (simp add: int_to_string_def)
  then have t: "dropWhile is_space (int_to_string i) = int_to_string i" "trim (int_to_string i) = int_to_string i"
    using c by (simp_all add: trim_def dropWhile_hd hd_rev)
  have d: "takeWhile is_digit (nat_to_string n) = nat_to_string n" for n
    by (simp add: takeWhile_eq_all_conv nat_to_string_digits)
  have h: "hd (nat_to_string n) \<noteq> CHR ''-''" "hd (nat_to_string n) \<noteq> CHR ''+''" for n
    using nat_to_string_digits [OF hd_in_set [OF nat_to_string_not_Nil [of n]]] by (auto simp: is_digit_def)
  have "stoi (int_to_string i) = Some (i, length (int_to_string i))"
    unfolding stoi_def t(1) using i h [of "nat i"] by (simp add: int_to_string_def d Let_def)
  then show ?thesis by (simp add: parseIntLoose_def t(2))
qed

lemma show_value_line:
  assumes "value_ok t v"
  shows "line_value (show_value v) \<and> parse_value t (show_value v) = Some v"
proof (cases v)
  case (StrV s)
  then show ?thesis using assms by (cases t) (simp_all add: value_ok_def line_value_def)
next
  case (IntV i)
  then have "t = TInt" "in_i32 i" using assms by (cases t; simp add: value_ok_def)+
  then show ?thesis using IntV by (simp add: line_value_def no_newline_int parse_int)
next
  case (BoolV b)
  then have "t = TBool" using assms by (cases t; simp add: value_ok_def)
  then show ?thesis using BoolV by (simp add: line_value_def is_blank_def parse_simps)
qed

text \<open>A configuration all of whose options have a value that fits on a line.\<close>

definition config_ok :: "Config \<Rightarrow> bool" where
  "config_ok c \<longleftrightarrow> (\<forall>sp \<in> set specs. \<exists>v. cfg_values c (spec_key sp) = Some v \<and> value_ok (spec_type sp) v)"

lemma config_okE:
  assumes "config_ok c" "sp \<in> set specs"
  obtains v where "cfg_values c (spec_key sp) = Some v" "value_ok (spec_type sp) v" "get_as_string sp c = show_value v"
  using assms by (auto simp: config_ok_def get_as_string_def)

lemma skip_parse: "list_all skip_line ls \<Longrightarrow> parse_lines (ls @ ls') c = parse_lines ls' c"
  by (induction ls) auto

text \<open>Reading the lines of some options puts exactly these options into the map of the file.\<close>

definition option_settings :: "OptionSpec list \<Rightarrow> Config \<Rightarrow> (string \<times> string) list" where
  "option_settings sps c = map (\<lambda>sp. (spec_key sp, get_as_string sp c)) sps"

lemma parse_sample:
  assumes "config_ok c" "set sps \<subseteq> set specs"
  shows "parse_lines (sample_lines sps g c) c0 =
    Some (c0\<lparr>config_map := fold (\<lambda>(k, v). std_map_assign k v) (option_settings sps c) (config_map c0)\<rparr>)"
  using assms(2)
proof (induction sps arbitrary: g c0)
  case (Cons sp sps)
  obtain v where v: "get_as_string sp c = show_value v" "value_ok (spec_type sp) v" using config_okE [OF assms(1), of sp] Cons.prems by auto
  have "spec_ok sp" using specs_ok Cons.prems by (auto simp: list_all_iff)
  note line = option_line [OF this, of "show_value v"]
  have "parse_lines (sample_lines (sp # sps) g c) c0 = parse_lines ((spec_key sp @ '' = '' @ show_value v) # sample_lines sps (spec_group sp) c) c0"
    by (cases "spec_group sp = g") (simp_all add: skip_line_def v(1))
  also have "\<dots> = parse_lines (sample_lines sps (spec_group sp) c) (c0\<lparr>config_map := std_map_assign (spec_key sp) (show_value v) (config_map c0)\<rparr>)"
    using line show_value_line [OF v(2)] by simp
  finally show ?case using Cons.IH [of "spec_group sp" "c0\<lparr>config_map := std_map_assign (spec_key sp) (show_value v) (config_map c0)\<rparr>"] Cons.prems v(1)
    by (simp add: option_settings_def)
qed (simp add: option_settings_def skip_line_def)

lemma sample_no_newline:
  assumes "config_ok c" "set sps \<subseteq> set specs"
  shows "\<forall>l \<in> set (sample_lines sps g c). CHR 0x0A \<notin> set l"
  using assms(2)
proof (induction sps arbitrary: g)
  case (Cons sp sps)
  obtain v where v: "get_as_string sp c = show_value v" "value_ok (spec_type sp) v" using config_okE [OF assms(1), of sp] Cons.prems by auto
  have "spec_ok sp" using specs_ok Cons.prems by (auto simp: list_all_iff)
  then show ?case using Cons.IH [of "spec_group sp"] Cons.prems v(1) show_value_line [OF v(2)]
    by (auto simp: spec_ok_def line_value_def list_all_iff)
qed simp

text \<open>The last setting in the map of a file is its only one.\<close>

lemma last_valid_map: "distinct (map fst kvs) \<Longrightarrow> map_of kvs key = Some v \<Longrightarrow> last_valid key kvs = read_setting key (key, v)"
proof (induction kvs)
  case (Cons kv kvs)
  have none: "key \<notin> set (map fst l) \<Longrightarrow> last_valid key l = None" for l
    by (induction l) (auto simp: read_setting_def)
  obtain k x where kv: "kv = (k, x)" by fastforce
  show ?case
  proof (cases "k = key")
    case True
    then show ?thesis using Cons.prems none [of kvs] kv by simp
  next
    case False
    then show ?thesis using Cons kv by (simp add: read_setting_def)
  qed
qed simp

lemma fold_assign:
  "map_of (fold (\<lambda>(k, v). std_map_assign k v) kvs m) = map_of m ++ map_of (rev kvs)"
  "key_ordered m \<Longrightarrow> key_ordered (fold (\<lambda>(k, v). std_map_assign k v) kvs m)"
  by (induction kvs arbitrary: m) (auto simp: key_ordered_std_map_assign map_add_assoc [symmetric] map_add_upd_left fun_eq_iff map_add_def split: option.splits)

text \<open>
  C35. The file saved for a configuration, loaded into any configuration without command line
  settings, gives every option the value it had, when the texts among the values fit on a line of the file.
\<close>

theorem config_sample_roundtrip:
  assumes "config_ok c" "config_map c0 = []" "\<forall>k. source_map c0 k \<noteq> Some CommandLine"
  shows "\<exists>c1. Config_loadFromFile (snd (saveToFile True c)) c0 = Some (True, c1) \<and>
    (\<forall>sp \<in> set specs. cfg_values c1 (spec_key sp) = cfg_values c (spec_key sp))"
proof -
  let ?kvs = "option_settings specs c" and ?ls = "sample_header @ sample_lines specs [] c"
  let ?m = "fold (\<lambda>(k, v). std_map_assign k v) ?kvs []"
  have "split_lines (generateSampleConfig c) [] = ?ls"
    unfolding generateSampleConfig_def using header_lines sample_no_newline [OF assms(1), of specs "[]"] by (intro split_joined) auto
  moreover have "parse_lines ?ls c0 = Some (c0\<lparr>config_map := ?m\<rparr>)"
    using skip_parse [of sample_header] header_lines parse_sample [OF assms(1), of specs "[]" c0] assms(2) by (simp add: list_all_iff)
  ultimately have l: "Config_loadFromFile (snd (saveToFile True c)) c0 = Some (True, set_all ConfigFile ?m (c0\<lparr>config_map := ?m\<rparr>))"
    by (simp add: Config_loadFromFile_def saveToFile_def)
  have src: "sources_upto (source_rank ConfigFile) (c0\<lparr>config_map := ?m\<rparr>)"
    unfolding sources_upto_def using assms(3) by (metis (no_types, lifting) One_nat_def Source.exhaust le0 order_refl select_convs(4) source_rank.simps(1,2) update_convs(3) surjective)
  have "cfg_values (set_all ConfigFile ?m (c0\<lparr>config_map := ?m\<rparr>)) (spec_key sp) = cfg_values c (spec_key sp)" if sp: "sp \<in> set specs" for sp
  proof -
    obtain v where v: "cfg_values c (spec_key sp) = Some v" "value_ok (spec_type sp) v" "get_as_string sp c = show_value v"
      by (rule config_okE [OF assms(1) sp])
    have "distinct (map fst (rev ?kvs))" "(spec_key sp, show_value v) \<in> set (rev ?kvs)"
      using distinct_keys(2) sp v(3) by (auto simp: option_settings_def comp_def rev_map [symmetric])
    then have "map_of ?m (spec_key sp) = Some (show_value v)"
      by (simp add: fold_assign(1) map_of_is_SomeI)
    then have "last_valid (spec_key sp) ?m = Some v"
      using last_valid_map [OF ordered_distinct [OF fold_assign(2)]] show_value_line [OF v(2)] spec_of_key [OF sp] by (simp add: read_setting_def)
    then show ?thesis using set_all_values [OF src, of ?m "spec_key sp"] v(1) by simp
  qed
  with l show ?thesis by blast
qed

lemma getInstance_ok: "config_ok getInstance"
  by (simp add: config_ok_def getInstance_values specs_def member_defaults_def value_ok_def in_i32_def is_blank_def)

theorem config_sample_roundtrip_witness:
  "\<exists>c1. Config_loadFromFile (snd (saveToFile True getInstance)) getInstance = Some (True, c1) \<and>
    (\<forall>sp \<in> set specs. cfg_values c1 (spec_key sp) = cfg_values getInstance (spec_key sp))"
proof (rule config_sample_roundtrip [OF getInstance_ok getInstance_values(3)])
  show "\<forall>k. source_map getInstance k \<noteq> Some CommandLine"
    using getInstance_values(2) by (force simp: sources_upto_def)
qed

lemma defaults_valid: "validate getInstance"
  by (simp add: validate_def int_of_def bool_of_def str_of_def getInstance_values member_defaults_def parse_simps Let_def)

end
