(* ===== verification/Net_Buffer.thy ===== *)
theory Net_Buffer
  imports Memory_Pool
begin

text \<open>
  \<^verbatim>\<open>network/Buffer.h\<close> and \<^verbatim>\<open>Buffer.cpp\<close>: a vector of bytes with a read and a write index. An operation whose
  assertion fails, or that would write outside the vector or copy onto its own source, gives \<open>None\<close>. Pointers into
  the buffer are indices. The bytes a system call reads are the answer of the parameter \<open>os\<close> to the
  space offered, an error or data. The contract of the buffer is that of a byte queue, \<open>byte_queue\<close>.
\<close>

section \<open>State\<close>

record Buffer =
  bytes :: string
  readerIndex :: nat
  writerIndex :: nat

definition kInitialSize :: nat where
  "kInitialSize = 1024"

definition kCheapPrepend :: nat where
  "kCheapPrepend = 8"

definition new_Buffer :: "nat \<Rightarrow> Buffer" where
  "new_Buffer initialSize = \<lparr>bytes = replicate (kCheapPrepend + initialSize) (CHR 0x00), readerIndex = kCheapPrepend, writerIndex = kCheapPrepend\<rparr>"

definition readableBytes :: "Buffer \<Rightarrow> nat" where
  "readableBytes b = writerIndex b - readerIndex b"

definition writableBytes :: "Buffer \<Rightarrow> nat" where
  "writableBytes b = length (bytes b) - writerIndex b"

definition prependableBytes :: "Buffer \<Rightarrow> nat" where
  "prependableBytes b = readerIndex b"

text \<open>\<^verbatim>\<open>peek()\<close> with the bytes up to the write index.\<close>

definition peek :: "Buffer \<Rightarrow> string" where
  "peek b = take (readableBytes b) (drop (readerIndex b) (bytes b))"

text \<open>\<^verbatim>\<open>std::copy\<close> of some bytes to a position of the vector; writing beyond its end is undefined.\<close>

definition copy_to :: "string \<Rightarrow> nat \<Rightarrow> string \<Rightarrow> string option" where
  "copy_to src pos dst = (if pos + length src \<le> length dst then Some (take pos dst @ src @ drop (pos + length src) dst) else None)"

section \<open>Operations\<close>

fun search_crlf :: "string \<Rightarrow> nat \<Rightarrow> nat option" where
  "search_crlf (c # d # s) i = (if c = CHR 0x0D \<and> d = CHR 0x0A then Some i else search_crlf (d # s) (Suc i))"
| "search_crlf _ i = None"

definition Buffer_findCRLF :: "Buffer \<Rightarrow> nat option" where
  "Buffer_findCRLF b = search_crlf (peek b) (readerIndex b)"

definition Buffer_findCRLF_from :: "nat \<Rightarrow> Buffer \<Rightarrow> nat option option" where
  "Buffer_findCRLF_from start b =
     (if readerIndex b \<le> start \<and> start \<le> writerIndex b
      then Some (search_crlf (take (writerIndex b - start) (drop start (bytes b))) start) else None)"

definition hasWritten :: "nat \<Rightarrow> Buffer \<Rightarrow> Buffer option" where
  "hasWritten len b = (if len \<le> writableBytes b then Some (b\<lparr>writerIndex := writerIndex b + len\<rparr>) else None)"

definition unwrite :: "nat \<Rightarrow> Buffer \<Rightarrow> Buffer option" where
  "unwrite len b = (if len \<le> readableBytes b then Some (b\<lparr>writerIndex := writerIndex b - len\<rparr>) else None)"

definition retrieveAll :: "Buffer \<Rightarrow> Buffer" where
  "retrieveAll b = b\<lparr>readerIndex := kCheapPrepend, writerIndex := kCheapPrepend\<rparr>"

definition retrieve :: "nat \<Rightarrow> Buffer \<Rightarrow> Buffer option" where
  "retrieve len b =
     (if \<not> len \<le> readableBytes b then None
      else if len < readableBytes b then Some (b\<lparr>readerIndex := readerIndex b + len\<rparr>)
      else Some (retrieveAll b))"

definition retrieveUntil :: "nat \<Rightarrow> Buffer \<Rightarrow> Buffer option" where
  "retrieveUntil e b = (if readerIndex b \<le> e then retrieve (e - readerIndex b) b else None)"

definition retrieveAsString :: "nat \<Rightarrow> Buffer \<Rightarrow> (string \<times> Buffer) option" where
  "retrieveAsString len b = map_option (\<lambda>b'. (take len (peek b), b')) (retrieve len b)"

definition retrieveAllAsString :: "Buffer \<Rightarrow> string \<times> Buffer" where
  "retrieveAllAsString b = (peek b, retrieveAll b)"

text \<open>Moving the readable bytes to the front; the copy may not start inside its own source.\<close>

definition move_front :: "Buffer \<Rightarrow> Buffer option" where
  "move_front b =
     (if readerIndex b < kCheapPrepend \<and> kCheapPrepend < writerIndex b then None
      else map_option (\<lambda>bs. \<lparr>bytes = bs, readerIndex = kCheapPrepend, writerIndex = kCheapPrepend + readableBytes b\<rparr>)
             (copy_to (peek b) kCheapPrepend (bytes b)))"

definition ensureWritableBytes :: "nat \<Rightarrow> Buffer \<Rightarrow> Buffer option" where
  "ensureWritableBytes len b =
     (if writableBytes b < len
      then let readable = readableBytes b; required = readable + len + kCheapPrepend
        in if prependableBytes b + writableBytes b \<ge> len + kCheapPrepend then move_front b
           else let newSize = max (length (bytes b) * 2) required
             in map_option (\<lambda>bs. \<lparr>bytes = bs, readerIndex = kCheapPrepend, writerIndex = kCheapPrepend + readable\<rparr>)
                  (copy_to (peek b) kCheapPrepend (replicate newSize (CHR 0x00)))
      else Some b)"

definition Buffer_append :: "string \<Rightarrow> Buffer \<Rightarrow> Buffer option" where
  "Buffer_append data b = (case ensureWritableBytes (length data) b of
      None \<Rightarrow> None
    | Some b \<Rightarrow> map_option (\<lambda>bs. b\<lparr>bytes := bs, writerIndex := writerIndex b + length data\<rparr>)
        (copy_to data (writerIndex b) (bytes b)))"

text \<open>\<^verbatim>\<open>readerIndex_ -= len\<close> wraps around when the front is too small even after the move.\<close>

definition prepend :: "string \<Rightarrow> Buffer \<Rightarrow> Buffer option" where
  "prepend data b = (case (if length data > prependableBytes b then move_front b else Some b) of
      None \<Rightarrow> None
    | Some b \<Rightarrow>
        if length data > readerIndex b then None
        else map_option (\<lambda>bs. b\<lparr>bytes := bs, readerIndex := readerIndex b - length data\<rparr>)
               (copy_to data (readerIndex b - length data) (bytes b)))"

section \<open>File descriptors\<close>

datatype ReadRc = ReadErr int | ReadData string

definition extra_buf_size :: nat where
  "extra_buf_size = 65536"

definition readFd :: "(nat \<Rightarrow> ReadRc) \<Rightarrow> Buffer \<Rightarrow> (int \<times> int \<times> Buffer) option" where
  "readFd os b =
     (let writable = writableBytes b in
      if writable \<ge> extra_buf_size
      then case os writable of
          ReadErr e \<Rightarrow> Some (-1, e, b)
        | ReadData d \<Rightarrow> map_option (\<lambda>bs. (int (length d), 0, b\<lparr>bytes := bs, writerIndex := writerIndex b + length d\<rparr>))
            (copy_to d (writerIndex b) (bytes b))
      else case os (writable + extra_buf_size) of
          ReadErr e \<Rightarrow> Some (-1, e, b)
        | ReadData d \<Rightarrow>
            if length d \<le> writable
            then map_option (\<lambda>bs. (int (length d), 0, b\<lparr>bytes := bs, writerIndex := writerIndex b + length d\<rparr>))
                   (copy_to d (writerIndex b) (bytes b))
            else case copy_to (take writable d) (writerIndex b) (bytes b) of
                None \<Rightarrow> None
              | Some bs \<Rightarrow> map_option (\<lambda>b. (int (length d), 0, b))
                  (Buffer_append (drop writable d) (b\<lparr>bytes := bs, writerIndex := length bs\<rparr>)))"

text \<open>The lease of the extra block of \<^verbatim>\<open>readFd\<close> is taken from and given back to the pool of the thread.\<close>

definition readFd_pool :: "(nat \<Rightarrow> ReadRc) \<Rightarrow> Buffer \<Rightarrow> BufferPool \<Rightarrow> (int \<times> int \<times> Buffer) option \<times> BufferPool" where
  "readFd_pool os b p = (readFd os b, release False extra_buf_size (acquire extra_buf_size p))"

definition writeFd :: "(string \<Rightarrow> int + nat) \<Rightarrow> Buffer \<Rightarrow> (int \<times> int \<times> Buffer) option" where
  "writeFd os b = (case os (peek b) of
      Inl e \<Rightarrow> Some (-1, e, b)
    | Inr n \<Rightarrow> map_option (\<lambda>b. (int n, 0, b)) (retrieve n b))"

section \<open>The byte queue\<close>

locale byte_queue =
  fixes content :: "'b \<Rightarrow> string" and ok :: "'b \<Rightarrow> bool" and push :: "string \<Rightarrow> 'b \<Rightarrow> 'b option" and pop :: "nat \<Rightarrow> 'b \<Rightarrow> 'b option"
  assumes push_ok: "ok b \<Longrightarrow> \<exists>b'. push d b = Some b' \<and> ok b' \<and> content b' = content b @ d"
    and pop_ok: "ok b \<Longrightarrow> n \<le> length (content b) \<Longrightarrow> \<exists>b'. pop n b = Some b' \<and> ok b' \<and> content b' = drop n (content b)"
    and pop_none: "ok b \<Longrightarrow> length (content b) < n \<Longrightarrow> pop n b = None"
begin

lemma pushE:
  assumes "ok b"
  obtains b' where "push d b = Some b'" "ok b'" "content b' = content b @ d"
  using push_ok [OF assms] by blast

lemma popE:
  assumes "ok b" "n \<le> length (content b)"
  obtains b' where "pop n b = Some b'" "ok b'" "content b' = drop n (content b)"
  using pop_ok [OF assms] by blast

text \<open>Taking the first bytes of the queue followed by new data, and queueing what is left.\<close>

lemma pop_push:
  assumes "ok b" "n \<le> length (content b)"
  obtains b1 b2 where "pop n b = Some b1" "push d b1 = Some b2" "ok b2" "content b2 = drop n (content b @ d)"
proof -
  obtain b1 where b1: "pop n b = Some b1" "ok b1" "content b1 = drop n (content b)" using popE [OF assms] by blast
  obtain b2 where "push d b1 = Some b2" "ok b2" "content b2 = content b1 @ d" using pushE [OF b1(2)] by blast
  with b1 show thesis using that assms(2) by simp
qed

end

definition buf_ok :: "Buffer \<Rightarrow> bool" where
  "buf_ok b \<longleftrightarrow> readerIndex b \<le> writerIndex b \<and> writerIndex b \<le> length (bytes b) \<and> kCheapPrepend \<le> length (bytes b)"

lemma length_peek: "buf_ok b \<Longrightarrow> length (peek b) = readableBytes b"
  by (auto simp: buf_ok_def peek_def readableBytes_def)

lemma peek_eq: "bytes b = x @ y @ z \<Longrightarrow> readerIndex b = length x \<Longrightarrow> writerIndex b = length x + length y \<Longrightarrow> peek b = y"
  by (simp add: peek_def readableBytes_def)

lemma copy_to_Some: "pos + length src \<le> length dst \<Longrightarrow> copy_to src pos dst = Some (take pos dst @ src @ drop (pos + length src) dst)"
  by (simp add: copy_to_def)

lemma new_Buffer_ok [simp]: "buf_ok (new_Buffer n)" "peek (new_Buffer n) = []"
  by (simp_all add: buf_ok_def new_Buffer_def peek_def readableBytes_def)

lemma retrieveAll_ok [simp]: "buf_ok b \<Longrightarrow> buf_ok (retrieveAll b)" "peek (retrieveAll b) = []"
  by (simp_all add: buf_ok_def retrieveAll_def peek_def readableBytes_def)

text \<open>A write behind the readable bytes, as long as there is space.\<close>

lemma write_behind:
  assumes "buf_ok b" "length d \<le> writableBytes b"
  shows "copy_to d (writerIndex b) (bytes b) = Some (take (writerIndex b) (bytes b) @ d @ drop (writerIndex b + length d) (bytes b))"
    and "buf_ok (b\<lparr>bytes := take (writerIndex b) (bytes b) @ d @ drop (writerIndex b + length d) (bytes b), writerIndex := writerIndex b + length d\<rparr>)"
    and "peek (b\<lparr>bytes := take (writerIndex b) (bytes b) @ d @ drop (writerIndex b + length d) (bytes b), writerIndex := writerIndex b + length d\<rparr>) = peek b @ d"
proof -
  have le: "writerIndex b + length d \<le> length (bytes b)" "readerIndex b \<le> writerIndex b" using assms by (auto simp: buf_ok_def writableBytes_def)
  show "copy_to d (writerIndex b) (bytes b) = Some (take (writerIndex b) (bytes b) @ d @ drop (writerIndex b + length d) (bytes b))"
    by (rule copy_to_Some [OF le(1)])
  show "buf_ok (b\<lparr>bytes := take (writerIndex b) (bytes b) @ d @ drop (writerIndex b + length d) (bytes b), writerIndex := writerIndex b + length d\<rparr>)"
    using assms le by (auto simp: buf_ok_def)
  show "peek (b\<lparr>bytes := take (writerIndex b) (bytes b) @ d @ drop (writerIndex b + length d) (bytes b), writerIndex := writerIndex b + length d\<rparr>) = peek b @ d"
  proof -
    have "take (writerIndex b) (bytes b) = take (readerIndex b) (bytes b) @ peek b"
      using le by (simp add: peek_def readableBytes_def flip: take_add)
    moreover have "length (peek b) = writerIndex b - readerIndex b" using length_peek [OF assms(1)] by (simp add: readableBytes_def)
    ultimately show ?thesis using le by (intro peek_eq [of _ "take (readerIndex b) (bytes b)" _ "drop (writerIndex b + length d) (bytes b)"]) simp_all
  qed
qed

text \<open>A copy of the readable bytes behind the front of a vector that is long enough.\<close>

lemma at_front:
  assumes "buf_ok b" "kCheapPrepend + readableBytes b \<le> length v"
  obtains bs where "copy_to (peek b) kCheapPrepend v = Some bs" "length bs = length v"
    "buf_ok \<lparr>bytes = bs, readerIndex = kCheapPrepend, writerIndex = kCheapPrepend + readableBytes b\<rparr>"
    "peek \<lparr>bytes = bs, readerIndex = kCheapPrepend, writerIndex = kCheapPrepend + readableBytes b\<rparr> = peek b"
proof -
  let ?bs = "take kCheapPrepend v @ peek b @ drop (kCheapPrepend + readableBytes b) v"
  have c: "copy_to (peek b) kCheapPrepend v = Some ?bs" using copy_to_Some assms length_peek [OF assms(1)] by simp
  have l: "length ?bs = length v" using assms(2) length_peek [OF assms(1)] by simp
  have p: "peek \<lparr>bytes = ?bs, readerIndex = kCheapPrepend, writerIndex = kCheapPrepend + readableBytes b\<rparr> = peek b"
    using assms(2) length_peek [OF assms(1)] by (intro peek_eq [of _ "take kCheapPrepend v" _ "drop (kCheapPrepend + readableBytes b) v"]) simp_all
  have "buf_ok \<lparr>bytes = ?bs, readerIndex = kCheapPrepend, writerIndex = kCheapPrepend + readableBytes b\<rparr>"
    unfolding buf_ok_def using assms(2) l by simp
  from that [OF c l this p] show thesis .
qed

lemma ensure_ok:
  assumes "buf_ok b"
  shows "\<exists>b'. ensureWritableBytes n b = Some b' \<and> buf_ok b' \<and> peek b' = peek b \<and> n \<le> writableBytes b'"
proof (cases "writableBytes b < n")
  case True
  have r: "readerIndex b \<le> writerIndex b" "writerIndex b \<le> length (bytes b)" using assms by (auto simp: buf_ok_def)
  let ?v = "if prependableBytes b + writableBytes b \<ge> n + kCheapPrepend then bytes b
    else replicate (max (length (bytes b) * 2) (readableBytes b + n + kCheapPrepend)) (CHR 0x00)"
  have room: "kCheapPrepend + readableBytes b + n \<le> length ?v"
    using True r by (auto simp: prependableBytes_def writableBytes_def readableBytes_def)
  then obtain bs where bs: "copy_to (peek b) kCheapPrepend ?v = Some bs" "length bs = length ?v"
    "buf_ok \<lparr>bytes = bs, readerIndex = kCheapPrepend, writerIndex = kCheapPrepend + readableBytes b\<rparr>"
    "peek \<lparr>bytes = bs, readerIndex = kCheapPrepend, writerIndex = kCheapPrepend + readableBytes b\<rparr> = peek b"
    using at_front [OF assms, of ?v] by (metis add_leD1)
  have "ensureWritableBytes n b = Some \<lparr>bytes = bs, readerIndex = kCheapPrepend, writerIndex = kCheapPrepend + readableBytes b\<rparr>"
    using True r bs(1) by (auto simp: ensureWritableBytes_def move_front_def Let_def writableBytes_def prependableBytes_def split: if_splits)
  moreover have "n \<le> length bs - (kCheapPrepend + readableBytes b)" using room bs(2) by simp
  ultimately show ?thesis using bs(3,4) by (simp add: writableBytes_def)
qed (use assms in \<open>simp add: ensureWritableBytes_def\<close>)

lemma append_ok: "buf_ok b \<Longrightarrow> \<exists>b'. Buffer_append d b = Some b' \<and> buf_ok b' \<and> peek b' = peek b @ d"
proof -
  assume "buf_ok b"
  then obtain b' where b': "ensureWritableBytes (length d) b = Some b'" "buf_ok b'" "peek b' = peek b" "length d \<le> writableBytes b'"
    using ensure_ok by blast
  then show ?thesis using write_behind [OF b'(2,4)] by (simp add: Buffer_append_def)
qed

interpretation bq: byte_queue peek buf_ok Buffer_append retrieve
proof unfold_locales
  fix b d n
  assume ok: "buf_ok b"
  show "\<exists>b'. Buffer_append d b = Some b' \<and> buf_ok b' \<and> peek b' = peek b @ d" using append_ok [OF ok] .
  show "\<exists>b'. retrieve n b = Some b' \<and> buf_ok b' \<and> peek b' = drop n (peek b)" if "n \<le> length (peek b)"
  proof (cases "n < readableBytes b")
    case True
    then have "buf_ok (b\<lparr>readerIndex := readerIndex b + n\<rparr>)" "peek (b\<lparr>readerIndex := readerIndex b + n\<rparr>) = drop n (peek b)"
      using ok by (auto simp: buf_ok_def readableBytes_def peek_def drop_take add.commute)
    with True show ?thesis by (simp add: retrieve_def)
  next
    case False
    then show ?thesis using that ok length_peek [OF ok] by (simp add: retrieve_def)
  qed
  show "retrieve n b = None" if "length (peek b) < n" using that length_peek [OF ok] by (simp add: retrieve_def)
qed

section \<open>Reading and prepending\<close>

lemma readFd_ok:
  assumes "buf_ok b" "\<And>cap. os cap = ReadData (take cap d)" "length d \<le> extra_buf_size"
  shows "\<exists>b'. readFd os b = Some (int (length d), 0, b') \<and> buf_ok b' \<and> peek b' = peek b @ d"
proof (cases "length d \<le> writableBytes b")
  case True
  then show ?thesis using write_behind [OF assms(1) True] assms(2,3) by (simp add: readFd_def Let_def)
next
  case False
  let ?d = "take (writableBytes b) d"
  have l: "length ?d = writableBytes b" using False by simp
  note w = write_behind [OF assms(1), of ?d]
  let ?bs = "take (writerIndex b) (bytes b) @ ?d @ drop (writerIndex b + length ?d) (bytes b)"
  have e: "writerIndex b + length ?d = length ?bs" using l assms(1) by (simp add: writableBytes_def buf_ok_def)
  have eq: "b\<lparr>bytes := ?bs, writerIndex := length ?bs\<rparr> = b\<lparr>bytes := ?bs, writerIndex := writerIndex b + length ?d\<rparr>"
    using arg_cong [OF e, of "\<lambda>n. b\<lparr>bytes := ?bs, writerIndex := n\<rparr>"] by (rule sym)
  obtain b' where b': "Buffer_append (drop (writableBytes b) d) (b\<lparr>bytes := ?bs, writerIndex := length ?bs\<rparr>) = Some b'" "buf_ok b'"
      "peek b' = (peek b @ ?d) @ drop (writableBytes b) d"
    using append_ok [of "b\<lparr>bytes := ?bs, writerIndex := length ?bs\<rparr>" "drop (writableBytes b) d"] w(2,3) l eq by auto
  moreover have "copy_to ?d (writerIndex b) (bytes b) = Some ?bs" using w(1) l by simp
  ultimately show ?thesis using assms(2,3) False by (simp add: readFd_def Let_def)
qed

lemma prepend_ok:
  assumes "buf_ok b" "length d \<le> prependableBytes b"
  shows "\<exists>b'. prepend d b = Some b' \<and> buf_ok b' \<and> peek b' = d @ peek b"
proof -
  let ?i = "readerIndex b - length d"
  let ?bs = "take ?i (bytes b) @ d @ drop (?i + length d) (bytes b)"
  have le: "length d \<le> readerIndex b" "readerIndex b \<le> writerIndex b" "writerIndex b \<le> length (bytes b)"
    using assms by (auto simp: prependableBytes_def buf_ok_def)
  then have c: "copy_to d ?i (bytes b) = Some ?bs" by (intro copy_to_Some) simp
  have "drop (readerIndex b) (bytes b) = peek b @ drop (writerIndex b) (bytes b)"
    using le by (simp add: peek_def readableBytes_def) (metis append_take_drop_id drop_drop le_add_diff_inverse2)
  then have "peek (b\<lparr>bytes := ?bs, readerIndex := ?i\<rparr>) = d @ peek b"
    using le length_peek [OF assms(1)] by (intro peek_eq [of _ "take ?i (bytes b)" _ "drop (writerIndex b) (bytes b)"]) (simp_all add: readableBytes_def)
  moreover have "buf_ok (b\<lparr>bytes := ?bs, readerIndex := ?i\<rparr>)" using le assms(1) by (simp add: buf_ok_def)
  ultimately show ?thesis using c assms(2) by (simp add: prepend_def prependableBytes_def)
qed

text \<open>More than eight bytes that do not fit in front: the index wraps around.\<close>

lemma prepend_underflow:
  assumes "kCheapPrepend < length d" "prependableBytes b < length d"
  shows "prepend d b = None"
  using assms by (auto simp: prepend_def move_front_def split: option.split)

section \<open>Sequences of operations\<close>

datatype BufOp = OpAppend string | OpRead string | OpRetrieve nat | OpRetrieveAll | OpUnwrite nat

fun buf_op :: "BufOp \<Rightarrow> Buffer \<Rightarrow> Buffer option" where
  "buf_op (OpAppend d) b = Buffer_append d b"
| "buf_op (OpRead d) b = map_option (\<lambda>(n, e, b). b) (readFd (\<lambda>cap. ReadData (take cap (take extra_buf_size d))) b)"
| "buf_op (OpRetrieve n) b = retrieve n b"
| "buf_op OpRetrieveAll b = Some (retrieveAll b)"
| "buf_op (OpUnwrite n) b = unwrite n b"

fun queue_op :: "BufOp \<Rightarrow> string \<Rightarrow> string option" where
  "queue_op (OpAppend d) q = Some (q @ d)"
| "queue_op (OpRead d) q = Some (q @ take extra_buf_size d)"
| "queue_op (OpRetrieve n) q = (if n \<le> length q then Some (drop n q) else None)"
| "queue_op OpRetrieveAll q = Some []"
| "queue_op (OpUnwrite n) q = (if n \<le> length q then Some (take (length q - n) q) else None)"

fun run_ops :: "('o \<Rightarrow> 's \<Rightarrow> 's option) \<Rightarrow> 'o list \<Rightarrow> 's \<Rightarrow> 's option" where
  "run_ops step [] s = Some s"
| "run_ops step (x # xs) s = (case step x s of None \<Rightarrow> None | Some s \<Rightarrow> run_ops step xs s)"

lemma buf_op_refines:
  assumes "buf_ok b"
  shows "map_option peek (buf_op x b) = queue_op x (peek b) \<and> (\<forall>b'. buf_op x b = Some b' \<longrightarrow> buf_ok b')"
proof (cases x)
  case (OpAppend d)
  then show ?thesis using append_ok [OF assms, of d] by auto
next
  case (OpRead d)
  then show ?thesis using readFd_ok [OF assms, of "\<lambda>cap. ReadData (take cap (take extra_buf_size d))" "take extra_buf_size d"] by auto
next
  case (OpRetrieve n)
  then show ?thesis using bq.pop_ok [OF assms, of n] bq.pop_none [OF assms, of n] by (cases "n \<le> length (peek b)") auto
next
  case (OpUnwrite n)
  have "n \<le> readableBytes b \<Longrightarrow> peek (b\<lparr>writerIndex := writerIndex b - n\<rparr>) = take (length (peek b) - n) (peek b)"
    using length_peek [OF assms] by (simp add: peek_def readableBytes_def diff_commute min_def add.commute)
  with OpUnwrite show ?thesis using length_peek [OF assms] assms by (auto simp: unwrite_def buf_ok_def readableBytes_def)
qed (use assms in simp)


end
