(* ===== verification/Tcp_Connection.thy ===== *)
theory Tcp_Connection
  imports Net_Buffer
begin

text \<open>
  \<^verbatim>\<open>network/TcpConnection.cpp\<close>: one connection on its event loop. The record has the fields of the class, the
  two interest flags of its channel, what the kernel was given to send, whether the sending side of the socket was
  shut down, the tasks queued on the loop, and the callbacks made. A write is the answer of the
  parameter \<open>os\<close> to the bytes offered. Calls from another thread are tasks on the loop, as in the source. The
  connection, message and close callbacks are set, as \<^verbatim>\<open>TcpServer\<close> does; the one for completed writes may be.
  An assertion of the buffer that fails is \<open>None\<close>.
\<close>

section \<open>State\<close>

datatype TcpConnectionState = kConnecting | kConnected | kDisconnecting | kDisconnected

datatype LoopTask = SendTask string | CoalesceTask | FlushTask | ShutdownTask | ForceCloseTask | WriteCompleteTask | StartReadTask | StopReadTask

datatype Callback = ConnectionCb | MessageCb nat | CloseCb | WriteCompleteCb

datatype WriteRc = Wrote nat | WriteAgain | WriteFault | WriteOther

record TcpConnection =
  tc_state :: TcpConnectionState
  tc_reading :: bool
  ch_reading :: bool
  ch_writing :: bool
  inputBuffer :: Buffer
  outputBuffer :: Buffer
  write_coalescing :: bool
  has_write_complete :: bool
  kernel_out :: string
  sock_shutdown :: bool
  loop_tasks :: "LoopTask list"
  callbacks :: "Callback list"

definition kHighWaterMarkBytes :: nat where
  "kHighWaterMarkBytes = 8 * 1024 * 1024"

definition new_TcpConnection :: "bool \<Rightarrow> TcpConnection" where
  "new_TcpConnection wc = \<lparr>tc_state = kConnecting, tc_reading = True, ch_reading = False, ch_writing = False,
     inputBuffer = new_Buffer kInitialSize, outputBuffer = new_Buffer kInitialSize, write_coalescing = False, has_write_complete = wc,
     kernel_out = [], sock_shutdown = False, loop_tasks = [], callbacks = []\<rparr>"

definition queueInLoop :: "LoopTask \<Rightarrow> TcpConnection \<Rightarrow> TcpConnection" where
  "queueInLoop t c = c\<lparr>loop_tasks := loop_tasks c @ [t]\<rparr>"

definition callback :: "Callback \<Rightarrow> TcpConnection \<Rightarrow> TcpConnection" where
  "callback cb c = c\<lparr>callbacks := callbacks c @ [cb]\<rparr>"

section \<open>Opening and closing\<close>

definition connectEstablished :: "TcpConnection \<Rightarrow> TcpConnection" where
  "connectEstablished c = callback ConnectionCb (c\<lparr>tc_state := kConnected, ch_reading := True\<rparr>)"

definition connectDestroyed :: "TcpConnection \<Rightarrow> TcpConnection" where
  "connectDestroyed c = callback ConnectionCb
     ((if tc_state c = kConnected then c\<lparr>tc_state := kDisconnected\<rparr> else c)\<lparr>ch_reading := False, ch_writing := False\<rparr>)"

definition handleClose :: "TcpConnection \<Rightarrow> TcpConnection" where
  "handleClose c = callback CloseCb (c\<lparr>tc_state := kDisconnected, ch_reading := False, ch_writing := False\<rparr>)"

definition shutdownInLoop :: "TcpConnection \<Rightarrow> TcpConnection" where
  "shutdownInLoop c = (if \<not> ch_writing c then c\<lparr>sock_shutdown := True\<rparr> else c)"

definition tcp_shutdown :: "bool \<Rightarrow> TcpConnection \<Rightarrow> TcpConnection" where
  "tcp_shutdown in_loop c =
     (if tc_state c = kConnected
      then let c = c\<lparr>tc_state := kDisconnecting\<rparr> in if in_loop then shutdownInLoop c else queueInLoop ShutdownTask c
      else c)"

definition tcp_forceClose :: "TcpConnection \<Rightarrow> TcpConnection" where
  "tcp_forceClose c =
     (if tc_state c = kConnected \<or> tc_state c = kDisconnecting
      then queueInLoop ForceCloseTask (c\<lparr>tc_state := kDisconnecting\<rparr>) else c)"

definition forceCloseInLoop :: "TcpConnection \<Rightarrow> TcpConnection" where
  "forceCloseInLoop c = (if tc_state c = kConnected \<or> tc_state c = kDisconnecting then handleClose c else c)"

section \<open>Sending\<close>

definition enforceOutputBackpressure :: "TcpConnection \<Rightarrow> TcpConnection" where
  "enforceOutputBackpressure c =
     (if readableBytes (outputBuffer c) \<le> kHighWaterMarkBytes then c else forceCloseInLoop c)"

text \<open>Bytes the kernel did not take are queued, the channel watches for writing, and the high water mark is checked.\<close>

definition queue_output :: "string \<Rightarrow> TcpConnection \<Rightarrow> TcpConnection option" where
  "queue_output data c =
     map_option (\<lambda>b. enforceOutputBackpressure (c\<lparr>outputBuffer := b, ch_writing := True\<rparr>)) (Buffer_append data (outputBuffer c))"

text \<open>What is done when the output buffer has been written.\<close>

definition output_drained :: "TcpConnection \<Rightarrow> TcpConnection" where
  "output_drained c =
     (let c = c\<lparr>ch_writing := False\<rparr>; c = (if has_write_complete c then queueInLoop WriteCompleteTask c else c)
      in if tc_state c = kDisconnecting then shutdownInLoop c else c)"

definition writev_left :: "nat \<Rightarrow> string \<Rightarrow> Buffer \<Rightarrow> Buffer option" where
  "writev_left nu data b =
     (let buf_len = readableBytes b in
      if nu \<le> buf_len then case retrieve nu b of None \<Rightarrow> None | Some b \<Rightarrow> Buffer_append data b
      else case retrieve buf_len b of
          None \<Rightarrow> None
        | Some b \<Rightarrow> if nu - buf_len < length data then Buffer_append (drop (nu - buf_len) data) b else Some b)"

definition after_writev :: "nat \<Rightarrow> string \<Rightarrow> TcpConnection \<Rightarrow> TcpConnection option" where
  "after_writev nu data c = map_option (\<lambda>b.
       let c = c\<lparr>kernel_out := kernel_out c @ take nu (peek (outputBuffer c) @ data), outputBuffer := b\<rparr>;
           c = (if readableBytes b = 0 then output_drained c else c\<lparr>ch_writing := True\<rparr>)
       in enforceOutputBackpressure c) (writev_left nu data (outputBuffer c))"

definition sendInLoop :: "(string \<Rightarrow> WriteRc) \<Rightarrow> string \<Rightarrow> TcpConnection \<Rightarrow> TcpConnection option" where
  "sendInLoop os data c =
     (if tc_state c = kDisconnected then Some c
      else if write_coalescing c then (if data \<noteq> [] then queue_output data c else Some c)
      else if readableBytes (outputBuffer c) > 0 \<and> data \<noteq> []
      then (case os (peek (outputBuffer c) @ data) of
          WriteFault \<Rightarrow> Some c
        | WriteAgain \<Rightarrow> queue_output data c
        | WriteOther \<Rightarrow> queue_output data c
        | Wrote n \<Rightarrow> if n = 0 then queue_output data c else after_writev n data c)
      else if \<not> ch_writing c \<and> readableBytes (outputBuffer c) = 0
      then (case os data of
          WriteFault \<Rightarrow> Some c
        | Wrote n \<Rightarrow>
            let c = c\<lparr>kernel_out := kernel_out c @ take n data\<rparr>
            in if length data - n = 0 then Some (if has_write_complete c then queueInLoop WriteCompleteTask c else c)
               else queue_output (drop n data) c
        | _ \<Rightarrow> if data \<noteq> [] then queue_output data c else Some c)
      else if data \<noteq> [] then queue_output data c
      else Some c)"

definition tcp_send :: "bool \<Rightarrow> (string \<Rightarrow> WriteRc) \<Rightarrow> string \<Rightarrow> TcpConnection \<Rightarrow> TcpConnection option" where
  "tcp_send in_loop os message c =
     (if tc_state c = kConnected then if in_loop then sendInLoop os message c else Some (queueInLoop (SendTask message) c) else Some c)"

definition tcp_send_buffer :: "bool \<Rightarrow> (string \<Rightarrow> WriteRc) \<Rightarrow> Buffer \<Rightarrow> TcpConnection \<Rightarrow> (Buffer \<times> TcpConnection) option" where
  "tcp_send_buffer in_loop os b c =
     (if tc_state c = kConnected \<and> readableBytes b > 0
      then if in_loop then map_option (\<lambda>c. (retrieveAll b, c)) (sendInLoop os (peek b) c)
           else let (message, b) = retrieveAllAsString b in Some (b, queueInLoop (SendTask message) c)
      else Some (b, c))"

definition beginWriteCoalescing :: "bool \<Rightarrow> TcpConnection \<Rightarrow> TcpConnection" where
  "beginWriteCoalescing in_loop c = (if in_loop then c\<lparr>write_coalescing := True\<rparr> else queueInLoop CoalesceTask c)"

definition flush_coalesced :: "TcpConnection \<Rightarrow> TcpConnection" where
  "flush_coalesced c =
     (let c = c\<lparr>write_coalescing := False\<rparr> in
      if tc_state c \<noteq> kConnected then c
      else if readableBytes (outputBuffer c) > 0 \<and> \<not> ch_writing c then c\<lparr>ch_writing := True\<rparr> else c)"

definition endWriteCoalescing :: "bool \<Rightarrow> TcpConnection \<Rightarrow> TcpConnection" where
  "endWriteCoalescing in_loop c = (if in_loop then flush_coalesced c else queueInLoop FlushTask c)"

section \<open>Events of the channel\<close>

definition startReadInLoop :: "TcpConnection \<Rightarrow> TcpConnection" where
  "startReadInLoop c = (if \<not> tc_reading c \<or> \<not> ch_reading c then c\<lparr>ch_reading := True, tc_reading := True\<rparr> else c)"

definition stopReadInLoop :: "TcpConnection \<Rightarrow> TcpConnection" where
  "stopReadInLoop c = (if tc_reading c \<or> ch_reading c then c\<lparr>ch_reading := False, tc_reading := False\<rparr> else c)"

definition startRead :: "bool \<Rightarrow> TcpConnection \<Rightarrow> TcpConnection" where
  "startRead in_loop c = (if in_loop then startReadInLoop c else queueInLoop StartReadTask c)"

definition stopRead :: "bool \<Rightarrow> TcpConnection \<Rightarrow> TcpConnection" where
  "stopRead in_loop c = (if in_loop then stopReadInLoop c else queueInLoop StopReadTask c)"

definition handleRead :: "(nat \<Rightarrow> ReadRc) \<Rightarrow> TcpConnection \<Rightarrow> TcpConnection option" where
  "handleRead os c = map_option (\<lambda>(n, e, b).
       let c = c\<lparr>inputBuffer := b\<rparr> in
       if n > 0 then callback (MessageCb (nat n)) c else if n = 0 then handleClose c else c) (readFd os (inputBuffer c))"

definition handleWrite :: "(string \<Rightarrow> WriteRc) \<Rightarrow> TcpConnection \<Rightarrow> TcpConnection option" where
  "handleWrite os c =
     (if ch_writing c
      then case os (peek (outputBuffer c)) of
          Wrote n \<Rightarrow>
            if n = 0 then Some c
            else map_option (\<lambda>b.
                let c = c\<lparr>kernel_out := kernel_out c @ take n (peek (outputBuffer c)), outputBuffer := b\<rparr>
                in if readableBytes b = 0 then output_drained c else c) (retrieve n (outputBuffer c))
        | _ \<Rightarrow> Some c
      else Some c)"

fun run_task :: "(string \<Rightarrow> WriteRc) \<Rightarrow> LoopTask \<Rightarrow> TcpConnection \<Rightarrow> TcpConnection option" where
  "run_task os (SendTask message) c = sendInLoop os message c"
| "run_task os CoalesceTask c = Some (c\<lparr>write_coalescing := True\<rparr>)"
| "run_task os FlushTask c = Some (flush_coalesced c)"
| "run_task os ShutdownTask c = Some (shutdownInLoop c)"
| "run_task os ForceCloseTask c = Some (forceCloseInLoop c)"
| "run_task os WriteCompleteTask c = Some (callback WriteCompleteCb c)"
| "run_task os StartReadTask c = Some (startReadInLoop c)"
| "run_task os StopReadTask c = Some (stopReadInLoop c)"

section \<open>Order and loss\<close>

definition os_ok :: "(string \<Rightarrow> WriteRc) \<Rightarrow> bool" where
  "os_ok os \<longleftrightarrow> (\<forall>d n. os d = Wrote n \<longrightarrow> n \<le> length d)"

text \<open>All bytes accepted: those the kernel has and those waiting.\<close>

definition tcp_bytes :: "TcpConnection \<Rightarrow> string" where
  "tcp_bytes c = kernel_out c @ peek (outputBuffer c)"

text \<open>The invariant without and with the high water mark.\<close>

definition tcp_inv :: "TcpConnection \<Rightarrow> bool" where
  "tcp_inv c \<longleftrightarrow> buf_ok (outputBuffer c) \<and> buf_ok (inputBuffer c) \<and> tc_state c \<noteq> kConnecting \<and>
     (tc_state c = kDisconnected \<or> peek (outputBuffer c) = [] \<or> ch_writing c) \<and>
     (sock_shutdown c \<longrightarrow> tc_state c = kDisconnected \<or> tc_state c = kDisconnecting \<and> peek (outputBuffer c) = [])"

definition tcp_ok :: "TcpConnection \<Rightarrow> bool" where
  "tcp_ok c \<longleftrightarrow> tcp_inv c \<and> (tc_state c = kDisconnected \<or> length (peek (outputBuffer c)) \<le> kHighWaterMarkBytes)"

lemma tcp_sel [simp]:
  "tc_state (queueInLoop t c) = tc_state c" "ch_writing (queueInLoop t c) = ch_writing c" "outputBuffer (queueInLoop t c) = outputBuffer c"
  "inputBuffer (queueInLoop t c) = inputBuffer c" "kernel_out (queueInLoop t c) = kernel_out c" "sock_shutdown (queueInLoop t c) = sock_shutdown c"
  "tc_state (callback b c) = tc_state c" "ch_writing (callback b c) = ch_writing c" "outputBuffer (callback b c) = outputBuffer c"
  "inputBuffer (callback b c) = inputBuffer c" "kernel_out (callback b c) = kernel_out c" "sock_shutdown (callback b c) = sock_shutdown c"
  by (simp_all add: queueInLoop_def callback_def)

lemma force_close [simp]: "tcp_inv c \<Longrightarrow> tcp_ok (forceCloseInLoop c)" "tcp_bytes (forceCloseInLoop c) = tcp_bytes c"
    "outputBuffer (forceCloseInLoop c) = outputBuffer c"
  by (cases "tc_state c"; simp add: forceCloseInLoop_def handleClose_def tcp_ok_def tcp_inv_def tcp_bytes_def)+

lemma backpressure [simp]: "tcp_inv c \<Longrightarrow> tcp_ok (enforceOutputBackpressure c)" "tcp_bytes (enforceOutputBackpressure c) = tcp_bytes c"
proof -
  show "tcp_inv c \<Longrightarrow> tcp_ok (enforceOutputBackpressure c)"
    using length_peek [of "outputBuffer c"]
    by (cases "readableBytes (outputBuffer c) \<le> kHighWaterMarkBytes") (simp_all add: enforceOutputBackpressure_def, simp add: tcp_ok_def tcp_inv_def)
  show "tcp_bytes (enforceOutputBackpressure c) = tcp_bytes c" by (simp add: enforceOutputBackpressure_def)
qed

lemma queue_output_ok:
  assumes "tcp_inv c" "\<not> sock_shutdown c"
  shows "\<exists>c'. queue_output d c = Some c' \<and> tcp_ok c' \<and> tcp_bytes c' = tcp_bytes c @ d"
proof -
  obtain b where b: "Buffer_append d (outputBuffer c) = Some b" "buf_ok b" "peek b = peek (outputBuffer c) @ d"
    by (rule bq.pushE [of "outputBuffer c" d]) (use assms(1) in \<open>simp add: tcp_inv_def\<close>)
  then have "tcp_inv (c\<lparr>outputBuffer := b, ch_writing := True\<rparr>)" using assms by (simp add: tcp_inv_def)
  with b show ?thesis by (simp add: queue_output_def) (simp add: tcp_bytes_def)
qed

lemma drained_ok:
  assumes "buf_ok (outputBuffer c)" "buf_ok (inputBuffer c)" "tc_state c \<noteq> kConnecting" "peek (outputBuffer c) = []" "sock_shutdown c \<longrightarrow> tc_state c \<noteq> kConnected"
  shows "tcp_inv (output_drained c)" "tcp_bytes (output_drained c) = tcp_bytes c"
proof -
  show "tcp_inv (output_drained c)"
    using assms by (cases "tc_state c") (auto simp: output_drained_def Let_def shutdownInLoop_def tcp_inv_def)
  show "tcp_bytes (output_drained c) = tcp_bytes c" by (simp add: output_drained_def Let_def shutdownInLoop_def tcp_bytes_def)
qed

lemma writev_rest:
  assumes "buf_ok o1" "n \<le> length (peek o1 @ d)"
  shows "\<exists>b. writev_left n d o1 = Some b \<and> buf_ok b \<and> peek b = drop n (peek o1 @ d)"
proof (cases "n \<le> readableBytes o1")
  case True
  then have "n \<le> length (peek o1)" using length_peek [OF assms(1)] by simp
  then obtain b1 b2 where "retrieve n o1 = Some b1" "Buffer_append d b1 = Some b2" "buf_ok b2" "peek b2 = drop n (peek o1 @ d)"
    by (rule bq.pop_push [OF assms(1)])
  with True show ?thesis by (simp add: writev_left_def)
next
  case False
  have l: "readableBytes o1 = length (peek o1)" using length_peek [OF assms(1)] by simp
  obtain b1 where b1: "retrieve (readableBytes o1) o1 = Some b1" "buf_ok b1" "peek b1 = drop (readableBytes o1) (peek o1)"
    by (rule bq.popE [OF assms(1), of "readableBytes o1"]) (simp add: l)
  obtain b2 where "Buffer_append (drop (n - readableBytes o1) d) b1 = Some b2" "buf_ok b2" "peek b2 = peek b1 @ drop (n - readableBytes o1) d"
    by (rule bq.pushE [OF b1(2)])
  with False b1 l show ?thesis by (cases "n - readableBytes o1 < length d") (simp_all add: writev_left_def)
qed

lemma after_writev_ok:
  assumes "tcp_inv c" "\<not> sock_shutdown c" "n \<le> length (peek (outputBuffer c) @ d)"
  shows "\<exists>c'. after_writev n d c = Some c' \<and> tcp_ok c' \<and> tcp_bytes c' = tcp_bytes c @ d"
proof -
  let ?o = "outputBuffer c"
  have ok: "buf_ok ?o" using assms(1) by (simp add: tcp_inv_def)
  obtain b where b: "writev_left n d ?o = Some b" "buf_ok b" "peek b = drop n (peek ?o @ d)" using writev_rest [OF ok assms(3)] by blast
  let ?c = "c\<lparr>kernel_out := kernel_out c @ take n (peek ?o @ d), outputBuffer := b\<rparr>"
  let ?d = "if readableBytes b = 0 then output_drained ?c else ?c\<lparr>ch_writing := True\<rparr>"
  have bytes: "tcp_bytes ?c = tcp_bytes c @ d" using append_take_drop_id [of n "peek ?o @ d"] b(3) by (simp add: tcp_bytes_def)
  have "tcp_inv ?d \<and> tcp_bytes ?d = tcp_bytes c @ d"
  proof (cases "readableBytes b = 0")
    case True
    then have "peek b = []" using length_peek [OF b(2)] by simp
    then show ?thesis using True drained_ok [of ?c] assms(1,2) b(2) bytes by (simp add: tcp_inv_def)
  next
    case False
    moreover have "tcp_bytes (?c\<lparr>ch_writing := True\<rparr>) = tcp_bytes ?c" by (simp add: tcp_bytes_def)
    ultimately show ?thesis using assms(1,2) b(2) bytes by (simp add: tcp_inv_def)
  qed
  moreover have "after_writev n d c = Some (enforceOutputBackpressure ?d)" using b(1) by (simp add: after_writev_def Let_def)
  ultimately show ?thesis by simp
qed

lemma write_rest_ok:
  assumes "tcp_ok c" "\<not> sock_shutdown c" "peek (outputBuffer c) = []" "n \<le> length d"
  shows "\<exists>c'. (let c = c\<lparr>kernel_out := kernel_out c @ take n d\<rparr>
      in if length d - n = 0 then Some (if has_write_complete c then queueInLoop WriteCompleteTask c else c) else queue_output (drop n d) c) = Some c' \<and>
    tcp_ok c' \<and> tcp_bytes c' = tcp_bytes c @ d"
proof -
  let ?k = "c\<lparr>kernel_out := kernel_out c @ take n d\<rparr>"
  have k: "tcp_ok ?k" "tcp_inv ?k" "\<not> sock_shutdown ?k" using assms(1,2) by (auto simp: tcp_inv_def tcp_ok_def)
  show ?thesis
  proof (cases "length d - n = 0")
    case True
    then have "tcp_bytes ?k = tcp_bytes c @ d" using assms(3) by (simp add: tcp_bytes_def)
    moreover have "tcp_ok (queueInLoop WriteCompleteTask ?k)" "tcp_bytes (queueInLoop WriteCompleteTask ?k) = tcp_bytes ?k"
      using k(1) by (simp_all add: tcp_ok_def tcp_inv_def tcp_bytes_def)
    ultimately show ?thesis using True k(1) by (simp add: Let_def)
  next
    case False
    moreover have "tcp_bytes ?k @ drop n d = tcp_bytes c @ d" using assms(3) by (simp add: tcp_bytes_def)
    ultimately show ?thesis using queue_output_ok [OF k(2,3), of "drop n d"] by (simp add: Let_def)
  qed
qed

text \<open>A message is queued behind everything accepted before, or, if the peer is gone, dropped whole.\<close>

lemma send_in_loop_ok:
  assumes "tcp_ok c" "os_ok os" "\<not> sock_shutdown c" "tc_state c \<noteq> kDisconnected"
  shows "\<exists>c'. sendInLoop os d c = Some c' \<and> tcp_ok c' \<and>
    tcp_bytes c' = (if os (peek (outputBuffer c) @ d) = WriteFault \<and> \<not> write_coalescing c \<and> (ch_writing c \<longrightarrow> peek (outputBuffer c) \<noteq> [] \<and> d \<noteq> [])
      then tcp_bytes c else tcp_bytes c @ d)"
proof -
  have inv: "tcp_inv c" "readableBytes (outputBuffer c) = length (peek (outputBuffer c))"
    using assms(1) length_peek by (auto simp: tcp_ok_def tcp_inv_def)
  note q = queue_output_ok [OF inv(1) assms(3)]
  have w: "os (peek (outputBuffer c) @ d) = Wrote n \<Longrightarrow> n \<le> length (peek (outputBuffer c) @ d)" for n using assms(2) unfolding os_ok_def by blast
  show ?thesis
  proof (cases "write_coalescing c \<or> peek (outputBuffer c) \<noteq> [] \<or> ch_writing c")
    case True
    show ?thesis
    proof (cases "write_coalescing c \<or> peek (outputBuffer c) = [] \<or> d = []")
      case coal: True
      then show ?thesis using q [of d] assms(1,4) inv(2) True by (cases "d = []") (auto simp: sendInLoop_def tcp_bytes_def)
    next
      case False
      then show ?thesis
        using q [of d] after_writev_ok [OF inv(1) assms(3) w] assms(1,4) inv(2)
        by (cases "os (peek (outputBuffer c) @ d)") (simp_all add: sendInLoop_def)
    qed
  next
    case False
    then have e: "peek (outputBuffer c) = []" "\<not> write_coalescing c" "\<not> ch_writing c" "readableBytes (outputBuffer c) = 0" using inv(2) by auto
    show ?thesis
    proof (cases "os d")
      case (Wrote n)
      then have "n \<le> length d" using w [of n] e(1) by simp
      from write_rest_ok [OF assms(1,3) e(1) this] show ?thesis using e Wrote assms(4) by (simp add: sendInLoop_def)
    next
      case WriteFault
      then show ?thesis using e assms(1,4) by (simp add: sendInLoop_def)
    qed (use e q [of d] assms(1,4) in \<open>cases "d = []"; simp add: sendInLoop_def\<close>)+
  qed
qed

lemma handle_write_ok:
  assumes "tcp_ok c" "os_ok os" "handleWrite os c = Some c'"
  shows "tcp_ok c' \<and> tcp_bytes c' = tcp_bytes c"
proof (cases "ch_writing c \<and> (\<exists>n. os (peek (outputBuffer c)) = Wrote n \<and> n \<noteq> 0)")
  case True
  then obtain n where n: "os (peek (outputBuffer c)) = Wrote n" "n \<noteq> 0" "ch_writing c" by blast
  have inv: "tcp_inv c" using assms(1) by (simp add: tcp_ok_def)
  have le: "n \<le> length (peek (outputBuffer c))" using assms(2) n(1) by (simp add: os_ok_def)
  obtain b where b: "retrieve n (outputBuffer c) = Some b" "buf_ok b" "peek b = drop n (peek (outputBuffer c))"
    by (rule bq.popE [of "outputBuffer c" n]) (use inv le in \<open>simp_all add: tcp_inv_def\<close>)
  let ?c = "c\<lparr>kernel_out := kernel_out c @ take n (peek (outputBuffer c)), outputBuffer := b\<rparr>"
  have c': "c' = (if readableBytes b = 0 then output_drained ?c else ?c)" using assms(3) n b(1) by (simp add: handleWrite_def Let_def)
  have bytes: "tcp_bytes ?c = tcp_bytes c" using b(3) by (simp add: tcp_bytes_def)
  show ?thesis
  proof (cases "readableBytes b = 0")
    case True
    then have "peek b = []" using length_peek [OF b(2)] by simp
    then have "buf_ok (outputBuffer ?c)" "buf_ok (inputBuffer ?c)" "tc_state ?c \<noteq> kConnecting" "peek (outputBuffer ?c) = []"
        "sock_shutdown ?c \<longrightarrow> tc_state ?c \<noteq> kConnected" using inv b(2) by (auto simp: tcp_inv_def)
    note d = drained_ok [OF this]
    have "peek (outputBuffer (output_drained ?c)) = []" using \<open>peek b = []\<close> by (simp add: output_drained_def Let_def shutdownInLoop_def)
    then show ?thesis using True c' bytes d by (simp add: tcp_ok_def)
  next
    case False
    then show ?thesis using c' bytes assms(1) b le n(3) by (auto simp: tcp_ok_def tcp_inv_def)
  qed
next
  case False
  then have "c' = c" using assms(3) by (auto simp: handleWrite_def split: if_splits WriteRc.splits)
  then show ?thesis using assms(1) by simp
qed

lemma handle_read_ok:
  assumes "tcp_ok c" "os = (\<lambda>cap. ReadData (take cap d)) \<and> length d \<le> extra_buf_size \<or> os = (\<lambda>_. ReadErr e)" "handleRead os c = Some c'"
  shows "tcp_ok c' \<and> tcp_bytes c' = tcp_bytes c"
proof -
  have "buf_ok (inputBuffer c)" using assms(1) by (simp add: tcp_ok_def tcp_inv_def)
  then obtain n x b' where "readFd os (inputBuffer c) = Some (n, x, b')" "buf_ok b'"
    using readFd_ok [of "inputBuffer c" os d] assms(2) by (auto simp: readFd_def Let_def)
  then show ?thesis using assms(1,3) by (auto simp: handleRead_def Let_def handleClose_def tcp_ok_def tcp_inv_def tcp_bytes_def split: if_splits)
qed

lemma flush_ok: "tcp_ok c \<Longrightarrow> tcp_ok (flush_coalesced c)" "tcp_bytes (flush_coalesced c) = tcp_bytes c"
  by (auto simp: flush_coalesced_def Let_def tcp_ok_def tcp_inv_def tcp_bytes_def)

lemma shutdown_ok: "tcp_ok c \<Longrightarrow> tc_state c \<noteq> kConnected \<Longrightarrow> tcp_ok (shutdownInLoop c)" "tcp_bytes (shutdownInLoop c) = tcp_bytes c"
  by (cases "tc_state c"; auto simp: shutdownInLoop_def tcp_ok_def tcp_inv_def tcp_bytes_def)+

lemma tasks_ok [simp]: "tcp_ok (c\<lparr>loop_tasks := ts\<rparr>) = tcp_ok c" "tcp_bytes (c\<lparr>loop_tasks := ts\<rparr>) = tcp_bytes c"
    "tcp_ok (queueInLoop t c) = tcp_ok c" "tcp_bytes (queueInLoop t c) = tcp_bytes c"
    "tcp_ok (callback cb c) = tcp_ok c" "tcp_bytes (callback cb c) = tcp_bytes c"
    "tcp_ok (c\<lparr>write_coalescing := b\<rparr>) = tcp_ok c" "tcp_bytes (c\<lparr>write_coalescing := b\<rparr>) = tcp_bytes c"
  by (simp_all add: tcp_ok_def tcp_inv_def tcp_bytes_def)

section \<open>The life of a connection\<close>

text \<open>
  The events of an open connection, with the messages accepted so far: sends from the loop and tasks queued by
  other threads, channel events, coalescing, shutdown and forced close. A message is accepted unless the
  connection is disconnected or the kernel reports that the peer is gone. A shutdown or forced close that was queued
  finds the state its caller left.
\<close>

inductive tcp_run :: "string list \<Rightarrow> TcpConnection \<Rightarrow> bool" where
  established: "tcp_run [] (connectEstablished (new_TcpConnection wc))"
| send: "tcp_run ms c \<Longrightarrow> os_ok os \<Longrightarrow> (\<And>x. os x \<noteq> WriteFault) \<Longrightarrow> tc_state c = kConnected \<Longrightarrow> tcp_send True os d c = Some c' \<Longrightarrow>
    tcp_run (ms @ [d]) c'"
| send_other: "tcp_run ms c \<Longrightarrow> tcp_send False os d c = Some c' \<Longrightarrow> tcp_run ms c'"
| send_task: "tcp_run ms c \<Longrightarrow> os_ok os \<Longrightarrow> (\<And>x. os x \<noteq> WriteFault) \<Longrightarrow> loop_tasks c = SendTask d # ts \<Longrightarrow> tc_state c \<noteq> kDisconnected \<Longrightarrow>
    \<not> sock_shutdown c \<Longrightarrow> run_task os (SendTask d) (c\<lparr>loop_tasks := ts\<rparr>) = Some c' \<Longrightarrow> tcp_run (ms @ [d]) c'"
| send_late: "tcp_run ms c \<Longrightarrow> loop_tasks c = SendTask d # ts \<Longrightarrow> tc_state c = kDisconnected \<Longrightarrow>
    run_task os (SendTask d) (c\<lparr>loop_tasks := ts\<rparr>) = Some c' \<Longrightarrow> tcp_run ms c'"
| task: "tcp_run ms c \<Longrightarrow> loop_tasks c = t # ts \<Longrightarrow> t \<in> {CoalesceTask, FlushTask, WriteCompleteTask, ForceCloseTask} \<Longrightarrow>
    run_task os t (c\<lparr>loop_tasks := ts\<rparr>) = Some c' \<Longrightarrow> tcp_run ms c'"
| shutdown_task: "tcp_run ms c \<Longrightarrow> loop_tasks c = ShutdownTask # ts \<Longrightarrow> tc_state c \<noteq> kConnected \<Longrightarrow>
    run_task os ShutdownTask (c\<lparr>loop_tasks := ts\<rparr>) = Some c' \<Longrightarrow> tcp_run ms c'"
| writable: "tcp_run ms c \<Longrightarrow> os_ok os \<Longrightarrow> handleWrite os c = Some c' \<Longrightarrow> tcp_run ms c'"
| readable: "tcp_run ms c \<Longrightarrow> os = (\<lambda>cap. ReadData (take cap d)) \<and> length d \<le> extra_buf_size \<or> os = (\<lambda>_. ReadErr e) \<Longrightarrow>
    handleRead os c = Some c' \<Longrightarrow> tcp_run ms c'"
| begin_coalescing: "tcp_run ms c \<Longrightarrow> tcp_run ms (beginWriteCoalescing b c)"
| end_coalescing: "tcp_run ms c \<Longrightarrow> tcp_run ms (endWriteCoalescing b c)"
| shutdown: "tcp_run ms c \<Longrightarrow> tcp_run ms (tcp_shutdown b c)"
| force_close: "tcp_run ms c \<Longrightarrow> tcp_run ms (tcp_forceClose c)"

lemma tcp_shutdown_ok: "tcp_ok c \<Longrightarrow> tcp_ok (tcp_shutdown b c) \<and> tcp_bytes (tcp_shutdown b c) = tcp_bytes c"
proof -
  assume a: "tcp_ok c"
  have "tcp_ok (c\<lparr>tc_state := kDisconnecting\<rparr>)" "tcp_bytes (c\<lparr>tc_state := kDisconnecting\<rparr>) = tcp_bytes c" if "tc_state c = kConnected"
    using a that by (auto simp: tcp_ok_def tcp_inv_def tcp_bytes_def)
  then show ?thesis using a shutdown_ok [of "c\<lparr>tc_state := kDisconnecting\<rparr>"] by (simp add: tcp_shutdown_def Let_def)
qed

lemma tcp_run_ok: "tcp_run ms c \<Longrightarrow> tcp_ok c \<and> tcp_bytes c = concat ms"
proof (induction rule: tcp_run.induct)
  case (established wc)
  show ?case by (simp add: connectEstablished_def new_TcpConnection_def tcp_ok_def tcp_inv_def tcp_bytes_def callback_def)
next
  case (send ms c os d c')
  then have "\<not> sock_shutdown c" by (auto simp: tcp_ok_def tcp_inv_def)
  with send show ?case using send_in_loop_ok [of c os d] by (auto simp: tcp_send_def)
next
  case (send_task ms c os d ts c')
  then show ?case using send_in_loop_ok [of "c\<lparr>loop_tasks := ts\<rparr>" os d] by auto
next
  case (task ms c t ts os c')
  moreover have "tcp_inv (c\<lparr>loop_tasks := ts\<rparr>)" using task by (simp add: tcp_ok_def tcp_inv_def)
  ultimately show ?case using flush_ok [of "c\<lparr>loop_tasks := ts\<rparr>"] by auto
next
  case (shutdown_task ms c ts os c')
  then show ?case using shutdown_ok [of "c\<lparr>loop_tasks := ts\<rparr>"] by auto
next
  case (force_close ms c)
  then show ?case by (auto simp: tcp_forceClose_def) (auto simp: tcp_ok_def tcp_inv_def tcp_bytes_def)
next
  case (writable ms c os c')
  then show ?case using handle_write_ok [of c os c'] by simp
next
  case (readable ms c os d e c')
  then show ?case using handle_read_ok [of c os d e c'] by simp
next
  case (end_coalescing ms c b)
  then show ?case using flush_ok [of c] by (simp add: endWriteCoalescing_def)
next
  case (shutdown ms c b)
  then show ?case using tcp_shutdown_ok [of c b] by simp
qed (auto simp: tcp_send_def sendInLoop_def beginWriteCoalescing_def split: if_splits)

text \<open>
  C14. Whatever the kernel takes of each write, and whatever mix of direct, vectored and coalesced writes is
  used, the bytes given to the kernel followed by those waiting are exactly the accepted messages in order; what waits is
  never without a watch for writing and never above the high water mark while the connection is open; and the sending
  side of the socket is shut down only when everything accepted has been given to the kernel.
\<close>

theorem tcp_output_in_order:
  assumes "tcp_run ms c"
  shows "kernel_out c @ peek (outputBuffer c) = concat ms \<and>
    (tc_state c \<noteq> kDisconnected \<longrightarrow>
       (peek (outputBuffer c) \<noteq> [] \<longrightarrow> ch_writing c) \<and> length (peek (outputBuffer c)) \<le> kHighWaterMarkBytes \<and>
       (sock_shutdown c \<longrightarrow> kernel_out c = concat ms))"
  using tcp_run_ok [OF assms] by (auto simp: tcp_ok_def tcp_inv_def tcp_bytes_def)

theorem tcp_output_in_order_witness:
  "\<exists>c. tcp_send True (\<lambda>d. Wrote (min 3 (length d))) ''+PONG'' (connectEstablished (new_TcpConnection False)) = Some c \<and>
     kernel_out c @ peek (outputBuffer c) = ''+PONG'' \<and> kernel_out c = ''+PO''"
proof -
  let ?c = "connectEstablished (new_TcpConnection False)" and ?os = "\<lambda>d :: string. Wrote (min 3 (length d))"
  have "map_option kernel_out (tcp_send True ?os ''+PONG'' ?c) = Some ''+PO''"
    by (simp add: tcp_send_def sendInLoop_def queue_output_def Let_def connectEstablished_def callback_def new_TcpConnection_def readableBytes_def new_Buffer_def)
      (simp add: Buffer_append_def ensureWritableBytes_def writableBytes_def kInitialSize_def kCheapPrepend_def copy_to_def
        enforceOutputBackpressure_def readableBytes_def kHighWaterMarkBytes_def)
  then obtain c where c: "tcp_send True ?os ''+PONG'' ?c = Some c" "kernel_out c = ''+PO''" by auto
  have "tcp_run [''+PONG''] c"
    using tcp_run.send [OF tcp_run.established [of False], of ?os "''+PONG''" c] c(1) by (simp add: os_ok_def connectEstablished_def callback_def)
  from tcp_output_in_order [OF this] c show ?thesis by simp
qed

text \<open>
  A reply sent while writes are coalesced and followed by a forced close, as the server does on QUIT,
  is never given to the kernel: the close runs before the channel can write, and it drops the output buffer.
\<close>

theorem tcp_reply_before_force_close_lost:
  assumes "tcp_run ms c" "tc_state c = kConnected" "peek (outputBuffer c) = []" "loop_tasks c = []" "d \<noteq> []" "length d \<le> kHighWaterMarkBytes"
  shows "\<exists>c1 c2. tcp_send True os d (beginWriteCoalescing True c) = Some c1 \<and>
    loop_tasks (endWriteCoalescing True (tcp_forceClose c1)) = [ForceCloseTask] \<and>
    run_task os ForceCloseTask ((endWriteCoalescing True (tcp_forceClose c1))\<lparr>loop_tasks := []\<rparr>) = Some c2 \<and>
    tc_state c2 = kDisconnected \<and> \<not> ch_writing c2 \<and> kernel_out c2 = kernel_out c \<and> peek (outputBuffer c2) = d"
proof -
  have ok: "buf_ok (outputBuffer c)" using tcp_run_ok [OF assms(1)] by (simp add: tcp_ok_def tcp_inv_def)
  obtain b where b: "Buffer_append d (outputBuffer c) = Some b" "buf_ok b" "peek b = d"
    by (rule bq.pushE [OF ok, of d]) (simp add: assms(3))
  let ?c1 = "c\<lparr>outputBuffer := b, ch_writing := True, write_coalescing := True\<rparr>"
  have "readableBytes b = length d" using length_peek [OF b(2)] b(3) by simp
  then have "tcp_send True os d (beginWriteCoalescing True c) = Some ?c1"
    using assms(2,5,6) b(1) by (simp add: tcp_send_def beginWriteCoalescing_def sendInLoop_def queue_output_def enforceOutputBackpressure_def)
  moreover have "endWriteCoalescing True (tcp_forceClose ?c1) =
      c\<lparr>outputBuffer := b, ch_writing := True, write_coalescing := False, tc_state := kDisconnecting, loop_tasks := [ForceCloseTask]\<rparr>"
    using assms(2,4) by (cases c) (simp add: endWriteCoalescing_def tcp_forceClose_def flush_coalesced_def queueInLoop_def)
  ultimately show ?thesis using b(3) by (simp add: forceCloseInLoop_def handleClose_def)
qed

theorem tcp_reply_before_force_close_lost_witness:
  "\<exists>c1 c2. tcp_send True (\<lambda>d. Wrote (length d)) ''+OK'' (beginWriteCoalescing True (connectEstablished (new_TcpConnection False))) = Some c1 \<and>
    run_task (\<lambda>d. Wrote (length d)) ForceCloseTask ((endWriteCoalescing True (tcp_forceClose c1))\<lparr>loop_tasks := []\<rparr>) = Some c2 \<and>
    kernel_out c2 = []"
  using tcp_reply_before_force_close_lost [OF tcp_run.established [of False], of "''+OK''" "\<lambda>d. Wrote (length d)"]
  by (auto simp: connectEstablished_def callback_def new_TcpConnection_def kHighWaterMarkBytes_def)

end
