(* ===== verification/Tcp_Server.thy ===== *)
theory Tcp_Server
  imports Tcp_Connection Step_Systems
begin

text \<open>
  The server side of the network library: \<^verbatim>\<open>network/TcpServer.cpp\<close> with the accept loop of \<^verbatim>\<open>network/Acceptor.cpp\<close> and the
  loops of \<^verbatim>\<open>network/EventLoopThreadPool.cpp\<close>. Loop 0 is the loop of the server, loop \<open>i + 1\<close> is loop \<open>i\<close> of the pool. Each loop has
  a queue of tasks and runs them in order; \<^verbatim>\<open>runInLoop\<close> called in the thread of the loop runs the task at once. Connections are
  numbers in the heap \<open>ts_conn\<close>; what a connection queues on its loop and the close callback it makes are carried
  out here. The connection table is an association list; the source never looks at its order.
\<close>

section \<open>State\<close>

datatype NetTask = EstablishTask nat | RemoveTask nat | DestroyTask nat | ConnTask nat

record TcpServer =
  ts_name :: string
  ts_started :: bool
  nextConnId :: nat
  max_connections :: int
  connections :: "(string \<times> nat) list"
  ts_conn :: "nat \<Rightarrow> TcpConnection"
  ts_conn_name :: "nat \<Rightarrow> string"
  ts_conn_loop :: "nat \<Rightarrow> nat"
  pool_loops :: nat
  pool_next :: nat
  ts_tasks :: "nat \<Rightarrow> NetTask list"
  ts_running :: "nat \<Rightarrow> bool"
  ts_closed :: "int list"
  accepting :: bool

definition new_TcpServer :: "string \<Rightarrow> TcpServer" where
  "new_TcpServer name = \<lparr>ts_name = name, ts_started = False, nextConnId = 1, max_connections = 0, connections = [],
     ts_conn = (\<lambda>_. new_TcpConnection True), ts_conn_name = (\<lambda>_. []), ts_conn_loop = (\<lambda>_. 0), pool_loops = 0, pool_next = 0,
     ts_tasks = (\<lambda>_. []), ts_running = (\<lambda>_. False), ts_closed = [], accepting = False\<rparr>"

definition setMaxConnections :: "int \<Rightarrow> TcpServer \<Rightarrow> TcpServer" where
  "setMaxConnections n s = s\<lparr>max_connections := (if n < 0 then 0 else n)\<rparr>"

text \<open>Starting starts the loops of the pool and listens.\<close>

definition ts_start :: "nat \<Rightarrow> TcpServer \<Rightarrow> TcpServer" where
  "ts_start numThreads s =
     (if ts_started s then s
      else s\<lparr>ts_started := True, pool_loops := numThreads, ts_running := (\<lambda>l. l \<le> numThreads), accepting := True\<rparr>)"

definition getNextLoop :: "TcpServer \<Rightarrow> nat \<times> TcpServer" where
  "getNextLoop s =
     (if pool_loops s = 0 then (0, s)
      else (Suc (pool_next s), s\<lparr>pool_next := (if Suc (pool_next s) \<ge> pool_loops s then 0 else Suc (pool_next s))\<rparr>))"

definition ts_queue :: "nat \<Rightarrow> NetTask \<Rightarrow> TcpServer \<Rightarrow> TcpServer" where
  "ts_queue l t s = s\<lparr>ts_tasks := (ts_tasks s)(l := ts_tasks s l @ [t])\<rparr>"

section \<open>Connections come and go\<close>

definition removeConnectionInLoop :: "nat \<Rightarrow> TcpServer \<Rightarrow> TcpServer" where
  "removeConnectionInLoop c s =
     ts_queue (ts_conn_loop s c) (DestroyTask c) (s\<lparr>connections := AList.delete (ts_conn_name s c) (connections s)\<rparr>)"

definition removeConnection :: "nat \<Rightarrow> nat \<Rightarrow> TcpServer \<Rightarrow> TcpServer" where
  "removeConnection l c s = (if l = 0 then removeConnectionInLoop c s else ts_queue 0 (RemoveTask c) s)"

text \<open>
  The effect of a method of a connection, called in loop \<open>l\<close>: the tasks it queued go to the loop of the connection, and
  the close callback removes it.
\<close>

definition new_tasks :: "TcpConnection \<Rightarrow> TcpConnection \<Rightarrow> nat" where
  "new_tasks c c' = length (loop_tasks c') - length (loop_tasks c)"

definition new_callbacks :: "TcpConnection \<Rightarrow> TcpConnection \<Rightarrow> Callback list" where
  "new_callbacks c c' = drop (length (callbacks c)) (callbacks c')"

definition conn_effect :: "nat \<Rightarrow> nat \<Rightarrow> TcpConnection \<Rightarrow> TcpServer \<Rightarrow> TcpServer" where
  "conn_effect l c conn s =
     (let old = ts_conn s c;
          s = s\<lparr>ts_conn := (ts_conn s)(c := conn),
                ts_tasks := (ts_tasks s)(ts_conn_loop s c := ts_tasks s (ts_conn_loop s c) @ replicate (new_tasks old conn) (ConnTask c))\<rparr>
      in fold (\<lambda>cb s. if cb = CloseCb then removeConnection l c s else s) (new_callbacks old conn) s)"

definition newConnection :: "int \<Rightarrow> TcpServer \<Rightarrow> TcpServer" where
  "newConnection sockfd s =
     (if max_connections s > 0 \<and> length (connections s) \<ge> nat (max_connections s)
      then s\<lparr>ts_closed := ts_closed s @ [sockfd]\<rparr>
      else let c = nextConnId s; connName = ts_name s @ ''#'' @ nat_to_string c;
               s = s\<lparr>nextConnId := Suc c\<rparr>; (ioLoop, s) = getNextLoop s;
               s = s\<lparr>ts_conn := (ts_conn s)(c := new_TcpConnection True), ts_conn_name := (ts_conn_name s)(c := connName),
                     ts_conn_loop := (ts_conn_loop s)(c := ioLoop), connections := AList.update connName c (connections s)\<rparr>
        in if ioLoop = 0 then conn_effect 0 c (connectEstablished (ts_conn s c)) s else ts_queue ioLoop (EstablishTask c) s)"

text \<open>The accept loop takes the waiting connections until one \<^verbatim>\<open>accept\<close> fails; the new connection callback is set.\<close>

fun Acceptor_handleRead :: "int list \<Rightarrow> TcpServer \<Rightarrow> TcpServer" where
  "Acceptor_handleRead [] s = s"
| "Acceptor_handleRead (connfd # fds) s = (if connfd \<ge> 0 then Acceptor_handleRead fds (newConnection connfd s) else s)"

text \<open>One task of a loop. A connection runs its own first task.\<close>

fun run_net_task :: "(string \<Rightarrow> WriteRc) \<Rightarrow> nat \<Rightarrow> NetTask \<Rightarrow> TcpServer \<Rightarrow> TcpServer option" where
  "run_net_task os l (EstablishTask c) s = Some (conn_effect l c (connectEstablished (ts_conn s c)) s)"
| "run_net_task os l (RemoveTask c) s = Some (removeConnectionInLoop c s)"
| "run_net_task os l (DestroyTask c) s = Some (conn_effect l c (connectDestroyed (ts_conn s c)) s)"
| "run_net_task os l (ConnTask c) s = (case loop_tasks (ts_conn s c) of
      [] \<Rightarrow> Some s
    | t # ts \<Rightarrow>
        let s = s\<lparr>ts_conn := (ts_conn s)(c := (ts_conn s c)\<lparr>loop_tasks := ts\<rparr>)\<rparr>
        in map_option (\<lambda>conn. conn_effect l c conn s) (run_task os t (ts_conn s c)))"

text \<open>
  Stopping: no more connections are accepted, the table is emptied, and the connections are told to close. The loops of
  the pool then leave when they have no task left.
\<close>

definition ts_stop :: "TcpServer \<Rightarrow> TcpServer" where
  "ts_stop s =
     (if \<not> ts_started s then s
      else let keepalive = map snd (connections s); s = s\<lparr>ts_started := False, accepting := False, connections := []\<rparr>
        in fold (\<lambda>c s. conn_effect 0 c (tcp_forceClose (ts_conn s c)) s) keepalive s)"

section \<open>Runs\<close>

text \<open>What the channel of a connection and the message handler do to a connection, in its loop.\<close>

datatype ConnOp = OpRead "nat \<Rightarrow> ReadRc" | OpWrite | OpHangup | OpSend bool string | OpForceClose | OpShutdown | OpBegin | OpEnd

fun conn_op :: "(string \<Rightarrow> WriteRc) \<Rightarrow> ConnOp \<Rightarrow> TcpConnection \<Rightarrow> TcpConnection option" where
  "conn_op os (OpRead rd) c = (if ch_reading c then handleRead rd c else None)"
| "conn_op os OpWrite c = (if ch_writing c then handleWrite os c else None)"
| "conn_op os OpHangup c = (if ch_reading c \<or> ch_writing c then Some (handleClose c) else None)"
| "conn_op os (OpSend in_loop d) c = tcp_send in_loop os d c"
| "conn_op os OpForceClose c = Some (tcp_forceClose c)"
| "conn_op os OpShutdown c = Some (tcp_shutdown True c)"
| "conn_op os OpBegin c = Some (beginWriteCoalescing True c)"
| "conn_op os OpEnd c = Some (endWriteCoalescing True c)"

datatype NetStep =
    Accept "int list" | LoopTaskStep nat "string \<Rightarrow> WriteRc" | ConnStep nat "string \<Rightarrow> WriteRc" ConnOp | StopServer | LoopExits nat

fun net_step :: "NetStep \<Rightarrow> TcpServer \<Rightarrow> TcpServer option" where
  "net_step (Accept fds) s = (if ts_running s 0 \<and> accepting s then Some (Acceptor_handleRead fds s) else None)"
| "net_step (LoopTaskStep l os) s =
     (if ts_running s l \<and> ts_tasks s l \<noteq> []
      then run_net_task os l (hd (ts_tasks s l)) (s\<lparr>ts_tasks := (ts_tasks s)(l := tl (ts_tasks s l))\<rparr>) else None)"
| "net_step (ConnStep c os x) s =
     (if ts_running s (ts_conn_loop s c) \<and> 0 < c \<and> c < nextConnId s
      then map_option (\<lambda>conn. conn_effect (ts_conn_loop s c) c conn s) (conn_op os x (ts_conn s c)) else None)"
| "net_step StopServer s = (if \<not> ts_running s 0 then Some (ts_stop s) else None)"
| "net_step (LoopExits l) s =
     (if ts_running s l \<and> ts_tasks s l = [] \<and> (l = 0 \<or> \<not> ts_started s) then Some (s\<lparr>ts_running := (ts_running s)(l := False)\<rparr>) else None)"

abbreviation net_run :: "NetStep list \<Rightarrow> TcpServer \<Rightarrow> TcpServer option" where
  "net_run \<equiv> run_events net_step"

section \<open>One connection: how its methods change it\<close>

text \<open>
  No method but the two that open and destroy a connection makes the connection callback; the close callback is made exactly
  when the connection becomes disconnected, once; a disconnected connection watches nothing.
\<close>

definition live :: "TcpConnection \<Rightarrow> bool" where
  "live c \<longleftrightarrow> tc_state c = kConnected \<or> tc_state c = kDisconnecting"

definition quiet :: "TcpConnection \<Rightarrow> bool" where
  "quiet c \<longleftrightarrow> (tc_state c = kDisconnected \<or> tc_state c = kConnecting \<longrightarrow> \<not> ch_reading c \<and> \<not> ch_writing c) \<and> (tc_state c = kConnecting \<longrightarrow> loop_tasks c = [])"

definition evolves :: "TcpConnection \<Rightarrow> TcpConnection \<Rightarrow> bool" where
  "evolves c c' \<longleftrightarrow> quiet c' \<and> (\<exists>cbs ts. callbacks c' = callbacks c @ cbs \<and> loop_tasks c' = loop_tasks c @ ts \<and> ConnectionCb \<notin> set cbs \<and>
     (tc_state c' = kConnecting \<longleftrightarrow> tc_state c = kConnecting) \<and> (tc_state c = kDisconnected \<longrightarrow> tc_state c' = kDisconnected) \<and>
     count_list cbs CloseCb = (if tc_state c \<noteq> kDisconnected \<and> tc_state c' = kDisconnected then 1 else 0))"

lemma evolves_refl: "quiet c \<Longrightarrow> evolves c c"
  by (simp add: evolves_def)

lemma evolves_trans: "evolves a b \<Longrightarrow> evolves b c \<Longrightarrow> evolves a c"
  unfolding evolves_def by (elim conjE exE) (auto split: if_splits)

lemma evolves_frame:
  "live c \<Longrightarrow> tc_state c' = tc_state c \<Longrightarrow> callbacks c' = callbacks c \<Longrightarrow> loop_tasks c' = loop_tasks c @ ts \<Longrightarrow> evolves c c'"
  by (auto simp: evolves_def live_def quiet_def)

lemma live_quiet: "live c \<Longrightarrow> quiet c"
  by (auto simp: live_def quiet_def)

lemma evolves_close: "live c \<Longrightarrow> evolves c (handleClose c)"
  by (auto simp: evolves_def live_def quiet_def handleClose_def callback_def)

lemma evolves_force: "quiet c \<Longrightarrow> evolves c (forceCloseInLoop c)"
  using evolves_close [of c] evolves_refl [of c] by (auto simp: forceCloseInLoop_def live_def)

lemma evolves_backpressure: "quiet c \<Longrightarrow> evolves c (enforceOutputBackpressure c)"
  by (simp add: enforceOutputBackpressure_def evolves_refl evolves_force)

lemma evolves_queue: "live c \<Longrightarrow> queue_output d c = Some c' \<Longrightarrow> evolves c c'"
proof -
  assume c: "live c" "queue_output d c = Some c'"
  then obtain b where c': "c' = enforceOutputBackpressure (c\<lparr>outputBuffer := b, ch_writing := True\<rparr>)" by (auto simp: queue_output_def)
  have l: "live (c\<lparr>outputBuffer := b, ch_writing := True\<rparr>)" using c(1) by (simp add: live_def)
  have "evolves c (c\<lparr>outputBuffer := b, ch_writing := True\<rparr>)" using c(1) by (rule evolves_frame [where ts = "[]"]) simp_all
  from evolves_trans [OF this evolves_backpressure [OF live_quiet [OF l]]] show ?thesis by (simp add: c')
qed

lemma evolves_drained: "live c \<Longrightarrow> evolves c (output_drained c) \<and> live (output_drained c)"
proof -
  assume c: "live c"
  have "evolves c (output_drained c)"
    by (rule evolves_frame [OF c, where ts = "if has_write_complete c then [WriteCompleteTask] else []"])
      (simp_all add: output_drained_def shutdownInLoop_def queueInLoop_def Let_def)
  moreover have "tc_state (output_drained c) = tc_state c" by (simp add: output_drained_def shutdownInLoop_def Let_def)
  ultimately show ?thesis using c by (simp add: live_def)
qed

lemma evolves_writev: "live c \<Longrightarrow> after_writev n d c = Some c' \<Longrightarrow> evolves c c'"
proof -
  assume c: "live c" "after_writev n d c = Some c'"
  then obtain b where b: "c' = (let c = c\<lparr>kernel_out := kernel_out c @ take n (peek (outputBuffer c) @ d), outputBuffer := b\<rparr>;
      c = (if readableBytes b = 0 then output_drained c else c\<lparr>ch_writing := True\<rparr>) in enforceOutputBackpressure c)"
    by (auto simp: after_writev_def)
  let ?c = "c\<lparr>kernel_out := kernel_out c @ take n (peek (outputBuffer c) @ d), outputBuffer := b\<rparr>"
  let ?d = "if readableBytes b = 0 then output_drained ?c else ?c\<lparr>ch_writing := True\<rparr>"
  have l: "live ?c" using c(1) by (simp add: live_def)
  have e: "evolves c ?c" using c(1) by (rule evolves_frame [where ts = "[]"]) simp_all
  have "evolves ?c ?d \<and> live ?d"
    using evolves_drained [OF l] evolves_frame [OF l, of "?c\<lparr>ch_writing := True\<rparr>" "[]"] l by (simp add: live_def)
  then have "evolves c (enforceOutputBackpressure ?d)" using e evolves_trans evolves_backpressure live_quiet by blast
  then show ?thesis unfolding b Let_def .
qed

lemma evolves_send: "quiet c \<Longrightarrow> tc_state c \<noteq> kConnecting \<Longrightarrow> sendInLoop os d c = Some c' \<Longrightarrow> evolves c c'"
proof -
  assume c: "quiet c" "tc_state c \<noteq> kConnecting" "sendInLoop os d c = Some c'"
  show ?thesis
  proof (cases "live c")
    case False
    with c have "c' = c" by (cases "tc_state c") (auto simp: live_def sendInLoop_def)
    then show ?thesis using c(1) by (simp add: evolves_refl)
  next
    case True
    have w: "evolves c c''"
      if "(let c = c\<lparr>kernel_out := kernel_out c @ take n d\<rparr>
          in if length d - n = 0 then Some (if has_write_complete c then queueInLoop WriteCompleteTask c else c) else queue_output (drop n d) c) = Some c''" for n c''
    proof -
      let ?k = "c\<lparr>kernel_out := kernel_out c @ take n d\<rparr>"
      have k: "live ?k" "evolves c ?k" using True evolves_frame [OF True, of ?k "[]"] by (simp_all add: live_def)
      have "evolves ?k (queueInLoop WriteCompleteTask ?k)"
        using k(1) by (rule evolves_frame [where ts = "[WriteCompleteTask]"]) (simp_all add: queueInLoop_def)
      then show ?thesis
        using that k evolves_queue [OF k(1)] evolves_trans [OF k(2)] by (auto simp: Let_def split: if_splits)
    qed
    show ?thesis
      using c(3) True evolves_queue [OF True] evolves_writev [OF True] evolves_refl [OF c(1)] w
      by (auto simp: sendInLoop_def split: if_splits WriteRc.splits)
  qed
qed

lemma evolves_flush: "quiet c \<Longrightarrow> evolves c (flush_coalesced c)"
proof -
  assume c: "quiet c"
  have "evolves c (flush_coalesced c)" if "live c"
    using that by (rule evolves_frame [where ts = "[]"]) (simp_all add: flush_coalesced_def Let_def)
  moreover have "evolves c (flush_coalesced c)" if "\<not> live c"
    using that c by (cases "tc_state c") (auto simp: live_def evolves_def quiet_def flush_coalesced_def Let_def)
  ultimately show ?thesis by blast
qed

lemma evolves_task:
  assumes "quiet c" "tc_state c \<noteq> kConnecting" "t \<noteq> StartReadTask" "run_task os t c = Some c'"
  shows "evolves c c'"
proof (cases t)
  case (SendTask d)
  then show ?thesis using assms evolves_send by simp
next
  case FlushTask
  then show ?thesis using assms evolves_flush by auto
next
  case ForceCloseTask
  then show ?thesis using assms evolves_force by auto
qed (use assms in \<open>auto simp: evolves_def quiet_def shutdownInLoop_def callback_def stopReadInLoop_def split: if_splits\<close>)

lemma evolves_write: "live c \<Longrightarrow> handleWrite os c = Some c' \<Longrightarrow> evolves c c'"
proof -
  assume c: "live c" "handleWrite os c = Some c'"
  have r: "evolves c (let c = c\<lparr>kernel_out := k, outputBuffer := b\<rparr> in if readableBytes b = 0 then output_drained c else c)" for k b
  proof -
    let ?c = "c\<lparr>kernel_out := k, outputBuffer := b\<rparr>"
    have e: "evolves c ?c" "live ?c" using c(1) evolves_frame [OF c(1), of ?c "[]"] by (simp_all add: live_def)
    then show ?thesis using evolves_trans [OF e(1)] evolves_drained [OF e(2)] by (simp add: Let_def)
  qed
  show ?thesis
    using c(2) r evolves_refl [OF live_quiet [OF c(1)]] by (auto simp: handleWrite_def split: if_splits WriteRc.splits)
qed

lemma evolves_read: "live c \<Longrightarrow> handleRead os c = Some c' \<Longrightarrow> evolves c c'"
proof -
  assume c: "live c" "handleRead os c = Some c'"
  have i: "live (c\<lparr>inputBuffer := b\<rparr>)" "evolves c (c\<lparr>inputBuffer := b\<rparr>)" for b
    using c(1) evolves_frame [OF c(1), of "c\<lparr>inputBuffer := b\<rparr>" "[]"] by (simp_all add: live_def)
  have "evolves d (callback (MessageCb n) d)" if "live d" for d n
    using that by (auto simp: evolves_def quiet_def live_def callback_def)
  then have m: "evolves c (callback (MessageCb n) (c\<lparr>inputBuffer := b\<rparr>))" "evolves c (handleClose (c\<lparr>inputBuffer := b\<rparr>))" for n b
    using evolves_trans [OF i(2)] i(1) evolves_close by blast+
  show ?thesis using c(2) i(2) m by (auto simp: handleRead_def Let_def split: if_splits)
qed

lemma evolves_op:
  assumes "quiet c" "conn_op os x c = Some c'"
  shows "evolves c c'"
proof -
  have l: "ch_reading c \<or> ch_writing c \<Longrightarrow> live c" using assms(1) by (cases "tc_state c") (auto simp: quiet_def live_def)
  show ?thesis
  proof (cases x)
    case (OpSend in_loop d)
    show ?thesis
    proof (cases "tc_state c = kConnected")
      case True
      have "evolves c (queueInLoop (SendTask d) c)" using True by (intro evolves_frame [where ts = "[SendTask d]"]) (simp_all add: live_def queueInLoop_def)
      then show ?thesis using True OpSend assms evolves_send [OF assms(1)] by (auto simp: tcp_send_def split: if_splits)
    qed (use OpSend assms evolves_refl in \<open>auto simp: tcp_send_def\<close>)
  next
    case OpForceClose
    then show ?thesis using assms by (cases "tc_state c") (auto simp: tcp_forceClose_def evolves_def quiet_def queueInLoop_def)
  next
    case OpShutdown
    then show ?thesis using assms by (cases "tc_state c") (auto simp: tcp_shutdown_def shutdownInLoop_def evolves_def quiet_def Let_def split: if_splits)
  next
    case OpBegin
    then show ?thesis using assms by (auto simp: beginWriteCoalescing_def evolves_def quiet_def)
  next
    case OpEnd
    then show ?thesis using assms evolves_flush by (auto simp: endWriteCoalescing_def)
  qed (use assms l evolves_read evolves_write evolves_close in \<open>auto split: if_splits\<close>)
qed

section \<open>All connections: every close is followed by one destruction\<close>

definition est :: "TcpServer \<Rightarrow> nat \<Rightarrow> nat" where
  "est s c = count_list (ts_tasks s (ts_conn_loop s c)) (EstablishTask c)"

definition rem :: "TcpServer \<Rightarrow> nat \<Rightarrow> nat" where
  "rem s c = count_list (ts_tasks s 0) (RemoveTask c)"

definition des :: "TcpServer \<Rightarrow> nat \<Rightarrow> nat" where
  "des s c = count_list (ts_tasks s (ts_conn_loop s c)) (DestroyTask c)"

definition cbs :: "TcpServer \<Rightarrow> nat \<Rightarrow> nat" where
  "cbs s c = count_list (callbacks (ts_conn s c)) ConnectionCb"

definition closes :: "TcpServer \<Rightarrow> nat \<Rightarrow> nat" where
  "closes s c = count_list (callbacks (ts_conn s c)) CloseCb"

definition balanced :: "TcpServer \<Rightarrow> nat \<Rightarrow> bool" where
  "balanced s c \<longleftrightarrow> quiet (ts_conn s c) \<and> StartReadTask \<notin> set (loop_tasks (ts_conn s c)) \<and>
     closes s c = (if tc_state (ts_conn s c) = kDisconnected then 1 else 0) \<and>
     est s c = (if tc_state (ts_conn s c) = kConnecting then 1 else 0) \<and>
     (tc_state (ts_conn s c) = kConnecting \<longleftrightarrow> cbs s c = 0) \<and>
     cbs s c + est s c + rem s c + des s c = 1 + closes s c"

fun task_ok :: "TcpServer \<Rightarrow> nat \<Rightarrow> NetTask \<Rightarrow> bool" where
  "task_ok s l (EstablishTask c) \<longleftrightarrow> l = ts_conn_loop s c \<and> 0 < c \<and> c < nextConnId s"
| "task_ok s l (RemoveTask c) \<longleftrightarrow> l = 0 \<and> 0 < c \<and> c < nextConnId s"
| "task_ok s l (DestroyTask c) \<longleftrightarrow> l = ts_conn_loop s c \<and> 0 < c \<and> c < nextConnId s"
| "task_ok s l (ConnTask c) \<longleftrightarrow> l = ts_conn_loop s c \<and> 0 < c \<and> c < nextConnId s"

definition tasks_ok :: "TcpServer \<Rightarrow> bool" where
  "tasks_ok s \<longleftrightarrow> (\<forall>l. \<forall>t \<in> set (ts_tasks s l). task_ok s l t)"

definition conn_table_ok :: "TcpServer \<Rightarrow> bool" where
  "conn_table_ok s \<longleftrightarrow> distinct (map fst (connections s)) \<and> 0 < nextConnId s \<and>
     (max_connections s > 0 \<longrightarrow> length (connections s) \<le> nat (max_connections s)) \<and>
     (\<forall>n c. (n, c) \<in> set (connections s) \<longrightarrow> 0 < c \<and> c < nextConnId s)"

definition net_ok :: "TcpServer \<Rightarrow> bool" where
  "net_ok s \<longleftrightarrow> tasks_ok s \<and> conn_table_ok s \<and> (\<forall>c. 0 < c \<and> c < nextConnId s \<longrightarrow> balanced s c)"

lemma fold_close:
  "count_list xs CloseCb \<le> 1 \<Longrightarrow>
    fold (\<lambda>cb s. if cb = CloseCb then removeConnection l c s else s) xs s = (if count_list xs CloseCb = 1 then removeConnection l c s else s)"
proof (induction xs arbitrary: s)
  case (Cons x xs)
  have "count_list xs CloseCb = 0 \<Longrightarrow> fold (\<lambda>cb s. if cb = CloseCb then removeConnection l c s else s) xs s' = s'" for s'
    by (induction xs) auto
  then show ?case using Cons by (cases "x = CloseCb") auto
qed simp

definition set_conn :: "nat \<Rightarrow> TcpConnection \<Rightarrow> nat \<Rightarrow> TcpServer \<Rightarrow> TcpServer" where
  "set_conn c conn n s = s\<lparr>ts_conn := (ts_conn s)(c := conn),
     ts_tasks := (ts_tasks s)(ts_conn_loop s c := ts_tasks s (ts_conn_loop s c) @ replicate n (ConnTask c))\<rparr>"

lemma conn_effect_eq:
  assumes "callbacks conn = callbacks (ts_conn s c) @ xs" "count_list xs CloseCb \<le> 1"
  shows "conn_effect l c conn s = (let s = set_conn c conn (new_tasks (ts_conn s c) conn) s in
    if count_list xs CloseCb = 1 then removeConnection l c s else s)"
  using fold_close [OF assms(2)] assms(1) by (simp add: conn_effect_def new_callbacks_def set_conn_def Let_def)

lemma count_replicate [simp]: "count_list (replicate n x) y = (if x = y then n else 0)"
  by (induction n) auto

lemma set_conn_counts [simp]:
  "est (set_conn c conn n s) c' = est s c'" "rem (set_conn c conn n s) c' = rem s c'" "des (set_conn c conn n s) c' = des s c'"
  "cbs (set_conn c conn n s) c' = (if c' = c then count_list (callbacks conn) ConnectionCb else cbs s c')"
  "closes (set_conn c conn n s) c' = (if c' = c then count_list (callbacks conn) CloseCb else closes s c')"
  "ts_conn (set_conn c conn n s) = (ts_conn s)(c := conn)" "nextConnId (set_conn c conn n s) = nextConnId s"
  "connections (set_conn c conn n s) = connections s" "max_connections (set_conn c conn n s) = max_connections s"
  "ts_conn_loop (set_conn c conn n s) = ts_conn_loop s" "ts_running (set_conn c conn n s) = ts_running s"
  by (simp_all add: est_def rem_def des_def cbs_def closes_def set_conn_def)

lemma ts_queue_counts [simp]:
  "est (ts_queue l t s) c = est s c + (if l = ts_conn_loop s c \<and> t = EstablishTask c then 1 else 0)"
  "rem (ts_queue l t s) c = rem s c + (if l = 0 \<and> t = RemoveTask c then 1 else 0)"
  "des (ts_queue l t s) c = des s c + (if l = ts_conn_loop s c \<and> t = DestroyTask c then 1 else 0)"
  "cbs (ts_queue l t s) c = cbs s c" "closes (ts_queue l t s) c = closes s c" "ts_conn (ts_queue l t s) = ts_conn s"
  "nextConnId (ts_queue l t s) = nextConnId s" "connections (ts_queue l t s) = connections s"
  "max_connections (ts_queue l t s) = max_connections s" "ts_conn_loop (ts_queue l t s) = ts_conn_loop s" "ts_running (ts_queue l t s) = ts_running s"
  by (auto simp: est_def rem_def des_def cbs_def closes_def ts_queue_def)

lemma remove_counts [simp]:
  "est (removeConnection l c s) c' = est s c'"
  "rem (removeConnection l c s) c' = rem s c' + (if l \<noteq> 0 \<and> c' = c then 1 else 0)"
  "des (removeConnection l c s) c' = des s c' + (if l = 0 \<and> c' = c then 1 else 0)"
  "cbs (removeConnection l c s) c' = cbs s c'" "closes (removeConnection l c s) c' = closes s c'" "ts_conn (removeConnection l c s) = ts_conn s"
  "nextConnId (removeConnection l c s) = nextConnId s" "max_connections (removeConnection l c s) = max_connections s"
  "ts_conn_loop (removeConnection l c s) = ts_conn_loop s" "ts_running (removeConnection l c s) = ts_running s"
  "connections (removeConnection l c s) = (if l = 0 then AList.delete (ts_conn_name s c) (connections s) else connections s)"
  by (auto simp: removeConnection_def removeConnectionInLoop_def est_def rem_def des_def cbs_def closes_def ts_queue_def)

lemma tasks_ok_queue: "tasks_ok s \<Longrightarrow> task_ok s l t \<Longrightarrow> tasks_ok (ts_queue l t s)"
proof -
  have "task_ok (ts_queue l t s) l' t' = task_ok s l' t'" for l' t' by (cases t') simp_all
  then show "tasks_ok s \<Longrightarrow> task_ok s l t \<Longrightarrow> tasks_ok (ts_queue l t s)" by (auto simp: tasks_ok_def) (auto simp: ts_queue_def split: if_splits)
qed

lemma tasks_ok_set_conn: "tasks_ok s \<Longrightarrow> 0 < c \<Longrightarrow> c < nextConnId s \<Longrightarrow> tasks_ok (set_conn c conn n s)"
proof -
  have "task_ok (set_conn c conn n s) l t = task_ok s l t" for l t by (cases t) simp_all
  then show "tasks_ok s \<Longrightarrow> 0 < c \<Longrightarrow> c < nextConnId s \<Longrightarrow> tasks_ok (set_conn c conn n s)" by (auto simp: tasks_ok_def) (auto simp: set_conn_def split: if_splits)
qed

lemma tasks_ok_table: "tasks_ok (s\<lparr>connections := t\<rparr>) = tasks_ok s"
proof -
  have "task_ok (s\<lparr>connections := t\<rparr>) l x = task_ok s l x" for l x by (cases x) simp_all
  then show ?thesis by (simp add: tasks_ok_def)
qed

lemma tasks_ok_remove: "tasks_ok s \<Longrightarrow> 0 < c \<Longrightarrow> c < nextConnId s \<Longrightarrow> tasks_ok (removeConnection l c s)"
  by (simp add: removeConnection_def removeConnectionInLoop_def tasks_ok_queue tasks_ok_table)

lemma conn_table_delete: "conn_table_ok s \<Longrightarrow> conn_table_ok (s\<lparr>connections := AList.delete n (connections s)\<rparr>)"
  using length_delete_le [of n "connections s"] by (auto simp: conn_table_ok_def AList.delete_eq distinct_map_filter intro: order_trans [OF length_filter_le])

lemma conn_table_ok_cong:
  "conn_table_ok s \<Longrightarrow> connections s' = connections s \<or> connections s' = AList.delete n (connections s) \<Longrightarrow> nextConnId s' = nextConnId s \<Longrightarrow>
    max_connections s' = max_connections s \<Longrightarrow> conn_table_ok s'"
  using conn_table_delete [of s n] by (auto simp: conn_table_ok_def)

lemma effect_ok:
  assumes s: "net_ok s" "0 < c" "c < nextConnId s" and e: "evolves (ts_conn s c) conn" "StartReadTask \<notin> set (loop_tasks conn)"
  shows "net_ok (conn_effect l c conn s)"
proof -
  obtain xs ts where x: "callbacks conn = callbacks (ts_conn s c) @ xs" "ConnectionCb \<notin> set xs" "quiet conn"
      "tc_state conn = kConnecting \<longleftrightarrow> tc_state (ts_conn s c) = kConnecting" "tc_state (ts_conn s c) = kDisconnected \<longrightarrow> tc_state conn = kDisconnected"
      "count_list xs CloseCb = (if tc_state (ts_conn s c) \<noteq> kDisconnected \<and> tc_state conn = kDisconnected then 1 else 0)"
    using e(1) unfolding evolves_def by blast
  let ?t = "set_conn c conn (new_tasks (ts_conn s c) conn) s"
  let ?s = "if count_list xs CloseCb = 1 then removeConnection l c ?t else ?t"
  have eq: "conn_effect l c conn s = ?s" using conn_effect_eq [OF x(1)] x(6) by (simp add: Let_def)
  have b: "balanced s c" using s by (simp add: net_ok_def)
  have cb: "count_list xs ConnectionCb = 0" using x(2) by simp
  have "balanced ?s c" using b x cb e(2) by (auto simp: balanced_def cbs_def closes_def)
  moreover have "balanced ?s c' = balanced s c'" if "c' \<noteq> c" for c' using that by (simp add: balanced_def)
  moreover have "tasks_ok ?s"
    using s tasks_ok_set_conn tasks_ok_remove by (simp add: net_ok_def)
  moreover have "conn_table_ok ?s"
    using s conn_table_ok_cong [of s ?s "ts_conn_name ?t c"] by (simp add: net_ok_def)
  moreover have "nextConnId ?s = nextConnId s" by simp
  ultimately show ?thesis using s(1) unfolding eq net_ok_def by metis
qed

lemma net_ok_cong:
  assumes "net_ok s" "ts_tasks s' = ts_tasks s" "ts_conn s' = ts_conn s" "ts_conn_loop s' = ts_conn_loop s" "nextConnId s' = nextConnId s"
    "connections s' = connections s" "max_connections s' = max_connections s"
  shows "net_ok s'"
proof -
  have "task_ok s' l t = task_ok s l t" for l t using assms by (cases t) simp_all
  moreover have "balanced s' c = balanced s c" for c using assms by (simp add: balanced_def est_def rem_def des_def cbs_def closes_def)
  moreover have "conn_table_ok s'" using assms conn_table_ok_cong [of s s'] by (simp add: net_ok_def)
  ultimately show ?thesis using assms by (simp add: net_ok_def tasks_ok_def)
qed

text \<open>Taking the first task of a loop.\<close>

definition pop_task :: "nat \<Rightarrow> TcpServer \<Rightarrow> TcpServer" where
  "pop_task l s = s\<lparr>ts_tasks := (ts_tasks s)(l := tl (ts_tasks s l))\<rparr>"

lemma pop_fields [simp]:
  "ts_conn (pop_task l s) = ts_conn s" "ts_conn_loop (pop_task l s) = ts_conn_loop s" "nextConnId (pop_task l s) = nextConnId s"
  "connections (pop_task l s) = connections s" "max_connections (pop_task l s) = max_connections s" "ts_running (pop_task l s) = ts_running s"
  "cbs (pop_task l s) c = cbs s c" "closes (pop_task l s) c = closes s c"
  by (simp_all add: pop_task_def cbs_def closes_def)

lemma pop_counts:
  assumes "tasks_ok s" "ts_tasks s l = t # ts"
  shows "est s c = est (pop_task l s) c + (if t = EstablishTask c then 1 else 0)" "rem s c = rem (pop_task l s) c + (if t = RemoveTask c then 1 else 0)"
    "des s c = des (pop_task l s) c + (if t = DestroyTask c then 1 else 0)" "tasks_ok (pop_task l s)" "task_ok s l t"
proof -
  show t: "task_ok s l t" using assms by (auto simp: tasks_ok_def)
  have "task_ok (pop_task l s) l' t' = task_ok s l' t'" for l' t' by (cases t') simp_all
  moreover have "set (ts_tasks (pop_task l s) l') \<subseteq> set (ts_tasks s l')" for l' using assms(2) by (auto simp: pop_task_def)
  ultimately show "tasks_ok (pop_task l s)" using assms(1) unfolding tasks_ok_def by blast
  show "est s c = est (pop_task l s) c + (if t = EstablishTask c then 1 else 0)" "rem s c = rem (pop_task l s) c + (if t = RemoveTask c then 1 else 0)"
    "des s c = des (pop_task l s) c + (if t = DestroyTask c then 1 else 0)"
    using assms(2) t by (auto simp: est_def rem_def des_def pop_task_def)
qed

text \<open>The connection callback of a connection that is opened or destroyed.\<close>

lemma connection_callback_effect:
  assumes "callbacks conn = callbacks (ts_conn s c) @ [ConnectionCb]" "loop_tasks conn = loop_tasks (ts_conn s c)"
  shows "conn_effect l c conn s = set_conn c conn 0 s"
  using conn_effect_eq [OF assms(1)] assms(2) by (simp add: new_tasks_def)

lemma callback_task_ok:
  assumes s: "net_ok s" "ts_tasks s l = t # ts" "t = EstablishTask c \<or> t = DestroyTask c"
    and conn: "callbacks conn = callbacks (ts_conn s c) @ [ConnectionCb]" "loop_tasks conn = loop_tasks (ts_conn s c)"
    and b: "balanced (set_conn c conn 0 (pop_task l s)) c"
  shows "net_ok (conn_effect l c conn (pop_task l s))"
proof -
  let ?s = "set_conn c conn 0 (pop_task l s)"
  have ok: "tasks_ok s" "conn_table_ok s" using s(1) by (simp_all add: net_ok_def)
  note p = pop_counts [OF ok(1) s(2)]
  have eq: "conn_effect l c conn (pop_task l s) = ?s" by (rule connection_callback_effect) (simp_all add: conn)
  have "balanced ?s x = balanced s x" if "x \<noteq> c" for x using that p(1-3) [of x] s(3) by (auto simp: balanced_def)
  moreover have "tasks_ok ?s" using tasks_ok_set_conn p(4,5) s(3) by auto
  moreover have "conn_table_ok ?s" using conn_table_ok_cong [OF ok(2)] by simp
  moreover have "nextConnId ?s = nextConnId s" by simp
  ultimately show ?thesis using b s(1) unfolding eq net_ok_def by metis
qed

lemma establish_ok:
  assumes "net_ok s" "ts_tasks s l = EstablishTask c # ts"
  shows "net_ok (conn_effect l c (connectEstablished (ts_conn s c)) (pop_task l s))"
proof -
  have ok: "tasks_ok s" using assms(1) by (simp add: net_ok_def)
  note p = pop_counts [OF ok assms(2)]
  have "balanced s c" using assms(1) p(5) by (simp add: net_ok_def)
  then have "balanced (set_conn c (connectEstablished (ts_conn s c)) 0 (pop_task l s)) c"
    using p(1-3) [of c] by (simp add: balanced_def) (simp add: quiet_def connectEstablished_def callback_def cbs_def closes_def split: if_splits)
  then show ?thesis by (intro callback_task_ok [OF assms]) (simp_all add: connectEstablished_def callback_def)
qed

lemma destroy_ok:
  assumes "net_ok s" "ts_tasks s l = DestroyTask c # ts"
  shows "net_ok (conn_effect l c (connectDestroyed (ts_conn s c)) (pop_task l s))"
proof -
  have ok: "tasks_ok s" using assms(1) by (simp add: net_ok_def)
  note p = pop_counts [OF ok assms(2)]
  have b: "balanced s c" using assms(1) p(5) by (simp add: net_ok_def)
  moreover have "des s c > 0" using p(3) [of c] by simp
  ultimately have "tc_state (ts_conn s c) = kDisconnected" by (auto simp: balanced_def split: if_splits)
  then have "balanced (set_conn c (connectDestroyed (ts_conn s c)) 0 (pop_task l s)) c"
    using b p(1-3) [of c] by (simp add: balanced_def) (simp add: quiet_def connectDestroyed_def callback_def cbs_def closes_def)
  then show ?thesis by (intro callback_task_ok [OF assms]) (simp_all add: connectDestroyed_def callback_def)
qed

lemma remove_task_ok:
  assumes "net_ok s" "ts_tasks s l = RemoveTask c # ts"
  shows "net_ok (removeConnectionInLoop c (pop_task l s))"
proof -
  have ok: "tasks_ok s" "conn_table_ok s" using assms(1) by (simp_all add: net_ok_def)
  note p = pop_counts [OF ok(1) assms(2)]
  let ?s = "removeConnection 0 c (pop_task l s)"
  have "balanced ?s x = balanced s x" for x using p(1-3) [of x] by (auto simp: balanced_def)
  moreover have "tasks_ok ?s" using tasks_ok_remove p(4,5) by simp
  moreover have "conn_table_ok ?s" using conn_table_ok_cong [OF ok(2), of ?s "ts_conn_name (pop_task l s) c"] by simp
  moreover have "nextConnId ?s = nextConnId s" by simp
  ultimately have "net_ok ?s" using assms(1) unfolding net_ok_def by metis
  then show ?thesis by (simp add: removeConnection_def)
qed

text \<open>The methods never queue the one task that would watch for reading again.\<close>

definition tame :: "TcpConnection \<Rightarrow> bool" where
  "tame c \<longleftrightarrow> StartReadTask \<notin> set (loop_tasks c)"

lemma tame_simps [simp]:
  "tame (queueInLoop t c) = (t \<noteq> StartReadTask \<and> tame c)" "tame (callback b c) = tame c" "tame (handleClose c) = tame c"
  "tame (forceCloseInLoop c) = tame c" "tame (enforceOutputBackpressure c) = tame c" "tame (shutdownInLoop c) = tame c"
  "tame (output_drained c) = tame c" "tame (flush_coalesced c) = tame c"
  by (auto simp: tame_def queueInLoop_def callback_def handleClose_def forceCloseInLoop_def enforceOutputBackpressure_def shutdownInLoop_def
      output_drained_def flush_coalesced_def Let_def)

lemma tame_updates [simp]:
  "tame (c\<lparr>outputBuffer := b\<rparr>) = tame c" "tame (c\<lparr>inputBuffer := b\<rparr>) = tame c" "tame (c\<lparr>kernel_out := k\<rparr>) = tame c" "tame (c\<lparr>ch_writing := w\<rparr>) = tame c"
  "tame (c\<lparr>tc_state := st\<rparr>) = tame c" "tame (c\<lparr>write_coalescing := w\<rparr>) = tame c"
  by (simp_all add: tame_def)

lemma tame_queue: "tame c \<Longrightarrow> queue_output d c = Some c' \<Longrightarrow> tame c'"
  by (auto simp: queue_output_def)

lemma tame_send: "tame c \<Longrightarrow> sendInLoop os d c = Some c' \<Longrightarrow> tame c'"
  by (auto simp: sendInLoop_def after_writev_def Let_def split: if_splits WriteRc.splits intro: tame_queue dest: tame_queue [rotated])

lemma tame_task: "tame c \<Longrightarrow> run_task os t c = Some c' \<Longrightarrow> tame c'"
  by (cases t) (auto simp: startReadInLoop_def stopReadInLoop_def intro: tame_send, (simp add: tame_def)+)

lemma tame_op: "tame c \<Longrightarrow> conn_op os x c = Some c' \<Longrightarrow> tame c'"
  by (cases x) (auto simp: handleRead_def handleWrite_def tcp_send_def tcp_forceClose_def tcp_shutdown_def beginWriteCoalescing_def endWriteCoalescing_def Let_def
      split: if_splits WriteRc.splits intro: tame_send)

lemma conn_task_ok:
  assumes "net_ok s" "ts_tasks s l = ConnTask c # ts" "run_net_task os l (ConnTask c) (pop_task l s) = Some s'"
  shows "net_ok s'"
proof -
  have ok: "tasks_ok s" "conn_table_ok s" using assms(1) by (simp_all add: net_ok_def)
  note p = pop_counts [OF ok(1) assms(2)]
  have c: "0 < c" "c < nextConnId s" using p(5) by simp_all
  have b: "balanced s x" if "0 < x" "x < nextConnId s" for x using assms(1) that by (simp add: net_ok_def)
  have "balanced (pop_task l s) x = balanced s x" for x using p(1-3) [of x] by (simp add: balanced_def)
  then have pop: "net_ok (pop_task l s)"
    using p(4) b conn_table_ok_cong [OF ok(2), of "pop_task l s"] by (simp add: net_ok_def)
  show ?thesis
  proof (cases "loop_tasks (ts_conn s c)")
    case Nil
    then show ?thesis using assms(3) pop by simp
  next
    case (Cons t rest)
    let ?conn = "(ts_conn s c)\<lparr>loop_tasks := rest\<rparr>" and ?p = "(pop_task l s)\<lparr>ts_conn := (ts_conn s)(c := (ts_conn s c)\<lparr>loop_tasks := rest\<rparr>)\<rparr>"
    obtain conn where r: "run_task os t ?conn = Some conn" "s' = conn_effect l c conn ?p" using assms(3) Cons by (auto simp: Let_def)
    have q: "quiet ?conn" "tc_state ?conn \<noteq> kConnecting" "t \<noteq> StartReadTask" "tame ?conn"
      using b [OF c] Cons by (auto simp: balanced_def quiet_def tame_def)
    have "balanced ?p x" if "0 < x" "x < nextConnId s" for x
    proof -
      have "balanced (pop_task l s) x" using pop that by (simp add: net_ok_def)
      then show ?thesis using q by (cases "x = c") (auto simp: balanced_def est_def rem_def des_def cbs_def closes_def quiet_def tame_def)
    qed
    moreover have "tasks_ok ?p"
    proof -
      have "task_ok ?p l' t' = task_ok (pop_task l s) l' t'" for l' t' by (cases t') simp_all
      then show ?thesis using p(4) by (simp add: tasks_ok_def)
    qed
    moreover have "conn_table_ok ?p" using conn_table_ok_cong [OF ok(2), of ?p] by simp
    ultimately have "net_ok ?p" by (simp add: net_ok_def)
    moreover have "evolves (ts_conn ?p c) conn" "StartReadTask \<notin> set (loop_tasks conn)"
      using evolves_task [OF q(1-3) r(1)] tame_task [OF q(4) r(1)] by (simp_all add: tame_def)
    ultimately show ?thesis unfolding r(2) using effect_ok [of ?p c conn l] c by simp
  qed
qed

lemma net_task_ok:
  assumes "net_ok s" "ts_tasks s l = t # ts" "run_net_task os l t (pop_task l s) = Some s'"
  shows "net_ok s'"
proof (cases t)
  case (EstablishTask c)
  then show ?thesis using assms establish_ok by auto
next
  case (RemoveTask c)
  then show ?thesis using assms remove_task_ok by auto
next
  case (DestroyTask c)
  then show ?thesis using assms destroy_ok by auto
next
  case (ConnTask c)
  then show ?thesis using assms conn_task_ok by blast
qed

text \<open>A new connection has a number that no task mentions.\<close>

lemma fresh_counts:
  assumes "tasks_ok s"
  shows "count_list (ts_tasks s l) (EstablishTask (nextConnId s)) = 0" "count_list (ts_tasks s l) (RemoveTask (nextConnId s)) = 0"
    "count_list (ts_tasks s l) (DestroyTask (nextConnId s)) = 0"
proof -
  have "t \<in> set (ts_tasks s l) \<Longrightarrow> task_ok s l t" for t using assms by (simp add: tasks_ok_def)
  then show "count_list (ts_tasks s l) (EstablishTask (nextConnId s)) = 0" "count_list (ts_tasks s l) (RemoveTask (nextConnId s)) = 0"
    "count_list (ts_tasks s l) (DestroyTask (nextConnId s)) = 0"
    by (fastforce simp: count_list_0_iff)+
qed

lemma update_length: "length (AList.update k v al) = (if k \<in> fst ` set al then length al else Suc (length al))"
  by (induction al) auto

lemma set_update_subset: "x \<in> set (AList.update k v al) \<Longrightarrow> x = (k, v) \<or> x \<in> set al"
  by (induction al) (auto split: if_splits)

lemma newConnection_ok:
  assumes "net_ok s"
  shows "net_ok (newConnection fd s)"
proof (cases "max_connections s > 0 \<and> length (connections s) \<ge> nat (max_connections s)")
  case True
  then show ?thesis using net_ok_cong [OF assms] by (simp add: newConnection_def)
next
  case False
  let ?c = "nextConnId s" and ?n = "ts_name s @ ''#'' @ nat_to_string (nextConnId s)"
  obtain io s1 where g: "getNextLoop (s\<lparr>nextConnId := Suc ?c\<rparr>) = (io, s1)" by fastforce
  define s2 where "s2 = s1\<lparr>ts_conn := (ts_conn s1)(?c := new_TcpConnection True), ts_conn_name := (ts_conn_name s1)(?c := ?n),
      ts_conn_loop := (ts_conn_loop s1)(?c := io), connections := AList.update ?n ?c (connections s1)\<rparr>"
  define r where "r = (if io = 0 then set_conn ?c (connectEstablished (new_TcpConnection True)) 0 s2 else ts_queue io (EstablishTask ?c) s2)"
  have f: "ts_tasks s2 = ts_tasks s" "ts_conn s2 = (ts_conn s)(?c := new_TcpConnection True)" "ts_conn_loop s2 = (ts_conn_loop s)(?c := io)"
      "nextConnId s2 = Suc ?c" "connections s2 = AList.update ?n ?c (connections s)" "max_connections s2 = max_connections s" "ts_name s1 = ts_name s"
    using g by (auto simp: s2_def getNextLoop_def split: if_splits)
  have ok: "tasks_ok s" "conn_table_ok s" "0 < ?c" using assms by (simp_all add: net_ok_def conn_table_ok_def)
  have "conn_effect 0 ?c (connectEstablished (ts_conn s2 ?c)) s2 = set_conn ?c (connectEstablished (ts_conn s2 ?c)) 0 s2"
    by (rule connection_callback_effect) (simp_all add: connectEstablished_def callback_def)
  then have eq: "newConnection fd s = r"
    unfolding newConnection_def if_not_P [OF False] r_def s2_def by (cases "io = 0") (simp_all add: g Let_def)
  have new: "balanced r ?c"
    using fresh_counts [OF ok(1)] f
    by (simp add: balanced_def r_def) (simp add: est_def rem_def des_def cbs_def closes_def quiet_def connectEstablished_def callback_def new_TcpConnection_def)
  have old: "balanced r x = balanced s x" if "x \<noteq> ?c" for x
    using that f by (simp add: balanced_def r_def) (simp add: est_def rem_def des_def cbs_def closes_def)
  have "task_ok s2 l t" if "task_ok s l t" for l t using that f by (cases t) auto
  then have "tasks_ok s2" using ok(1) f by (simp add: tasks_ok_def)
  then have tasks: "tasks_ok r" using tasks_ok_set_conn [of s2 ?c] tasks_ok_queue [of s2 io "EstablishTask ?c"] f ok(3) by (simp add: r_def)
  have "0 < x \<and> x < Suc ?c" if "(n, x) \<in> set (AList.update ?n ?c (connections s))" for n x
    using set_update_subset [OF that] ok(2,3) by (auto simp: conn_table_ok_def less_Suc_eq)
  then have "conn_table_ok s2" using ok(2) False f(4-6) distinct_update [of "connections s" ?n ?c]
    by (auto simp: conn_table_ok_def update_length)
  then have table: "conn_table_ok r" using conn_table_ok_cong [of s2 r] by (simp add: r_def)
  have "nextConnId r = Suc ?c" using f by (simp add: r_def)
  then show ?thesis unfolding eq net_ok_def using new old tasks table assms less_Suc_eq net_ok_def by metis
qed

lemma accept_ok: "net_ok s \<Longrightarrow> net_ok (Acceptor_handleRead fds s)"
  by (induction fds arbitrary: s) (auto intro: newConnection_ok)

lemma op_ok:
  assumes "net_ok s" "0 < c" "c < nextConnId s" "conn_op os x (ts_conn s c) = Some conn"
  shows "net_ok (conn_effect l c conn s)"
proof -
  have b: "quiet (ts_conn s c)" "tame (ts_conn s c)" using assms(1-3) by (simp_all add: net_ok_def balanced_def tame_def)
  show ?thesis using effect_ok [OF assms(1-3) evolves_op [OF b(1) assms(4)]] tame_op [OF b(2) assms(4)] by (simp add: tame_def)
qed

lemma conn_effect_fields [simp]: "nextConnId (conn_effect l c conn s) = nextConnId s" "ts_conn_loop (conn_effect l c conn s) = ts_conn_loop s"
    "ts_running (conn_effect l c conn s) = ts_running s"
proof -
  have f: "nextConnId (fold (\<lambda>cb s. if cb = CloseCb then removeConnection l c s else s) xs s) = nextConnId s \<and>
      ts_conn_loop (fold (\<lambda>cb s. if cb = CloseCb then removeConnection l c s else s) xs s) = ts_conn_loop s \<and>
      ts_running (fold (\<lambda>cb s. if cb = CloseCb then removeConnection l c s else s) xs s) = ts_running s" for xs s
    by (induction xs arbitrary: s) auto
  show "nextConnId (conn_effect l c conn s) = nextConnId s" "ts_conn_loop (conn_effect l c conn s) = ts_conn_loop s"
    "ts_running (conn_effect l c conn s) = ts_running s" by (simp_all add: conn_effect_def f Let_def)
qed

lemma force_all_ok:
  "net_ok s \<Longrightarrow> \<forall>c \<in> set cs. 0 < c \<and> c < nextConnId s \<Longrightarrow> net_ok (fold (\<lambda>c s. conn_effect 0 c (tcp_forceClose (ts_conn s c)) s) cs s)"
proof (induction cs arbitrary: s)
  case (Cons c cs)
  have "net_ok (conn_effect 0 c (tcp_forceClose (ts_conn s c)) s)" using op_ok [OF Cons.prems(1), of c _ OpForceClose] Cons.prems(2) by simp
  then show ?case using Cons.IH [of "conn_effect 0 c (tcp_forceClose (ts_conn s c)) s"] Cons.prems(2) by simp
qed simp

lemma emptied_ok: "net_ok s \<Longrightarrow> net_ok (s\<lparr>ts_started := False, accepting := False, connections := []\<rparr>)"
proof -
  let ?s = "s\<lparr>ts_started := False, accepting := False, connections := []\<rparr>"
  have "task_ok ?s l t = task_ok s l t" for l t by (cases t) simp_all
  moreover have "balanced ?s c = balanced s c" for c by (simp add: balanced_def est_def rem_def des_def cbs_def closes_def)
  ultimately show "net_ok s \<Longrightarrow> net_ok ?s" by (simp add: net_ok_def tasks_ok_def conn_table_ok_def)
qed

lemma stop_ok: "net_ok s \<Longrightarrow> net_ok (ts_stop s)"
proof -
  assume s: "net_ok s"
  let ?s = "s\<lparr>ts_started := False, accepting := False, connections := []\<rparr>"
  have "net_ok ?s" by (rule emptied_ok [OF s])
  moreover have "\<forall>c \<in> set (map snd (connections s)). 0 < c \<and> c < nextConnId ?s" using s by (auto simp: net_ok_def conn_table_ok_def)
  ultimately show ?thesis using force_all_ok [of ?s "map snd (connections s)"] s by (simp add: ts_stop_def Let_def)
qed

lemma net_step_ok:
  assumes "net_ok s" "net_step x s = Some s'"
  shows "net_ok s'"
proof (cases x)
  case (LoopTaskStep l os)
  then obtain t ts where "ts_tasks s l = t # ts" "run_net_task os l t (pop_task l s) = Some s'"
    using assms(2) by (cases "ts_tasks s l") (auto simp: pop_task_def split: if_splits)
  then show ?thesis by (rule net_task_ok [OF assms(1)])
next
  case (ConnStep c os y)
  then obtain conn where c: "c < nextConnId s" "conn_op os y (ts_conn s c) = Some conn" "s' = conn_effect (ts_conn_loop s c) c conn s" "0 < c"
    using assms(2) by (auto split: if_splits)
  then show ?thesis using op_ok [OF assms(1)] by simp
next
  case (LoopExits l)
  then have "s' = s\<lparr>ts_running := (ts_running s)(l := False)\<rparr>" using assms(2) by (simp split: if_splits)
  then show ?thesis using net_ok_cong [OF assms(1), of s'] by simp
next
  case (Accept fds)
  then show ?thesis using assms accept_ok by (auto split: if_splits)
next
  case StopServer
  then show ?thesis using assms stop_ok by (auto split: if_splits)
qed

interpretation net: step_system net_step net_ok "\<lambda>_. True"
  by unfold_locales (rule net_step_ok)

lemma net_run_ok: "net_ok s \<Longrightarrow> net_run xs s = Some s' \<Longrightarrow> net_ok s'"
  using net.run_keeps [of s xs s'] by simp

lemma start_ok: "net_ok (ts_start n (setMaxConnections m (new_TcpServer name)))"
  by (auto simp: net_ok_def tasks_ok_def conn_table_ok_def ts_start_def setMaxConnections_def new_TcpServer_def)

lemma effect_limit: "max_connections (conn_effect l c conn s) = max_connections s"
proof -
  have "max_connections (fold (\<lambda>cb s. if cb = CloseCb then removeConnection l c s else s) xs s) = max_connections s" for xs s
    by (induction xs arbitrary: s) auto
  then show ?thesis by (simp add: conn_effect_def Let_def)
qed

lemma accept_limit: "max_connections (Acceptor_handleRead fds s) = max_connections s"
proof -
  have "max_connections (newConnection fd s) = max_connections s" for fd s
    by (simp add: newConnection_def getNextLoop_def effect_limit Let_def)
  then show ?thesis by (induction fds arbitrary: s) simp_all
qed

lemma stop_limit: "max_connections (ts_stop s) = max_connections s"
proof -
  have "max_connections (fold (\<lambda>c s. conn_effect 0 c (tcp_forceClose (ts_conn s c)) s) cs s) = max_connections s" for cs s
    by (induction cs arbitrary: s) (simp_all add: effect_limit)
  then show ?thesis by (simp add: ts_stop_def Let_def)
qed

lemma task_limit: "run_net_task os l t s = Some s' \<Longrightarrow> max_connections s' = max_connections s"
  by (cases t) (auto simp: effect_limit removeConnectionInLoop_def Let_def split: list.splits)

lemma step_limit: "net_step x s = Some s' \<Longrightarrow> max_connections s' = max_connections s"
  by (cases x) (auto simp: accept_limit stop_limit effect_limit dest: task_limit split: if_splits)

interpretation limit: step_system net_step "\<lambda>s. max_connections s = m" "\<lambda>_. True" for m
  by unfold_locales (simp add: step_limit)

lemma run_limit: "net_run xs s = Some s' \<Longrightarrow> max_connections s' = max_connections s"
  using limit.run_keeps [of s "max_connections s" xs s'] by simp


section \<open>Stopping with open connections\<close>

text \<open>
  Once the loop of the server has ended, nothing removes a connection of the pool: its second connection
  callback needs a task of that loop.
\<close>

definition stranded :: "nat \<Rightarrow> TcpServer \<Rightarrow> bool" where
  "stranded c s \<longleftrightarrow> net_ok s \<and> \<not> ts_running s 0 \<and> 0 < c \<and> c < nextConnId s \<and> ts_conn_loop s c \<noteq> 0 \<and> cbs s c = 1 \<and> des s c = 0"

lemma evolves_cbs: "evolves (ts_conn s x) conn \<Longrightarrow> cbs (conn_effect l x conn s) c = cbs s c \<and> des (conn_effect l x conn s) c = des s c \<or> l = 0 \<and> tc_state (ts_conn s x) \<noteq> kDisconnected \<and> tc_state conn = kDisconnected"
proof -
  assume "evolves (ts_conn s x) conn"
  then obtain xs where xs: "callbacks conn = callbacks (ts_conn s x) @ xs" "ConnectionCb \<notin> set xs"
      "count_list xs CloseCb = (if tc_state (ts_conn s x) \<noteq> kDisconnected \<and> tc_state conn = kDisconnected then 1 else 0)"
    unfolding evolves_def by blast
  have "count_list xs CloseCb \<le> 1" "count_list xs ConnectionCb = 0" using xs(2,3) by simp_all
  then show ?thesis using conn_effect_eq [OF xs(1)] xs(1,3) by (auto simp: Let_def cbs_def [of s])
qed

lemma stranded_task:
  assumes s: "stranded c s" "ts_running s l" "ts_tasks s l = t # ts" "run_net_task os l t (pop_task l s) = Some s'"
  shows "cbs s' c = 1 \<and> des s' c = 0 \<and> ts_conn_loop s' = ts_conn_loop s \<and> nextConnId s' = nextConnId s \<and> ts_running s' = ts_running s"
proof -
  have ok: "net_ok s" "l \<noteq> 0" "cbs s c = 1" "des s c = 0" using s(1,2) by (cases "l = 0"; simp add: stranded_def)+
  have tk: "tasks_ok s" using ok(1) by (simp add: net_ok_def)
  note p = pop_counts [OF tk s(3)]
  have b: "balanced s c" using s(1) by (simp add: stranded_def net_ok_def)
  have d: "des (pop_task l s) c = 0" "est s c = 0" using p(3) [of c] ok b by (auto simp: balanced_def)
  show ?thesis
  proof (cases t)
    case (EstablishTask x)
    then have "x \<noteq> c" using d(2) p(1) [of c] by auto
    moreover have "conn_effect l x (connectEstablished (ts_conn s x)) (pop_task l s) = set_conn x (connectEstablished (ts_conn s x)) 0 (pop_task l s)"
      by (rule connection_callback_effect) (simp_all add: connectEstablished_def callback_def)
    ultimately have "s' = set_conn x (connectEstablished (ts_conn s x)) 0 (pop_task l s)" using s(4) EstablishTask by simp
    then show ?thesis using \<open>x \<noteq> c\<close> ok d by simp
  next
    case (RemoveTask x)
    then show ?thesis using p(5) ok(2) by simp
  next
    case (DestroyTask x)
    then have "x \<noteq> c" using ok(4) p(3) [of c] by auto
    moreover have "conn_effect l x (connectDestroyed (ts_conn s x)) (pop_task l s) = set_conn x (connectDestroyed (ts_conn s x)) 0 (pop_task l s)"
      by (rule connection_callback_effect) (simp_all add: connectDestroyed_def callback_def)
    ultimately have "s' = set_conn x (connectDestroyed (ts_conn s x)) 0 (pop_task l s)" using s(4) DestroyTask by simp
    then show ?thesis using \<open>x \<noteq> c\<close> ok d by simp
  next
    case (ConnTask x)
    show ?thesis
    proof (cases "loop_tasks (ts_conn s x)")
      case Nil
      then show ?thesis using s(4) ConnTask ok d by auto
    next
      case (Cons y rest)
      let ?conn = "(ts_conn s x)\<lparr>loop_tasks := rest\<rparr>"
      let ?p = "(pop_task l s)\<lparr>ts_conn := (ts_conn s)(x := ?conn)\<rparr>"
      obtain conn where r: "run_task os y ?conn = Some conn" "s' = conn_effect l x conn ?p" using s(4) Cons ConnTask by (auto simp: Let_def)
      have "balanced s x" using p(5) ConnTask ok(1) by (simp add: net_ok_def)
      then have "quiet ?conn" "tc_state ?conn \<noteq> kConnecting" "y \<noteq> StartReadTask" using Cons by (auto simp: balanced_def quiet_def)
      from evolves_task [OF this r(1)] have "evolves (ts_conn ?p x) conn" by simp
      from evolves_cbs [OF this, of l c] ok(2) have "cbs s' c = cbs ?p c" "des s' c = des ?p c" by (simp_all add: r(2))
      moreover have "cbs ?p c = cbs s c" "des ?p c = des (pop_task l s) c" by (simp_all add: cbs_def des_def)
      ultimately show ?thesis using r(2) ok d by simp
    qed
  qed
qed

lemma force_all_cbs:
  "net_ok s \<Longrightarrow> \<forall>c \<in> set cs. 0 < c \<and> c < nextConnId s \<Longrightarrow>
    let s' = fold (\<lambda>c s. conn_effect 0 c (tcp_forceClose (ts_conn s c)) s) cs s in
    cbs s' x = cbs s x \<and> des s' x = des s x \<and> ts_conn_loop s' = ts_conn_loop s \<and> nextConnId s' = nextConnId s \<and> ts_running s' = ts_running s"
proof (induction cs arbitrary: s)
  case (Cons c cs)
  let ?s = "conn_effect 0 c (tcp_forceClose (ts_conn s c)) s"
  have q: "quiet (ts_conn s c)" using Cons.prems by (simp add: net_ok_def balanced_def)
  have "tc_state (tcp_forceClose (ts_conn s c)) = kDisconnected \<longrightarrow> tc_state (ts_conn s c) = kDisconnected" by (simp add: tcp_forceClose_def)
  then have "cbs ?s x = cbs s x \<and> des ?s x = des s x"
    using evolves_cbs [OF evolves_op [OF q, of undefined OpForceClose], of "tcp_forceClose (ts_conn s c)" 0 x] by auto
  moreover have "net_ok ?s" using op_ok [OF Cons.prems(1), of c _ OpForceClose] Cons.prems(2) by simp
  ultimately show ?case using Cons.IH [of ?s] Cons.prems(2) by (simp add: Let_def)
qed (simp add: Let_def)

lemma stranded_step: "stranded c s \<Longrightarrow> net_step x s = Some s' \<Longrightarrow> stranded c s'"
proof -
  assume s: "stranded c s" "net_step x s = Some s'"
  have n: "net_ok s" "\<not> ts_running s 0" using s(1) by (simp_all add: stranded_def)
  have ok: "net_ok s'" by (rule net_step_ok [OF n(1) s(2)])
  have "cbs s' c = cbs s c \<and> des s' c = des s c \<and> ts_conn_loop s' = ts_conn_loop s \<and> nextConnId s' = nextConnId s \<and> \<not> ts_running s' 0"
  proof (cases x)
    case (LoopTaskStep l os)
    then obtain t ts where "ts_running s l" "ts_tasks s l = t # ts" "run_net_task os l t (pop_task l s) = Some s'"
      using s(2) by (cases "ts_tasks s l") (auto simp: pop_task_def split: if_splits)
    from stranded_task [OF s(1) this] s(1) n show ?thesis by (simp add: stranded_def)
  next
    case (ConnStep y os z)
    then obtain conn where y: "0 < y" "y < nextConnId s" "ts_running s (ts_conn_loop s y)" "conn_op os z (ts_conn s y) = Some conn"
        "s' = conn_effect (ts_conn_loop s y) y conn s" using s(2) by (auto split: if_splits)
    have "quiet (ts_conn s y)" "ts_conn_loop s y \<noteq> 0" using n y(1-3) by (simp add: net_ok_def balanced_def, metis)
    then show ?thesis using evolves_cbs [OF evolves_op [OF _ y(4)], of "ts_conn_loop s y" c] y(5) n(2) by simp
  next
    case StopServer
    let ?s = "s\<lparr>ts_started := False, accepting := False, connections := []\<rparr>"
    have "net_ok ?s" by (rule emptied_ok [OF n(1)])
    moreover have "\<forall>c \<in> set (map snd (connections s)). 0 < c \<and> c < nextConnId ?s" using n(1) by (auto simp: net_ok_def conn_table_ok_def)
    moreover have "s' = ts_stop s" using s(2) StopServer n(2) by simp
    ultimately show ?thesis
      using force_all_cbs [of ?s "map snd (connections s)" c] n(2) by (auto simp: ts_stop_def Let_def cbs_def des_def)
  qed (use s(2) n(2) in \<open>auto simp: cbs_def des_def split: if_splits\<close>)
  then show ?thesis using s(1) ok by (simp add: stranded_def)
qed

interpretation strand: step_system net_step "stranded c" "\<lambda>_. True" for c
  by unfold_locales (rule stranded_step)

text \<open>
  C40. A connection of a pool loop that is open when the loop of the server has ended is never destroyed, whatever the loops of the
  pool still do: its second connection callback does not happen, so the number of connections the server counts does not
  reach zero.
\<close>

theorem tcp_stop_strands_connections:
  assumes "net_run xs (ts_start n (setMaxConnections m (new_TcpServer name))) = Some s"
    and "\<not> ts_running s 0" "0 < c" "c < nextConnId s" "ts_conn_loop s c \<noteq> 0" "tc_state (ts_conn s c) = kConnected"
    and "net_run (StopServer # ys) s = Some s'"
  shows "cbs s' c = 1"
proof -
  have ok: "net_ok s" by (rule net_run_ok [OF start_ok assms(1)])
  then have "balanced s c" using assms(3,4) by (simp add: net_ok_def)
  then have "cbs s c = 1" "des s c = 0" using assms(6) by (auto simp: balanced_def)
  then have "stranded c s" using ok assms(2-5) by (simp add: stranded_def)
  from strand.run_keeps [OF this _ assms(7)] show ?thesis by (simp add: stranded_def)
qed

definition ex_net :: "TcpServer option" where
  "ex_net = net_run [Accept [5, -1], LoopTaskStep 1 (\<lambda>d. Wrote (length d)), LoopExits 0] (ts_start 1 (setMaxConnections 9 (new_TcpServer ''S'')))"

lemmas net_eval = ts_start_def setMaxConnections_def new_TcpServer_def newConnection_def getNextLoop_def ts_queue_def conn_effect_def
  new_callbacks_def new_tasks_def connectEstablished_def callback_def new_TcpConnection_def Let_def

lemma ex_net_run:
  "\<exists>s. ex_net = Some s \<and> \<not> ts_running s 0 \<and> ts_running s 1 \<and> nextConnId s = 2 \<and> ts_conn_loop s 1 = 1 \<and> tc_state (ts_conn s 1) = kConnected \<and>
    cbs s 1 = 1 \<and> ts_tasks s 1 = [] \<and> net_run [StopServer, LoopTaskStep 1 (\<lambda>d. Wrote (length d)), LoopExits 1] s \<noteq> None"
  by (simp add: ex_net_def net_eval cbs_def ts_stop_def tcp_forceClose_def queueInLoop_def forceCloseInLoop_def handleClose_def removeConnection_def)


theorem tcp_stop_strands_connections_witness:
  "\<exists>s s'. ex_net = Some s \<and> net_run [StopServer, LoopTaskStep 1 (\<lambda>d. Wrote (length d)), LoopExits 1] s = Some s' \<and> cbs s' 1 = 1"
proof -
  obtain s s' where s: "ex_net = Some s" "\<not> ts_running s 0" "nextConnId s = 2" "ts_conn_loop s 1 = 1" "tc_state (ts_conn s 1) = kConnected"
      "net_run [StopServer, LoopTaskStep 1 (\<lambda>d. Wrote (length d)), LoopExits 1] s = Some s'" using ex_net_run by blast
  have "cbs s' 1 = 1" by (rule tcp_stop_strands_connections [OF s(1) [unfolded ex_net_def] s(2) _ _ _ s(5) s(6)]) (use s(3,4) in simp_all)
  with s(1,6) show ?thesis by blast
qed

end
