(* ===== verification/Server_Lifecycle.thy ===== *)
theory Server_Lifecycle
  imports Persist_Props Config_Props Tcp_Server
begin

text \<open>
  The life of a server process: the start in \<^verbatim>\<open>server/Server.cpp\<close> (options from the configuration, \<^verbatim>\<open>storage2/Factory.cpp\<close>, recovery,
  network), the phases of \<^verbatim>\<open>Server::stop\<close>, and the graceful shutdown. A session is a start, storage calls,
  and a clean stop; what the next start finds on disk is what the session left. The log is written by the caller, or by the worker
  thread after a call of its own choice; a run in which the worker is still writing when the shutdown flushes is not a session of
  this theory. The start and the stop run in the thread of the main loop.
\<close>

section \<open>Options\<close>

datatype WalFlushPolicy = PolicyNever | PolicyAlways | PolicyPeriodic

definition parseWalFlushPolicyString :: "string \<Rightarrow> WalFlushPolicy" where
  "parseWalFlushPolicyString raw =
     (let policy_string = trim (lower raw)
      in if policy_string = ''never'' then PolicyNever else if policy_string = ''always'' then PolicyAlways else PolicyPeriodic)"

record Storage2WiringOptions =
  opt_max_storage_bytes :: u64
  opt_enable_wal :: bool
  opt_wal_path :: string
  opt_snapshot_path :: string
  opt_wal_flush_policy :: WalFlushPolicy
  opt_wal_flush_interval_ms :: int
  opt_wal_async :: bool
  opt_wal_max_queue :: u64
  opt_wal_group_commit_linger_ms :: int
  opt_wal_group_commit_max_mutations :: u64
  opt_wal_group_commit_max_bytes :: u64
  opt_max_wal_file_size_mb :: int
  opt_enable_snapshot :: bool
  opt_snapshot_interval_seconds :: int

text \<open>The first part of \<^verbatim>\<open>Server::initializeStorage\<close>.\<close>

definition storage_options :: "Config \<Rightarrow> Storage2WiringOptions" where
  "storage_options c =
     \<lparr>opt_max_storage_bytes = (if int_of ''max_memory_mb'' c \<le> 0 then 0 else word_of_int (int_of ''max_memory_mb'' c) * 0x100000),
      opt_enable_wal = bool_of ''enable_wal'' c,
      opt_wal_path = str_of ''wal_dir'' c @ ''/wal2.bin'',
      opt_snapshot_path = str_of ''snapshot_dir'' c @ ''/snapshot2.bin'',
      opt_wal_flush_policy = parseWalFlushPolicyString (str_of ''wal_flush_policy'' c),
      opt_wal_flush_interval_ms = int_of ''wal_sync_interval_ms'' c,
      opt_wal_async = bool_of ''wal_async'' c,
      opt_wal_max_queue = (if int_of ''wal_max_queue'' c \<le> 0 then 1 else word_of_int (int_of ''wal_max_queue'' c)),
      opt_wal_group_commit_linger_ms = int_of ''wal_group_commit_linger_ms'' c,
      opt_wal_group_commit_max_mutations = word_of_int (max 1 (int_of ''wal_group_commit_max_mutations'' c)),
      opt_wal_group_commit_max_bytes = word_of_int (max 1 (int_of ''wal_group_commit_max_bytes'' c)),
      opt_max_wal_file_size_mb = int_of ''max_wal_file_size_mb'' c,
      opt_enable_snapshot = bool_of ''enable_snapshot'' c,
      opt_snapshot_interval_seconds = int_of ''snapshot_interval_seconds'' c\<rparr>"

section \<open>Putting the storage together\<close>

text \<open>
  A path is looked up by its file name in the directory of the log. The constructor of the orchestrator opens the log, which creates
  the file if it is missing, and starts its threads.
\<close>

record Disk =
  disk_wal :: directory
  disk_snap :: SnapFiles

record PersistenceOrchestrator =
  po_options :: Storage2WiringOptions
  po_wal_writer :: "WalWriter option"
  po_queue :: "Mutation list list"
  po_worker :: bool
  po_snapshot_thread :: bool

record Storage2Components =
  sc_engine :: Engine
  sc_orchestrator :: "PersistenceOrchestrator option"

definition file_name :: "string \<Rightarrow> string" where
  "file_name path = rev (takeWhile (\<lambda>c. c \<noteq> CHR ''/'') (rev path))"

definition new_PersistenceOrchestrator :: "WalEnv \<Rightarrow> directory \<Rightarrow> Storage2WiringOptions \<Rightarrow> PersistenceOrchestrator" where
  "new_PersistenceOrchestrator env dir opt =
     \<lparr>po_options = opt,
      po_wal_writer =
        (if opt_enable_wal opt \<and> opt_wal_path opt \<noteq> []
         then let max_wal_bytes = (if opt_max_wal_file_size_mb opt > 0 then nat (opt_max_wal_file_size_mb opt) * 1024 * 1024 else 0)
           in Some (new_WalWriter env dir (file_name (opt_wal_path opt)) max_wal_bytes)
         else None),
      po_queue = [],
      po_worker = opt_wal_async opt,
      po_snapshot_thread = (opt_enable_snapshot opt \<and> opt_snapshot_interval_seconds opt > 0 \<and> opt_snapshot_path opt \<noteq> [])\<rparr>"

definition createStorage2 :: "WalEnv \<Rightarrow> u64 \<Rightarrow> (nat \<Rightarrow> int) \<Rightarrow> directory \<Rightarrow> Storage2WiringOptions \<Rightarrow> Storage2Components" where
  "createStorage2 env szrec clock dir opt =
     \<lparr>sc_engine = new_engine szrec (opt_max_storage_bytes opt) clock,
      sc_orchestrator =
        (if opt_enable_wal opt \<or> opt_snapshot_path opt \<noteq> [] then Some (new_PersistenceOrchestrator env dir opt) else None)\<rparr>"

definition sc_writer :: "Storage2Components \<Rightarrow> WalWriter option" where
  "sc_writer sc = Option.bind (sc_orchestrator sc) po_wal_writer"

text \<open>The directory of the log as the writer left it.\<close>

definition wal_directory :: "WalWriter option \<Rightarrow> directory \<Rightarrow> directory" where
  "wal_directory ww dir = (case ww of None \<Rightarrow> dir | Some w \<Rightarrow> ww_dir w)"

definition orch_files :: "Storage2WiringOptions \<Rightarrow> Disk \<Rightarrow> RecoverFiles" where
  "orch_files opt disk =
     \<lparr>snapshot_path_set = (opt_snapshot_path opt \<noteq> []), snapshot_file = final_file (disk_snap disk),
      wal_path_set = (opt_wal_path opt \<noteq> []), wal_base = file_name (opt_wal_path opt), wal_dir = disk_wal disk\<rparr>"

text \<open>
  \<^verbatim>\<open>Server::initializeStorage\<close>. \<open>dirs_ok\<close> tells whether the directories can be created; if not, the exception makes the start fail.
\<close>

definition initializeStorage ::
    "WalEnv \<Rightarrow> bool \<Rightarrow> u64 \<Rightarrow> (nat \<Rightarrow> int) \<Rightarrow> Config \<Rightarrow> Disk \<Rightarrow> (Storage2Components \<times> Disk) option" where
  "initializeStorage env dirs_ok szrec clock c disk =
     (let opt = storage_options c in
      if \<not> dirs_ok then None
      else let sc = createStorage2 env szrec clock (disk_wal disk) opt;
               disk = disk\<lparr>disk_wal := wal_directory (sc_writer sc) (disk_wal disk)\<rparr>
        in case sc_orchestrator sc of
             None \<Rightarrow> Some (sc, disk)
           | Some orch \<Rightarrow>
               let (recovered, e) = recoverInto (orch_files (po_options orch) disk) (sc_engine sc)
               in if \<not> recovered then None else Some (sc\<lparr>sc_engine := e\<rparr>, disk))"

text \<open>
  \<open>orch_flush\<close> is \<^verbatim>\<open>flush\<close>, and also what a round of the worker does to the queue and the log; synchronising files has no effect here.
  \<open>orch_submit\<close> is \<^verbatim>\<open>submit\<close>: with the worker, a full queue makes the caller wait until the worker has emptied it.
\<close>

definition commit_options :: "Storage2WiringOptions \<Rightarrow> CommitOptions" where
  "commit_options opt = \<lparr>group_commit_max_mutations = unat (opt_wal_group_commit_max_mutations opt),
     group_commit_max_bytes = unat (opt_wal_group_commit_max_bytes opt)\<rparr>"

definition orch_flush :: "WalEnv \<Rightarrow> PersistenceOrchestrator \<Rightarrow> PersistenceOrchestrator" where
  "orch_flush env orch =
     (if po_queue orch = [] then orch
      else orch\<lparr>po_queue := [],
        po_wal_writer := map_option (group_commit env (commit_options (po_options orch)) (po_queue orch)) (po_wal_writer orch)\<rparr>)"

definition orch_submit :: "WalEnv \<Rightarrow> Mutation list \<Rightarrow> PersistenceOrchestrator \<Rightarrow> PersistenceOrchestrator" where
  "orch_submit env batch orch =
     (if batch = [] then orch
      else if \<not> po_worker orch then orch\<lparr>po_wal_writer := map_option (\<lambda>w. snd (append env batch w)) (po_wal_writer orch)\<rparr>
      else let orch = (if length (po_queue orch) < queue_limit (unat (opt_wal_max_queue (po_options orch))) then orch else orch_flush env orch)
        in orch\<lparr>po_queue := po_queue orch @ [batch]\<rparr>)"

text \<open>
  Storage calls of the server, decorated if there is an orchestrator. The worker runs a round after a call where the schedule says
  so.
\<close>

fun storage_calls ::
    "WalEnv \<Rightarrow> bool list \<Rightarrow> api_call list \<Rightarrow> Storage2Components \<Rightarrow> api_value StorageResult list \<times> Storage2Components" where
  "storage_calls env sched [] sc = ([], sc)"
| "storage_calls env sched (c # cs) sc =
     (let (r, e) = api_exec c (sc_engine sc);
          (r, orch) = (case sc_orchestrator sc of
             None \<Rightarrow> (r, None)
           | Some orch \<Rightarrow>
               let orch = orch_submit env (sr_mutations r) orch;
                   orch = (if po_worker orch \<and> sched \<noteq> [] \<and> hd sched then orch_flush env orch else orch)
               in (r\<lparr>sr_mutations := []\<rparr>, Some orch));
          (rs, sc) = storage_calls env (tl sched) cs \<lparr>sc_engine = e, sc_orchestrator = orch\<rparr>
      in (r # rs, sc))"

definition create_multi_type_snapshot :: "SnapEnv \<Rightarrow> Storage2Components \<Rightarrow> SnapFiles \<Rightarrow> bool \<times> Storage2Components \<times> SnapFiles" where
  "create_multi_type_snapshot env sc fs =
     (case sc_orchestrator sc of
        Some orch \<Rightarrow>
          if opt_snapshot_path (po_options orch) = [] then (False, sc, fs)
          else let (ok, e, fs) = takeSnapshotNow env (sc_engine sc) fs in (ok, sc\<lparr>sc_engine := e\<rparr>, fs)
      | None \<Rightarrow>
          let (records, e) = dumpAllLiveRecords (sc_engine sc); (ok, fs) = SnapshotWriter_writeToFile env records fs
          in (ok, sc\<lparr>sc_engine := e\<rparr>, fs))"

text \<open>
  A session: the start, the calls, and the storage part of \<^verbatim>\<open>gracefulShutdown\<close>: the final snapshot and the synchronisation of the log. The
  result has the store before the final snapshot and the disk that the session leaves.
\<close>

definition session ::
    "WalEnv \<Rightarrow> SnapEnv \<Rightarrow> u64 \<Rightarrow> (nat \<Rightarrow> int) \<Rightarrow> Config \<Rightarrow> bool list \<Rightarrow> api_call list \<Rightarrow> Disk \<Rightarrow> (Engine \<times> Disk) option" where
  "session env senv szrec clock c sched cs disk =
     (case initializeStorage env True szrec clock c disk of
        None \<Rightarrow> None
      | Some (sc, disk) \<Rightarrow>
          let (rs, sc) = storage_calls env sched cs sc; (ok, sc', fs) = create_multi_type_snapshot senv sc (disk_snap disk);
              sc' = sc'\<lparr>sc_orchestrator := map_option (orch_flush env) (sc_orchestrator sc')\<rparr>
          in Some (sc_engine sc, \<lparr>disk_wal = wal_directory (sc_writer sc') (disk_wal disk), disk_snap = fs\<rparr>))"

section \<open>Restart\<close>

text \<open>
  A disk with a readable log \<open>L\<close> in one file, or no log, and a readable snapshot \<open>S\<close>, or none.
\<close>

definition disk_ok :: "Mutation list \<Rightarrow> (string \<times> Record) list \<Rightarrow> Disk \<Rightarrow> bool" where
  "disk_ok L S disk \<longleftrightarrow> log_ok L \<and> numbered ''wal2.bin'' (disk_wal disk) = [] \<and>
     (map_of (disk_wal disk) ''wal2.bin'' = Some (encodeBatch L) \<or> map_of (disk_wal disk) ''wal2.bin'' = None \<and> L = []) \<and>
     (final_file (disk_snap disk) = None \<and> S = [] \<or>
      final_file (disk_snap disk) = Some (snapshot_bytes S) \<and> (\<forall>kv \<in> set S. entry_fits kv) \<and> length S < 2 ^ 32)"

definition clock_ok :: "(nat \<Rightarrow> int) \<Rightarrow> bool" where
  "clock_ok clock \<longleftrightarrow> (\<forall>n. in_i64 (clock n))"

lemma wal_name [simp]: "file_name (d @ ''/wal2.bin'') = ''wal2.bin''"
  by (simp add: file_name_def)

lemma options_simps [simp]:
  "opt_wal_path (storage_options c) = str_of ''wal_dir'' c @ ''/wal2.bin''"
  "opt_snapshot_path (storage_options c) = str_of ''snapshot_dir'' c @ ''/snapshot2.bin''"
  "opt_enable_wal (storage_options c) = bool_of ''enable_wal'' c"
  "opt_max_wal_file_size_mb (storage_options c) = int_of ''max_wal_file_size_mb'' c"
  by (simp_all add: storage_options_def)

text \<open>What recovery makes of such a disk.\<close>

lemma recover_disk:
  assumes "disk_ok L S disk" "eng_inv e" "eng_view e = Map.empty"
  obtains e' where "recoverInto (orch_files (storage_options c) disk) e = (True, e')"
    "eng_view e' = replay L (map_of (rev S))" "eng_inv e'" "eng_clock e' = eng_clock e"
proof -
  have ok: "log_ok L" using assms(1) by (simp add: disk_ok_def)
  define e1 where "e1 = (if final_file (disk_snap disk) = None then e else loadSnapshot S e)"
  have S: "eng_inv e1" "eng_view e1 = map_of (rev S)" "eng_clock e1 = eng_clock e"
    using assms by (auto simp: e1_def disk_ok_def loadSnapshot_view entry_fits_def split_beta intro!: loadSnapshot_inv)
  have r: "recoverInto (orch_files (storage_options c) disk) e = replay_wal (orch_files (storage_options c) disk) e1"
    using assms(1) readFromFile_enc [of S] by (auto simp: recoverInto_def orch_files_def e1_def disk_ok_def)
  have a: "replay_wal (orch_files (storage_options c) disk) e1 = apply_all L e1"
    using assms(1) chain_single_file [of "''wal2.bin''" "disk_wal disk" L] by (auto simp: replay_wal_def orch_files_def disk_ok_def)
  have "eng_clock (snd (apply_all L e1)) = eng_clock e1" for L
    by (induction L arbitrary: e1) (auto simp: split_beta)
  with apply_all_replay [OF log_ok_muts [OF ok], of e1] apply_all_inv [OF S(1), of L] ok S show ?thesis
    by (intro that [of "snd (apply_all L e1)"]) (auto simp: r a prod_eq_iff)
qed

lemma new_writer:
  assumes "no_failures env" "numbered b dir = []"
  shows "single_file (new_WalWriter env dir b 0)" "ww_base (new_WalWriter env dir b 0) = b"
    "map_of (ww_dir (new_WalWriter env dir b 0)) = (map_of dir)(b \<mapsto> (case map_of dir b of None \<Rightarrow> [] | Some x \<Rightarrow> x))"
  using assms by (auto simp: new_WalWriter_def open_base_def no_failures_def single_file_def append_base_def tick_def base_content_def
      update_conv' numbered_update_base)

lemma single_file_bytes:
  assumes "single_file w" "no_failures env"
  shows "single_file (snd (appendBytes env p w))" "ww_base (snd (appendBytes env p w)) = ww_base w"
    "base_content (snd (appendBytes env p w)) = base_content w @ p"
proof -
  obtain ok w' where x: "writeAll env p w = (ok, w')" by (metis prod.exhaust)
  have ok using writeAll_succeeds [OF assms(2), of p w] by (simp add: x)
  with writeAll_effect [OF x] x appendBytes_unlimited [of w env p] assms(1) show "single_file (snd (appendBytes env p w))" "ww_base (snd (appendBytes env p w)) = ww_base w"
    "base_content (snd (appendBytes env p w)) = base_content w @ p"
    by (auto simp: single_file_def appendBytes_def appendBytes_loop.simps)
qed

text \<open>The writer after a group commit.\<close>

definition wrote :: "byte list \<Rightarrow> WalWriter \<Rightarrow> WalWriter \<Rightarrow> bool" where
  "wrote bs w w' \<longleftrightarrow> single_file w' \<and> ww_base w' = ww_base w \<and> base_content w' = base_content w @ bs"

lemma wrote_bytes: "single_file w \<Longrightarrow> no_failures env \<Longrightarrow> wrote p w (snd (appendBytes env p w))"
  by (simp add: wrote_def single_file_bytes)

lemma wrote_trans: "wrote a w w1 \<Longrightarrow> wrote b w1 w2 \<Longrightarrow> wrote (a @ b) w w2"
  by (simp add: wrote_def)

definition committing :: "WalWriter \<Rightarrow> byte list \<Rightarrow> commit_state \<Rightarrow> bool" where
  "committing w0 d s \<longleftrightarrow> (\<exists>b. wrote b w0 (snd (snd s)) \<and> d = b @ fst s)"

lemma committing_flush:
  assumes "no_failures env" "committing w0 d s"
  shows "committing w0 d (flushBuf env s)" "fst (flushBuf env s) = []"
proof -
  obtain buf n w where s: "s = (buf, n, w)" by (metis prod_cases3)
  obtain b where b: "wrote b w0 w" "d = b @ buf" using assms(2) by (auto simp: committing_def s)
  have "wrote (b @ buf) w0 (snd (appendBytes env buf w))"
    by (rule wrote_trans [OF b(1) wrote_bytes [OF _ assms(1)]]) (use b(1) in \<open>simp add: wrote_def\<close>)
  with b show "committing w0 d (flushBuf env s)" "fst (flushBuf env s) = []" by (auto simp: flushBuf_def s committing_def)
qed

lemma committing_one: "no_failures env \<Longrightarrow> committing w0 d s \<Longrightarrow> committing w0 (d @ appendMutation m) (commit_one env opt m s)"
proof -
  assume a: "no_failures env" "committing w0 d s"
  obtain buf n w where s: "s = (buf, n, w)" by (metis prod_cases3)
  have "committing w0 (d @ appendMutation m) (buf @ appendMutation m, n + 1, w)" using a(2) by (auto simp: committing_def s)
  with committing_flush(1) [OF a(1) this] show ?thesis by (auto simp: commit_one_def s Let_def)
qed

lemma group_commit_wrote: "single_file w \<Longrightarrow> no_failures env \<Longrightarrow> wrote (encodeBatch (concat bs)) w (group_commit env opt bs w)"
proof -
  assume a: "single_file w" "no_failures env"
  have "committing w (d @ encodeBatch ms) (fold (commit_one env opt) ms s)" if "committing w d s" for d ms s
    using that by (induction ms arbitrary: d s) (auto simp: committing_one [OF a(2)] dest!: committing_one [OF a(2)] simp flip: append_assoc)
  from this [of "[]" "([], 0, w)" "concat bs"] have "committing w (encodeBatch (concat bs)) (fold (fold (commit_one env opt)) bs ([], 0, w))"
    using a(1) by (auto simp: committing_def fold_fold wrote_def)
  from committing_flush [OF a(2) this] show ?thesis by (auto simp: group_commit_def committing_def split: prod.split)
qed

text \<open>The log of an orchestrator: what its writer has added, followed by what waits in its queue.\<close>

definition holds_log :: "WalWriter \<Rightarrow> byte list \<Rightarrow> PersistenceOrchestrator \<Rightarrow> bool" where
  "holds_log w0 bs orch \<longleftrightarrow> (\<exists>w b. po_wal_writer orch = Some w \<and> wrote b w0 w \<and> bs = b @ encodeBatch (concat (po_queue orch)))"

lemma orch_flush_log:
  assumes "no_failures env" "holds_log w0 bs orch"
  shows "holds_log w0 bs (orch_flush env orch)"
proof -
  obtain w b where w: "po_wal_writer orch = Some w" "wrote b w0 w" "bs = b @ encodeBatch (concat (po_queue orch))"
    using assms(2) by (auto simp: holds_log_def)
  have "single_file w" using w(2) by (simp add: wrote_def)
  from wrote_trans [OF w(2) group_commit_wrote [OF this assms(1)]] w show ?thesis by (auto simp: holds_log_def orch_flush_def)
qed

lemma orch_submit_log:
  assumes "no_failures env" "holds_log w0 bs orch" "po_worker orch \<or> po_queue orch = []"
  shows "holds_log w0 (bs @ encodeBatch batch) (orch_submit env batch orch)"
proof -
  obtain w b where w: "po_wal_writer orch = Some w" "wrote b w0 w" "bs = b @ encodeBatch (concat (po_queue orch))"
    using assms(2) by (auto simp: holds_log_def)
  have f: "single_file w" using w(2) by (simp add: wrote_def)
  have "wrote (encodeBatch batch) w (snd (append env batch w))" if "batch \<noteq> []"
    using that f wrote_bytes [OF f assms(1)] by (simp add: append_def single_file_def)
  note a = wrote_trans [OF w(2) this]
  have q: "holds_log w0 (bs @ encodeBatch batch) (x\<lparr>po_queue := po_queue x @ [batch]\<rparr>)" if "holds_log w0 bs x" for x
    using that by (auto simp: holds_log_def)
  show ?thesis
    using assms(3) w a q [OF assms(2)] q [OF orch_flush_log [OF assms(1,2)]] assms(2)
    by (auto simp: orch_submit_def Let_def holds_log_def)
qed

lemma orch_fields [simp]:
  "po_worker (orch_flush env orch) = po_worker orch" "po_options (orch_flush env orch) = po_options orch"
  "po_worker (orch_submit env b orch) = po_worker orch" "po_options (orch_submit env b orch) = po_options orch"
  "po_wal_writer (orch_flush env orch) = None \<longleftrightarrow> po_wal_writer orch = None"
  "po_wal_writer (orch_submit env b orch) = None \<longleftrightarrow> po_wal_writer orch = None"
  "po_queue (orch_flush env orch) = []" "\<not> po_worker orch \<Longrightarrow> po_queue (orch_submit env b orch) = po_queue orch"
  by (auto simp: orch_flush_def orch_submit_def Let_def)

lemma storage_calls_result:
  "sc_orchestrator sc = Some orch \<Longrightarrow>
     \<exists>orch'. storage_calls env sched cs sc = (map (\<lambda>r. r\<lparr>sr_mutations := []\<rparr>) (fst (api_run cs (sc_engine sc))),
         \<lparr>sc_engine = snd (api_run cs (sc_engine sc)), sc_orchestrator = Some orch'\<rparr>) \<and>
       po_options orch' = po_options orch \<and> (po_wal_writer orch' = None \<longleftrightarrow> po_wal_writer orch = None) \<and>
       (no_failures env \<and> (po_worker orch \<or> po_queue orch = []) \<longrightarrow>
         (\<forall>w0 bs. holds_log w0 bs orch \<longrightarrow> holds_log w0 (bs @ encodeBatch (run_log cs (sc_engine sc))) orch'))"
proof (induction cs arbitrary: sched sc orch)
  case Nil
  then show ?case by (cases sc) auto
next
  case (Cons c cs)
  obtain r e where x: "api_exec c (sc_engine sc) = (r, e)" by (metis prod.exhaust)
  define o1 where "o1 = orch_submit env (sr_mutations r) orch"
  define o2 where "o2 = (if po_worker o1 \<and> sched \<noteq> [] \<and> hd sched then orch_flush env o1 else o1)"
  have o2: "po_worker o2 = po_worker orch" "po_options o2 = po_options orch" "po_wal_writer o2 = None \<longleftrightarrow> po_wal_writer orch = None"
    by (simp_all add: o2_def o1_def)
  have q2: "po_worker o2 \<or> po_queue o2 = []" if "po_worker orch \<or> po_queue orch = []"
    using that by (cases "po_worker orch") (simp_all add: o2_def o1_def)
  have l: "holds_log w0 (bs @ encodeBatch (sr_mutations r)) o2"
    if "no_failures env" "po_worker orch \<or> po_queue orch = []" "holds_log w0 bs orch" for w0 bs
    using orch_submit_log [OF that(1,3,2), of "sr_mutations r"] orch_flush_log [OF that(1)] by (simp add: o2_def o1_def)
  obtain orch' where "storage_calls env (tl sched) cs \<lparr>sc_engine = e, sc_orchestrator = Some o2\<rparr> =
      (map (\<lambda>r. r\<lparr>sr_mutations := []\<rparr>) (fst (api_run cs e)), \<lparr>sc_engine = snd (api_run cs e), sc_orchestrator = Some orch'\<rparr>)"
    "po_options orch' = po_options o2" "po_wal_writer orch' = None \<longleftrightarrow> po_wal_writer o2 = None"
    and log: "no_failures env \<and> (po_worker o2 \<or> po_queue o2 = []) \<longrightarrow>
      (\<forall>w0 bs. holds_log w0 bs o2 \<longrightarrow> holds_log w0 (bs @ encodeBatch (run_log cs e)) orch')"
    using Cons.IH [of "\<lparr>sc_engine = e, sc_orchestrator = Some o2\<rparr>" o2 "tl sched", unfolded Storage2Components.select_convs, OF refl] by (elim exE conjE) (rule that; assumption)
  moreover have "holds_log w0 (bs @ encodeBatch (run_log (c # cs) (sc_engine sc))) orch'"
    if "no_failures env" "po_worker orch \<or> po_queue orch = []" "holds_log w0 bs orch" for w0 bs
    using log [rule_format, OF _ l [OF that]] that(1) q2 [OF that(2)] by (simp add: x)
  moreover have "storage_calls env sched (c # cs) sc =
      (let (rs, sc) = storage_calls env (tl sched) cs \<lparr>sc_engine = e, sc_orchestrator = Some o2\<rparr> in (r\<lparr>sr_mutations := []\<rparr> # rs, sc))"
    unfolding o2_def o1_def by (simp add: x Cons.prems Let_def)
  ultimately show ?case
    unfolding o2(2,3) by (intro exI [of _ orch'] conjI impI allI) (simp_all add: x split_beta)
qed

text \<open>
  The start on such a disk: the engine holds the log replayed over the snapshot, the writer appends to the log if it is enabled.
\<close>

definition started_ok :: "Mutation list \<Rightarrow> (string \<times> Record) list \<Rightarrow> (nat \<Rightarrow> int) \<Rightarrow> Config \<Rightarrow> Storage2Components \<times> Disk \<Rightarrow> bool" where
  "started_ok L S clock c x \<longleftrightarrow> (case x of (sc, disk) \<Rightarrow>
     eng_inv (sc_engine sc) \<and> eng_view (sc_engine sc) = replay L (map_of (rev S)) \<and> eng_clock (sc_engine sc) = clock \<and> disk_ok L S disk \<and>
     (\<exists>orch. sc_orchestrator sc = Some orch \<and> po_options orch = storage_options c \<and> po_queue orch = [] \<and>
       (if bool_of ''enable_wal'' c
        then \<exists>w. po_wal_writer orch = Some w \<and> single_file w \<and> ww_base w = ''wal2.bin'' \<and> ww_dir w = disk_wal disk \<and> base_content w = encodeBatch L
        else po_wal_writer orch = None)))"

lemma start_storage:
  assumes "disk_ok L S disk" "no_failures env" "clock_ok clock" "int_of ''max_wal_file_size_mb'' c \<le> 0"
  shows "\<exists>x. initializeStorage env True szrec clock c disk = Some x \<and> started_ok L S clock c x \<and> (\<not> bool_of ''enable_wal'' c \<longrightarrow> snd x = disk) \<and>
    disk_snap (snd x) = disk_snap disk"
proof -
  let ?opt = "storage_options c"
  define e where "e = new_engine szrec (opt_max_storage_bytes ?opt) clock"
  define orch where "orch = new_PersistenceOrchestrator env (disk_wal disk) ?opt"
  define d where "d = disk\<lparr>disk_wal := wal_directory (po_wal_writer orch) (disk_wal disk)\<rparr>"
  let ?w = "new_WalWriter env (disk_wal disk) ''wal2.bin'' 0"
  have o: "po_options orch = ?opt" "po_queue orch = []" "po_wal_writer orch = (if bool_of ''enable_wal'' c then Some ?w else None)"
    using assms(4) by (simp_all add: orch_def new_PersistenceOrchestrator_def)
  have n: "numbered ''wal2.bin'' (disk_wal disk) = []" using assms(1) by (simp add: disk_ok_def)
  note w = new_writer [OF assms(2) n]
  have m: "map_of (ww_dir ?w) ''wal2.bin'' = Some (encodeBatch L)" using assms(1) w(3) by (auto simp: disk_ok_def)
  have d: "disk_ok L S d"
    using assms(1) w(1,2) m by (auto simp: d_def o(3) wal_directory_def disk_ok_def single_file_def)
  have inv: "eng_inv e" "eng_view e = Map.empty" "eng_clock e = clock"
    using assms(3) by (simp_all add: e_def new_engine_inv new_engine_view clock_ok_def)
  obtain e' where e': "recoverInto (orch_files ?opt d) e = (True, e')" "eng_view e' = replay L (map_of (rev S))" "eng_inv e'" "eng_clock e' = clock"
    using recover_disk [OF d inv(1,2)] inv(3) by metis
  have "initializeStorage env True szrec clock c disk = Some (\<lparr>sc_engine = e', sc_orchestrator = Some orch\<rparr>, d)"
    using e'(1) o(1) by (simp add: initializeStorage_def createStorage2_def sc_writer_def Let_def e_def [symmetric] orch_def [symmetric] d_def [symmetric])
  moreover have "started_ok L S clock c (\<lparr>sc_engine = e', sc_orchestrator = Some orch\<rparr>, d)"
  proof -
    have "bool_of ''enable_wal'' c \<Longrightarrow> ww_dir ?w = disk_wal d" "base_content ?w = encodeBatch L"
      using m w(2) by (simp_all add: d_def o(3) wal_directory_def base_content_def)
    then show ?thesis
      using e'(2-4) d o w(1,2) unfolding started_ok_def by (cases "bool_of ''enable_wal'' c") simp_all
  qed
  moreover have "\<not> bool_of ''enable_wal'' c \<longrightarrow> d = disk" by (simp add: d_def o(3) wal_directory_def)
  moreover have "disk_snap d = disk_snap disk" by (simp add: d_def)
  ultimately show ?thesis unfolding snd_conv by (intro exI conjI) (assumption | simp only: snd_conv)+
qed

text \<open>The final snapshot either replaces the snapshot file by the live records or leaves it.\<close>

lemma final_snapshot:
  assumes "sc_orchestrator sc = Some orch" "po_options orch = storage_options c" "rename1_ok senv"
    and "create_multi_type_snapshot senv sc fs = (ok, sc', fs')"
  shows "sc_orchestrator sc' = Some orch \<and> (final_file fs' = final_file fs \<or> final_file fs' = Some (snapshot_bytes (fst (dumpAllLiveRecords (sc_engine sc)))))"
  using assms
  by (auto simp: create_multi_type_snapshot_def takeSnapshotNow_def SnapshotWriter_writeToFile_def Let_def split_beta split: if_splits)

text \<open>A session on a disk that is in order, with and without the log.\<close>

lemma session_result:
  assumes "disk_ok L S disk" "no_failures env" "rename1_ok senv" "clock_ok clock" "int_of ''max_wal_file_size_mb'' c \<le> 0"
    and "initializeStorage env True szrec clock c disk = Some (sc, d)"
  obtains disk' where "session env senv szrec clock c sched cs disk = Some (snd (api_run cs (sc_engine sc)), disk')"
    "final_file (disk_snap disk') = final_file (disk_snap disk) \<or>
     final_file (disk_snap disk') = Some (snapshot_bytes (fst (dumpAllLiveRecords (snd (api_run cs (sc_engine sc))))))"
    "bool_of ''enable_wal'' c \<Longrightarrow> numbered ''wal2.bin'' (disk_wal disk') = [] \<and>
       (map_of (disk_wal disk') ''wal2.bin'' = Some (encodeBatch (L @ run_log cs (sc_engine sc))) \<or>
        map_of (disk_wal disk') ''wal2.bin'' = None \<and> L @ run_log cs (sc_engine sc) = [])"
    "\<not> bool_of ''enable_wal'' c \<Longrightarrow> disk_wal disk' = disk_wal disk"
proof -
  have st: "started_ok L S clock c (sc, d)" "\<not> bool_of ''enable_wal'' c \<Longrightarrow> d = disk" "disk_snap d = disk_snap disk"
    using start_storage [OF assms(1,2,4,5), of szrec] assms(6) by auto
  obtain orch where o: "sc_orchestrator sc = Some orch" "po_options orch = storage_options c" "po_queue orch = []"
    using st(1) by (auto simp: started_ok_def)
  obtain orch1 where c1: "storage_calls env sched cs sc = (map (\<lambda>r. r\<lparr>sr_mutations := []\<rparr>) (fst (api_run cs (sc_engine sc))),
      \<lparr>sc_engine = snd (api_run cs (sc_engine sc)), sc_orchestrator = Some orch1\<rparr>)"
    and o1: "po_options orch1 = storage_options c" "po_wal_writer orch1 = None \<longleftrightarrow> po_wal_writer orch = None"
    and log: "\<forall>w0 bs. holds_log w0 bs orch \<longrightarrow> holds_log w0 (bs @ encodeBatch (run_log cs (sc_engine sc))) orch1"
    using storage_calls_result [OF o(1), of env sched cs] o(2,3) assms(2) by auto
  let ?sc = "\<lparr>sc_engine = snd (api_run cs (sc_engine sc)), sc_orchestrator = Some orch1\<rparr>"
  obtain ok sc' fs where s: "create_multi_type_snapshot senv ?sc (disk_snap d) = (ok, sc', fs)" by (metis prod_cases3)
  have f: "sc_orchestrator sc' = Some orch1" "final_file fs = final_file (disk_snap disk) \<or>
      final_file fs = Some (snapshot_bytes (fst (dumpAllLiveRecords (snd (api_run cs (sc_engine sc))))))"
    using final_snapshot [OF _ o1(1) assms(3) s] st(3) by simp_all
  define disk' where "disk' = \<lparr>disk_wal = wal_directory (po_wal_writer (orch_flush env orch1)) (disk_wal d), disk_snap = fs\<rparr>"
  show ?thesis
  proof
    show "session env senv szrec clock c sched cs disk = Some (snd (api_run cs (sc_engine sc)), disk')"
      by (simp add: session_def assms(6) c1 s f(1) sc_writer_def disk'_def)
    show "final_file (disk_snap disk') = final_file (disk_snap disk) \<or>
        final_file (disk_snap disk') = Some (snapshot_bytes (fst (dumpAllLiveRecords (snd (api_run cs (sc_engine sc))))))"
      using f(2) by (simp add: disk'_def)
  next
    assume wal: "bool_of ''enable_wal'' c"
    then obtain w where w: "po_wal_writer orch = Some w" "single_file w" "ww_base w = ''wal2.bin''" "base_content w = encodeBatch L"
      using st(1) o(1) by (auto simp: started_ok_def)
    have "holds_log w [] orch" using w(1,2) o(3) by (simp add: holds_log_def wrote_def)
    with log have "holds_log w (encodeBatch (run_log cs (sc_engine sc))) orch1" by fastforce
    from orch_flush_log [OF assms(2) this] obtain w' where w': "po_wal_writer (orch_flush env orch1) = Some w'"
      "wrote (encodeBatch (run_log cs (sc_engine sc))) w w'" by (auto simp: holds_log_def)
    then show "numbered ''wal2.bin'' (disk_wal disk') = [] \<and>
       (map_of (disk_wal disk') ''wal2.bin'' = Some (encodeBatch (L @ run_log cs (sc_engine sc))) \<or>
        map_of (disk_wal disk') ''wal2.bin'' = None \<and> L @ run_log cs (sc_engine sc) = [])"
      using w(2-4) by (auto simp: disk'_def wal_directory_def wrote_def single_file_def base_content_def encodeBatch_eq_Nil split: option.splits
          dest!: encodeBatch_eq_Nil [OF sym])
  next
    assume "\<not> bool_of ''enable_wal'' c"
    then show "disk_wal disk' = disk_wal disk"
      using st(1,2) o(1) o1(2) by (auto simp: started_ok_def disk'_def wal_directory_def orch_flush_def)
  qed
qed

lemma dump_difference:
  assumes "eng_inv e"
  shows "map_of (rev (fst (dumpAllLiveRecords e))) k = eng_view e k \<or>
    map_of (rev (fst (dumpAllLiveRecords e))) k = None \<and> (\<exists>r n. eng_view e k = Some r \<and> isExpired r (eng_clock e n))"
proof -
  obtain recs e1 where d: "dumpAllLiveRecords e = (recs, e1)" by (metis prod.exhaust)
  note v = dump_view [OF assms d]
  have dk: "dump_keys (be_keys (eng_backend e)) e = (recs, e1)" using d by (simp add: dumpAllLiveRecords_def)
  have "map_of (rev recs) = eng_view e1"
    using map_of_inject_set [of "rev recs" recs] v(1,2) by (simp add: rev_map [symmetric])
  then show ?thesis
    using dump_keys_sub [OF dk, of k] dump_keys_lost [OF dk, of k] by (cases "eng_view e k") (auto simp: d)
qed

text \<open>Replaying a log over a snapshot that was taken after it.\<close>

lemma replay_over_later:
  assumes "\<forall>m \<in> set ms. mut_ok m" "S' k = replay ms S k \<or> P"
  shows "replay ms S' k = replay ms S k \<or> replay ms S' k = S' k \<and> P"
  using assms(2) replay_touched [of ms k S' S] replay_untouched [OF _ assms(1), of k S'] by (cases "touches ms k") auto

text \<open>
  C5. Clean restart, with the log in one file without a size limit: start on a disk with a readable log and snapshot, run any storage calls,
  with the log written by the caller or by the worker at any times, stop cleanly, whether or not the final snapshot succeeds, and start again. The second start succeeds
  and has exactly the records that the store had when the final snapshot was taken, except that a record whose deadline had passed may be gone;
  the disk is in order again, so the same holds for the next session.
\<close>

theorem clean_restart:
  assumes "disk_ok L S disk" "no_failures env" "rename1_ok senv" "clock_ok clock" "clock_ok clock'"
    and "bool_of ''enable_wal'' c" "int_of ''max_wal_file_size_mb'' c \<le> 0"
    and "initializeStorage env True szrec clock c disk = Some (sc, d)"
    and "\<forall>r \<in> set (fst (api_run cs (sc_engine sc))). sr_status r \<noteq> QuotaExceeded" "\<forall>m \<in> set (run_log cs (sc_engine sc)). mut_fits m"
    and "\<forall>kv \<in> set (fst (dumpAllLiveRecords (snd (api_run cs (sc_engine sc))))). entry_fits kv"
    and "length (fst (dumpAllLiveRecords (snd (api_run cs (sc_engine sc))))) < 2 ^ 32"
  shows "\<exists>e disk' S' sc' d'. session env senv szrec clock c sched cs disk = Some (e, disk') \<and>
    disk_ok (L @ run_log cs (sc_engine sc)) S' disk' \<and> initializeStorage env True szrec clock' c disk' = Some (sc', d') \<and>
    (\<forall>k. eng_view (sc_engine sc') k = eng_view e k \<or>
      eng_view (sc_engine sc') k = None \<and> (\<exists>r n. eng_view e k = Some r \<and> isExpired r (clock n)))"
proof -
  let ?e = "snd (api_run cs (sc_engine sc))" and ?log = "L @ run_log cs (sc_engine sc)"
  have st: "started_ok L S clock c (sc, d)" using start_storage [OF assms(1,2,4,7), of szrec] assms(8) by auto
  then have e: "eng_inv (sc_engine sc)" "eng_view (sc_engine sc) = replay L (map_of (rev S))" "eng_clock (sc_engine sc) = clock"
    by (simp_all add: started_ok_def)
  have v: "replay ?log (map_of (rev S)) = eng_view ?e" using run_replay [OF e(1) assms(9)] by (simp add: e(2))
  have ok: "log_ok ?log" using assms(1,10) run_mut_wf [OF e(1)] by (auto simp: disk_ok_def)
  obtain disk' where s: "session env senv szrec clock c sched cs disk = Some (?e, disk')"
    and f: "final_file (disk_snap disk') = final_file (disk_snap disk) \<or> final_file (disk_snap disk') = Some (snapshot_bytes (fst (dumpAllLiveRecords ?e)))"
    and w: "numbered ''wal2.bin'' (disk_wal disk') = [] \<and> (map_of (disk_wal disk') ''wal2.bin'' = Some (encodeBatch ?log) \<or>
      map_of (disk_wal disk') ''wal2.bin'' = None \<and> ?log = [])"
    using session_result [OF assms(1-4,7,8), of sched cs] assms(6) by metis
  define S' where "S' = (if final_file (disk_snap disk') = final_file (disk_snap disk) then S else fst (dumpAllLiveRecords ?e))"
  have d': "disk_ok ?log S' disk'" using assms(1,11,12) ok f w by (auto simp: disk_ok_def S'_def)
  obtain sc' d2 where i: "initializeStorage env True szrec clock' c disk' = Some (sc', d2)" "eng_view (sc_engine sc') = replay ?log (map_of (rev S'))"
    using start_storage [OF d' assms(2,5,7), of szrec] by (auto simp: started_ok_def)
  have "eng_view (sc_engine sc') k = eng_view ?e k \<or>
      eng_view (sc_engine sc') k = None \<and> (\<exists>r n. eng_view ?e k = Some r \<and> isExpired r (clock n))" for k
  proof (cases "S' = S")
    case False
    then have S': "S' = fst (dumpAllLiveRecords ?e)" by (simp add: S'_def split: if_splits)
    have "map_of (rev S') k = replay ?log (map_of (rev S)) k \<or>
        map_of (rev S') k = None \<and> (\<exists>r n. eng_view ?e k = Some r \<and> isExpired r (clock n))"
      using dump_difference [OF run_inv [OF e(1)], of cs k] run_clock [OF e(1), of cs] e(3) unfolding fun_cong [OF v] S' by simp
    from replay_over_later [OF log_ok_muts [OF ok], of "map_of (rev S')" k "map_of (rev S)", OF this] show ?thesis
      unfolding fun_cong [OF i(2)] fun_cong [OF v] by metis
  qed (rule disjI1, simp only: fun_cong [OF i(2)] fun_cong [OF v])
  with s d' i(1) show ?thesis by blast
qed

text \<open>
  C39. A session without the log does not survive a restart where an older log file lies in the directory: start with
  \<^verbatim>\<open>enable_wal\<close> off, run any calls, and stop cleanly. The next start replays the old log over the final snapshot, so every key that the
  old log touches has the value of the old log again, whatever the session wrote.
\<close>

theorem stale_log_overrides_snapshot:
  assumes "disk_ok L S disk" "no_failures env" "rename1_ok senv" "clock_ok clock" "clock_ok clock'"
    and "\<not> bool_of ''enable_wal'' c" "int_of ''max_wal_file_size_mb'' c \<le> 0"
    and "initializeStorage env True szrec clock c disk = Some (sc, d)"
    and "\<forall>kv \<in> set (fst (dumpAllLiveRecords (snd (api_run cs (sc_engine sc))))). entry_fits kv"
    and "length (fst (dumpAllLiveRecords (snd (api_run cs (sc_engine sc))))) < 2 ^ 32"
    and "touches L k"
  shows "\<exists>disk' sc' d'. session env senv szrec clock c sched cs disk = Some (snd (api_run cs (sc_engine sc)), disk') \<and>
    initializeStorage env True szrec clock' c disk' = Some (sc', d') \<and> eng_view (sc_engine sc') k = replay L Map.empty k"
proof -
  let ?e = "snd (api_run cs (sc_engine sc))"
  obtain disk' where s: "session env senv szrec clock c sched cs disk = Some (?e, disk')"
    and f: "final_file (disk_snap disk') = final_file (disk_snap disk) \<or> final_file (disk_snap disk') = Some (snapshot_bytes (fst (dumpAllLiveRecords ?e)))"
    and w: "disk_wal disk' = disk_wal disk"
    using session_result [OF assms(1-4,7,8), of sched cs] assms(6) by metis
  have "\<exists>S'. disk_ok L S' disk'"
    using f assms(1,9,10) w by (auto simp: disk_ok_def)
  then obtain S' where "disk_ok L S' disk'" ..
  then obtain sc' d2 where "initializeStorage env True szrec clock' c disk' = Some (sc', d2)" "eng_view (sc_engine sc') = replay L (map_of (rev S'))"
    using start_storage [OF _ assms(2,5,7), of L S' disk' szrec] by (auto simp: started_ok_def)
  with s replay_touched [OF assms(11), of "map_of (rev S')" Map.empty] show ?thesis by (metis (no_types))
qed

section \<open>Options, start and stop\<close>

definition policy_name :: "WalFlushPolicy \<Rightarrow> string" where
  "policy_name p = (case p of PolicyNever \<Rightarrow> ''never'' | PolicyAlways \<Rightarrow> ''always'' | PolicyPeriodic \<Rightarrow> ''periodic'')"

lemma space_lower: "is_space (tolower ch) = is_space ch"
  by (auto simp: tolower_def is_space_def)

lemma trim_lower: "trim (lower s) = lower (trim s)"
proof -
  have "is_space \<circ> tolower = is_space" by (simp add: fun_eq_iff space_lower)
  then have "dropWhile is_space (map tolower s) = map tolower (dropWhile is_space s)" for s by (simp add: dropWhile_map)
  then show ?thesis by (simp add: trim_def lower_def rev_map)
qed

text \<open>
  C36. The storage options are those of the configuration: for a configuration that passes \<^verbatim>\<open>validate\<close>, with 32-bit settings, the quota is the configured
  number of megabytes, without overflow; the queue and both group commit limits are the configured numbers, at least 1; and the
  flush policy is the one named.
\<close>

theorem storage_options_faithful:
  assumes "validate c" "\<forall>key. int_of key c < 2 ^ 31"
  shows "unat (opt_max_storage_bytes (storage_options c)) = nat (int_of ''max_memory_mb'' c) * 2 ^ 20 \<and>
    unat (opt_wal_max_queue (storage_options c)) = max 1 (nat (int_of ''wal_max_queue'' c)) \<and>
    unat (opt_wal_group_commit_max_mutations (storage_options c)) = nat (int_of ''wal_group_commit_max_mutations'' c) \<and>
    unat (opt_wal_group_commit_max_bytes (storage_options c)) = nat (int_of ''wal_group_commit_max_bytes'' c) \<and>
    policy_name (opt_wal_flush_policy (storage_options c)) = lower (trim (str_of ''wal_flush_policy'' c))"
proof (intro conjI)
  have i: "unat (word_of_int i :: u64) = nat i" if "i < 2 ^ 31" "0 \<le> i" for i
  proof -
    have "uint (word_of_int i :: u64) = i" using that by (subst uint_word_of_int_eq) (simp add: take_bit_int_eq_self)
    then show ?thesis by (simp flip: nat_uint_eq)
  qed
  note lt = spec [OF assms(2)]
  show "unat (opt_max_storage_bytes (storage_options c)) = nat (int_of ''max_memory_mb'' c) * 2 ^ 20"
  proof (cases "int_of ''max_memory_mb'' c \<le> 0")
    case False
    have b: "nat (int_of ''max_memory_mb'' c) < 2 ^ 31" using lt [of "''max_memory_mb''"] by simp
    then have "nat (int_of ''max_memory_mb'' c) * 2 ^ 20 < 2 ^ 64" by simp
    with False i [OF lt, of "''max_memory_mb''"] show ?thesis
      by (simp add: storage_options_def unat_word_ariths take_bit_nat_def unat_mult_lem)
  qed (simp add: storage_options_def)
  show "unat (opt_wal_max_queue (storage_options c)) = max 1 (nat (int_of ''wal_max_queue'' c))"
    using i [OF lt, of "''wal_max_queue''"] by (auto simp: storage_options_def max_def)
  show "unat (opt_wal_group_commit_max_mutations (storage_options c)) = nat (int_of ''wal_group_commit_max_mutations'' c)"
    "unat (opt_wal_group_commit_max_bytes (storage_options c)) = nat (int_of ''wal_group_commit_max_bytes'' c)"
    using i [OF lt, of "''wal_group_commit_max_mutations''"] i [OF lt, of "''wal_group_commit_max_bytes''"] assms(1)
    by (simp_all add: storage_options_def validate_def max_def)
  show "policy_name (opt_wal_flush_policy (storage_options c)) = lower (trim (str_of ''wal_flush_policy'' c))"
    using assms(1) by (auto simp: storage_options_def validate_def parseWalFlushPolicyString_def trim_lower policy_name_def Let_def)
qed

text \<open>
  The state of the server around the storage. A thread is there from its start until it is joined; \<open>sl_waits\<close> counts the rounds that the shutdown
  waited for connections.
\<close>

datatype ShutdownPhase = NotStarted | Requested | ThreadsStopped | GracefulDone | Completed

fun phase_value :: "ShutdownPhase \<Rightarrow> int" where
  "phase_value NotStarted = 0"
| "phase_value Requested = 1"
| "phase_value ThreadsStopped = 2"
| "phase_value GracefulDone = 3"
| "phase_value Completed = 4"

record ServerLife =
  sl_running :: bool
  sl_stopping :: bool
  shutdown_phase :: int
  signal_thread :: bool
  ttl_thread :: bool
  stats_thread :: bool
  sl_tcp :: "TcpServer option"
  loop_quit :: bool
  sl_storage :: "Storage2Components option"
  sl_disk :: Disk
  sl_waits :: nat

definition new_ServerLife :: "Disk \<Rightarrow> ServerLife" where
  "new_ServerLife disk = \<lparr>sl_running = False, sl_stopping = False, shutdown_phase = phase_value NotStarted, signal_thread = False, ttl_thread = False,
     stats_thread = False, sl_tcp = None, loop_quit = False, sl_storage = None, sl_disk = disk, sl_waits = 0\<rparr>"

datatype StartError = AlreadyRunning | InvalidConfig | DirectoryException | StorageFailed | NetworkFailed

definition initializeNetwork :: "bool \<Rightarrow> Config \<Rightarrow> TcpServer option" where
  "initializeNetwork constructed c =
     (if constructed then Some (setMaxConnections (int_of ''max_connections'' c) (new_TcpServer ''SunKV'')) else None)"

text \<open>
  \<^verbatim>\<open>Server::start\<close> up to the main loop. The environment tells whether the directories can be created and whether the sockets and loops can be
  constructed.
\<close>

definition Server_start ::
    "WalEnv \<Rightarrow> bool \<Rightarrow> bool \<Rightarrow> bool \<Rightarrow> u64 \<Rightarrow> (nat \<Rightarrow> int) \<Rightarrow> Config \<Rightarrow> ServerLife \<Rightarrow> StartError + ServerLife" where
  "Server_start env data_dir_ok dirs_ok constructed szrec clock c s =
     (if sl_running s then Inl AlreadyRunning
      else if \<not> validate c then Inl InvalidConfig
      else if \<not> data_dir_ok then Inl DirectoryException
      else case initializeStorage env dirs_ok szrec clock c (sl_disk s) of
        None \<Rightarrow> Inl StorageFailed
      | Some (sc, disk) \<Rightarrow>
          (case initializeNetwork constructed c of
             None \<Rightarrow> Inl NetworkFailed
           | Some tcp \<Rightarrow>
               Inr (s\<lparr>sl_storage := Some sc, sl_disk := disk, sl_tcp := Some (ts_start (nat (int_of ''thread_pool_size'' c)) tcp),
                 sl_running := True, sl_stopping := False, stats_thread := bool_of ''enable_periodic_stats_log'' c, ttl_thread := True,
                 signal_thread := True\<rparr>)))"

definition requestStopFromSignal :: "ServerLife \<Rightarrow> ServerLife" where
  "requestStopFromSignal s = s\<lparr>sl_stopping := True, loop_quit := (sl_tcp s \<noteq> None \<or> loop_quit s)\<rparr>"

function advanceShutdown :: "int \<Rightarrow> ServerLife \<Rightarrow> ServerLife" where
  "advanceShutdown target s =
     (if shutdown_phase s < target then advanceShutdown target (s\<lparr>shutdown_phase := shutdown_phase s + 1\<rparr>) else s)"
  by pat_completeness auto
termination
  by (relation "measure (\<lambda>(t, s). nat (t - shutdown_phase s))") auto

declare advanceShutdown.simps [simp del]

text \<open>The loop that waits for the connections to close; \<open>conns i\<close> is the number of connections that round \<open>i\<close> reads.\<close>

function wait_connections :: "(nat \<Rightarrow> nat) \<Rightarrow> nat \<Rightarrow> nat" where
  "wait_connections conns wait_count =
     (if conns wait_count > 0 \<and> wait_count < 300 then wait_connections conns (wait_count + 1) else wait_count)"
  by pat_completeness auto
termination
  by (relation "measure (\<lambda>(conns, n). 300 - n)") auto

declare wait_connections.simps [simp del]

definition gracefulShutdown :: "WalEnv \<Rightarrow> SnapEnv \<Rightarrow> (nat \<Rightarrow> nat) \<Rightarrow> ServerLife \<Rightarrow> ServerLife" where
  "gracefulShutdown env senv conns s =
     (let s = s\<lparr>sl_tcp := map_option ts_stop (sl_tcp s)\<rparr>;
          s = (if sl_tcp s \<noteq> None then s\<lparr>loop_quit := True\<rparr> else s);
          s = s\<lparr>sl_waits := sl_waits s + wait_connections conns 0\<rparr>;
          s = (if ttl_thread s then s\<lparr>ttl_thread := False\<rparr> else s)
      in case sl_storage s of
           None \<Rightarrow> s
         | Some sc \<Rightarrow>
             let (ok, sc, fs) = create_multi_type_snapshot senv sc (disk_snap (sl_disk s));
                 sc = sc\<lparr>sc_orchestrator := map_option (orch_flush env) (sc_orchestrator sc)\<rparr>
             in s\<lparr>sl_storage := Some sc, sl_disk := \<lparr>disk_wal = wal_directory (sc_writer sc) (disk_wal (sl_disk s)), disk_snap = fs\<rparr>\<rparr>)"

definition stopPeriodicSnapshot :: "PersistenceOrchestrator \<Rightarrow> PersistenceOrchestrator" where
  "stopPeriodicSnapshot orch = orch\<lparr>po_snapshot_thread := False\<rparr>"

definition stop_threads :: "ServerLife \<Rightarrow> ServerLife" where
  "stop_threads s = s\<lparr>signal_thread := False, ttl_thread := False, stats_thread := False,
     sl_storage := map_option (\<lambda>sc. sc\<lparr>sc_orchestrator := map_option stopPeriodicSnapshot (sc_orchestrator sc)\<rparr>) (sl_storage s)\<rparr>"

definition Server_stop :: "WalEnv \<Rightarrow> SnapEnv \<Rightarrow> (nat \<Rightarrow> nat) \<Rightarrow> ServerLife \<Rightarrow> ServerLife" where
  "Server_stop env senv conns s =
     (if shutdown_phase s \<ge> phase_value Completed then s
      else let s = advanceShutdown (phase_value Requested) (s\<lparr>sl_stopping := True\<rparr>);
               s = (if shutdown_phase s < phase_value ThreadsStopped then advanceShutdown (phase_value ThreadsStopped) (stop_threads s) else s);
               s = (if shutdown_phase s < phase_value GracefulDone
                    then advanceShutdown (phase_value GracefulDone) (gracefulShutdown env senv conns s) else s)
        in advanceShutdown (phase_value Completed) (s\<lparr>sl_running := False\<rparr>))"

lemma advance_phase: "advanceShutdown t s = s\<lparr>shutdown_phase := max t (shutdown_phase s)\<rparr>"
proof (induction t s rule: advanceShutdown.induct)
  case (1 t s)
  then show ?case by (subst advanceShutdown.simps) (auto simp: max_def)
qed

lemma wait_bound: "wait_count \<le> 300 \<Longrightarrow> wait_connections conns wait_count \<le> 300 \<and>
    (wait_connections conns wait_count < 300 \<longrightarrow> conns (wait_connections conns wait_count) = 0)"
proof (induction conns wait_count rule: wait_connections.induct)
  case (1 conns n)
  then show ?case by (subst (1 2 3) wait_connections.simps) auto
qed

lemma effect_started: "ts_started (conn_effect l c conn s) = ts_started s"
proof -
  have "ts_started (fold (\<lambda>cb s. if cb = CloseCb then removeConnection l c s else s) cbs s) = ts_started s" for cbs s
    by (induction cbs arbitrary: s) (simp_all add: removeConnection_def removeConnectionInLoop_def ts_queue_def)
  then show ?thesis by (simp add: conn_effect_def Let_def)
qed

lemma stop_stopped: "\<not> ts_started (ts_stop s)"
proof -
  have "ts_started (fold (\<lambda>c s. conn_effect 0 c (tcp_forceClose (ts_conn s c)) s) cs s) = ts_started s" for cs s
    by (induction cs arbitrary: s) (simp_all add: effect_started)
  then show ?thesis by (simp add: ts_stop_def Let_def)
qed

text \<open>The final snapshot does not look at the periodic snapshot thread.\<close>

lemma snapshot_stopped:
  "create_multi_type_snapshot senv (sc\<lparr>sc_orchestrator := map_option stopPeriodicSnapshot (sc_orchestrator sc)\<rparr>) fs =
     (case create_multi_type_snapshot senv sc fs of (ok, sc', fs') \<Rightarrow> (ok, sc'\<lparr>sc_orchestrator := map_option stopPeriodicSnapshot (sc_orchestrator sc')\<rparr>, fs'))"
  by (cases "sc_orchestrator sc") (auto simp: create_multi_type_snapshot_def stopPeriodicSnapshot_def Let_def split_beta)

lemma flush_stopped: "po_wal_writer (orch_flush env (stopPeriodicSnapshot orch)) = po_wal_writer (orch_flush env orch)"
  by (simp add: orch_flush_def stopPeriodicSnapshot_def)

lemma graceful_fields [simp]:
  "shutdown_phase (gracefulShutdown env senv conns s) = shutdown_phase s" "signal_thread (gracefulShutdown env senv conns s) = signal_thread s"
  "stats_thread (gracefulShutdown env senv conns s) = stats_thread s" "\<not> ttl_thread (gracefulShutdown env senv conns s)"
  "sl_tcp (gracefulShutdown env senv conns s) = map_option ts_stop (sl_tcp s)"
  "loop_quit (gracefulShutdown env senv conns s) = (sl_tcp s \<noteq> None \<or> loop_quit s)"
  "sl_waits (gracefulShutdown env senv conns s) = sl_waits s + wait_connections conns 0"
  by (cases "sl_storage s"; simp add: gracefulShutdown_def Let_def split_beta)+

lemma graceful_disk:
  assumes "sl_storage s = Some sc" "create_multi_type_snapshot senv sc (disk_snap (sl_disk s)) = (ok, sc', fs)"
  shows "sl_disk (gracefulShutdown env senv conns s) =
    \<lparr>disk_wal = wal_directory (sc_writer (sc'\<lparr>sc_orchestrator := map_option (orch_flush env) (sc_orchestrator sc')\<rparr>)) (disk_wal (sl_disk s)), disk_snap = fs\<rparr>"
  using assms by (simp add: gracefulShutdown_def Let_def)

lemma stop_threads_fields [simp]:
  "shutdown_phase (stop_threads s) = shutdown_phase s" "sl_tcp (stop_threads s) = sl_tcp s" "sl_disk (stop_threads s) = sl_disk s"
  "\<not> signal_thread (stop_threads s)" "\<not> stats_thread (stop_threads s)" "loop_quit (stop_threads s) = loop_quit s" "sl_waits (stop_threads s) = sl_waits s"
  "sl_storage (stop_threads s) =
     map_option (\<lambda>sc. sc\<lparr>sc_orchestrator := map_option stopPeriodicSnapshot (sc_orchestrator sc)\<rparr>) (sl_storage s)"
  by (simp_all add: stop_threads_def)

lemma stop_from_start:
  assumes "shutdown_phase s = 0"
  shows "Server_stop env senv conns s =
    (gracefulShutdown env senv conns ((stop_threads (s\<lparr>sl_stopping := True, shutdown_phase := 1\<rparr>))\<lparr>shutdown_phase := 2\<rparr>))\<lparr>shutdown_phase := 3, sl_running := False\<rparr>\<lparr>shutdown_phase := 4\<rparr>"
  using assms by (simp add: Server_stop_def advance_phase Let_def)


section \<open>Examples\<close>

definition ex_cfg :: "bool \<Rightarrow> Config" where
  "ex_cfg wal = getInstance\<lparr>cfg_values :=
     (map_of member_defaults)(''max_memory_mb'' \<mapsto> IntV 0, ''max_wal_file_size_mb'' \<mapsto> IntV 0, ''enable_wal'' \<mapsto> BoolV wal)\<rparr>"

definition ex_disk :: "Mutation list \<Rightarrow> Disk" where
  "ex_disk L = \<lparr>disk_wal = [(''wal2.bin'', encodeBatch L)], disk_snap = \<lparr>final_file = None, tmp_file = None\<rparr>\<rparr>"

lemma ex_cfg_simps [simp]:
  "int_of ''max_wal_file_size_mb'' (ex_cfg wal) = 0" "int_of ''max_memory_mb'' (ex_cfg wal) = 0" "bool_of ''enable_wal'' (ex_cfg wal) = wal"
  by (simp_all add: ex_cfg_def int_of_def bool_of_def)

lemma ex_clocks: "clock_ok (\<lambda>_. 5)" "clock_ok (\<lambda>_. 7)"
  by (simp_all add: clock_ok_def in_i64_def i64_min_def i64_max_def)

lemma ex_disk_ok: "log_ok L \<Longrightarrow> disk_ok L [] (ex_disk L)"
  by (simp add: disk_ok_def ex_disk_def numbered_def suffix_number_def map_filter_simps)

lemma ex_start:
  assumes "log_ok L"
  shows "\<exists>sc d. initializeStorage ex_env True 400 (\<lambda>_. 5) (ex_cfg wal) (ex_disk L) = Some (sc, d) \<and>
    sc_engine sc = snd (apply_all L (new_engine 400 0 (\<lambda>_. 5)))"
proof -
  have n: "numbered ''wal2.bin'' [(''wal2.bin'', encodeBatch L)] = []" by (simp add: numbered_def suffix_number_def map_filter_simps)
  have r: "readAllMutationsWalChain ''wal2.bin'' [(''wal2.bin'', encodeBatch L)] = Some L"
    using chain_single_file [OF n _ assms] by simp
  have o: "opt_max_storage_bytes (storage_options (ex_cfg wal)) = 0" by (simp add: storage_options_def)
  show ?thesis
    using apply_all_replay [OF log_ok_muts [OF assms], of "new_engine 400 0 (\<lambda>_. 5)"] r
    by (simp add: initializeStorage_def createStorage2_def new_PersistenceOrchestrator_def sc_writer_def wal_directory_def ex_disk_def
        orch_files_def recoverInto_def replay_wal_def new_WalWriter_def open_base_def ex_env_def append_base_def base_content_def tick_def o split_beta Let_def)
qed

lemma ex_set_run:
  "\<forall>r \<in> set (fst (api_run [ApiSet ''k'' ''v''] (new_engine 400 0 (\<lambda>_. 5)))). sr_status r \<noteq> QuotaExceeded"
  "fst (dumpAllLiveRecords (snd (api_run [ApiSet ''k'' ''v''] (new_engine 400 0 (\<lambda>_. 5))))) =
     [(''k'', Record0\<lparr>rec_value := DataValue_str ''v'', expire_at_us := -1, version := 0\<rparr>)]"
  "fst (dumpAllLiveRecords (snd (api_run [ApiSet ''k'' ''v''] (snd (apply_all [mut_del ''k'' 5] (new_engine 400 0 (\<lambda>_. 5))))))) =
     [(''k'', Record0\<lparr>rec_value := DataValue_str ''v'', expire_at_us := -1, version := 0\<rparr>)]"
  by code_simp+

lemma ex_entry_fits: "entry_fits (''k'', Record0\<lparr>rec_value := DataValue_str ''v'', expire_at_us := -1, version := 0\<rparr>)"
  by (simp add: entry_fits_def rec_wf_def rec_fits_def dv_wf_def small_i64 Record0_def DataValue_str_def DataValue0_def
      DataValueCodec_payload_def length_encode)

theorem clean_restart_witness:
  "\<exists>e disk' sc' d'. session ex_env ex_snap_env 400 (\<lambda>_. 5) (ex_cfg True) [False] [ApiSet ''k'' ''v''] (ex_disk []) = Some (e, disk') \<and>
    initializeStorage ex_env True 400 (\<lambda>_. 7) (ex_cfg True) disk' = Some (sc', d') \<and>
    (\<forall>k. eng_view (sc_engine sc') k = eng_view e k \<or>
      eng_view (sc_engine sc') k = None \<and> (\<exists>r n. eng_view e k = Some r \<and> isExpired r ((\<lambda>_ :: nat. 5 :: int) n)))"
proof -
  obtain sc d where i: "initializeStorage ex_env True 400 (\<lambda>_. 5) (ex_cfg True) (ex_disk []) = Some (sc, d)"
    and e: "sc_engine sc = new_engine 400 0 (\<lambda>_. 5)" using ex_start [of "[]" True] by auto
  have r: "rename1_ok ex_snap_env" by (simp add: ex_snap_env_def)
  have m: "\<forall>m \<in> set (run_log [ApiSet ''k'' ''v''] (sc_engine sc)). mut_fits m"
    unfolding e ex_set_log by (simp add: mut_fits_def record_part_def mut_put_def length_encode DataValueCodec_payload_def
        DataValue_str_def DataValue0_def)
  have q: "\<forall>r \<in> set (fst (api_run [ApiSet ''k'' ''v''] (sc_engine sc))). sr_status r \<noteq> QuotaExceeded" using ex_set_run(1) by (simp add: e)
  have f: "\<forall>kv \<in> set (fst (dumpAllLiveRecords (snd (api_run [ApiSet ''k'' ''v''] (sc_engine sc))))). entry_fits kv"
    "length (fst (dumpAllLiveRecords (snd (api_run [ApiSet ''k'' ''v''] (sc_engine sc))))) < 2 ^ 32"
    unfolding e ex_set_run(2) by (simp_all add: ex_entry_fits)
  have w: "bool_of ''enable_wal'' (ex_cfg True)" "int_of ''max_wal_file_size_mb'' (ex_cfg True) \<le> 0" by simp_all
  have d: "disk_ok [] [] (ex_disk [])" by (rule ex_disk_ok) simp
  show ?thesis
    using clean_restart [OF d ex_env_ok r ex_clocks w i q m f, of "[False]"] by blast
qed

theorem stale_log_overrides_snapshot_witness:
  "\<exists>disk' sc' d'. (\<exists>e. session ex_env ex_snap_env 400 (\<lambda>_. 5) (ex_cfg False) [] [ApiSet ''k'' ''v''] (ex_disk [mut_del ''k'' 5]) = Some (e, disk')) \<and>
    initializeStorage ex_env True 400 (\<lambda>_. 7) (ex_cfg False) disk' = Some (sc', d') \<and> eng_view (sc_engine sc') ''k'' = None"
proof -
  have ok: "log_ok [mut_del ''k'' 5]" by (simp add: mut_wf_def mut_ok_def small_i64 mut_fits_def mut_del_def record_part_def)
  obtain sc d where i: "initializeStorage ex_env True 400 (\<lambda>_. 5) (ex_cfg False) (ex_disk [mut_del ''k'' 5]) = Some (sc, d)"
    and e: "sc_engine sc = snd (apply_all [mut_del ''k'' 5] (new_engine 400 0 (\<lambda>_. 5)))" using ex_start [OF ok, of False] by auto
  have r: "rename1_ok ex_snap_env" by (simp add: ex_snap_env_def)
  have f: "\<forall>kv \<in> set (fst (dumpAllLiveRecords (snd (api_run [ApiSet ''k'' ''v''] (sc_engine sc))))). entry_fits kv"
    "length (fst (dumpAllLiveRecords (snd (api_run [ApiSet ''k'' ''v''] (sc_engine sc))))) < 2 ^ 32"
    unfolding e ex_set_run(3) by (simp_all add: ex_entry_fits)
  have t: "touches [mut_del ''k'' 5] ''k''" by (simp add: touches_def mut_ok_def mut_del_def)
  have w: "\<not> bool_of ''enable_wal'' (ex_cfg False)" "int_of ''max_wal_file_size_mb'' (ex_cfg False) \<le> 0" by simp_all
  have "replay [mut_del ''k'' 5] Map.empty ''k'' = None" by (simp add: mut_effect_def mut_del_def)
  then show ?thesis
    using stale_log_overrides_snapshot [OF ex_disk_ok [OF ok] ex_env_ok r ex_clocks w i f t, of "[]"] by metis
qed

lemma ex_cfg_valid: "validate (ex_cfg True)" "int_of key (ex_cfg True) < 2 ^ 31"
proof -
  show "validate (ex_cfg True)"
    by (simp add: validate_def int_of_def bool_of_def str_of_def ex_cfg_def member_defaults_def parse_simps Let_def)
  have "\<forall>(k, v) \<in> set member_defaults. (case v of IntV i \<Rightarrow> i | _ \<Rightarrow> 0) < 2 ^ 31" by (simp add: member_defaults_def)
  then show "int_of key (ex_cfg True) < 2 ^ 31"
    by (auto simp: int_of_def ex_cfg_def split: option.splits CfgValue.splits dest!: map_of_SomeD)
qed

theorem storage_options_faithful_witness: "unat (opt_wal_max_queue (storage_options (ex_cfg True))) = 100000"
proof -
  have "int_of ''wal_max_queue'' (ex_cfg True) = 100000" by (simp add: int_of_def ex_cfg_def member_defaults_def)
  then show ?thesis using storage_options_faithful [OF ex_cfg_valid(1)] ex_cfg_valid(2) by simp
qed


end
