(* ===== verification/Spec2Isabelle.thy ===== *)
theory Spec2Isabelle
  imports Resp_Props Client_Props Timer_Queue Net_Poller Event_Loop Server_Lifecycle
begin

text \<open>
  A verification development for SunKV, a key-value server in C++ that speaks the Redis protocol RESP. All paths below are
  under \<^verbatim>\<open>src/\<close>.

  \<^bold>\<open>The program.\<close> A client (\<^verbatim>\<open>client/\<close>) writes RESP arrays to a socket. On the server, an event loop (\<^verbatim>\<open>network/EventLoop\<close>) waits in
  the poller (\<^verbatim>\<open>network/Poller\<close>) for the channels of the listening socket and of the connections; \<^verbatim>\<open>network/TcpServer\<close> accepts connections
  and spreads them over a pool of loops; \<^verbatim>\<open>network/TcpConnection\<close> reads into and writes from buffers (\<^verbatim>\<open>network/Buffer\<close>). The message
  callback of \<^verbatim>\<open>server/Server.cpp\<close> parses the input of a connection (\<^verbatim>\<open>protocol/RESPParser\<close>), handles transactions and publish/subscribe, and
  hands every command to a handler of \<^verbatim>\<open>server/ArrayCmdDispatch.cpp\<close>. The handlers call the storage interface \<^verbatim>\<open>storage2/api\<close>:
  the engine (\<^verbatim>\<open>storage2/engine\<close>) works on a record store (\<^verbatim>\<open>storage2/backend\<close>) and returns mutations, which a decorator
  (\<^verbatim>\<open>storage2/decorators\<close>) gives to the persistence orchestrator (\<^verbatim>\<open>storage2/persistence\<close>). That writes them to a log, takes snapshots,
  and rebuilds the engine from both at the next start. \<^verbatim>\<open>common/Config\<close> reads the options, \<^verbatim>\<open>common/MemoryPool\<close> keeps buffers.

  \<^bold>\<open>How the code is modelled.\<close> A class is a record with the fields of the class, a method a function on it that returns the new state; a
  failing assertion, an exception or undefined behaviour is \<open>None\<close> or an error value. Fixed-width integers are words or integers with
  the range written out. Objects that the code shares through pointers (connections, channels, timers) are numbers in a heap.
  System calls, clocks and thread schedules are parameters; hypotheses on them are named (\<open>no_failures\<close>, \<open>clock_ok\<close>, \<open>client_link\<close>), and
  every property that has one has a witness on a concrete environment. Code that runs in several threads is a step relation or a list
  of events, one step per critical section.

  \<^bold>\<open>Basics.\<close>
    \<^item> \<open>SunKV_Prelude\<close>: integer types, bytes, strings and numbers as text. \<open>Std_Containers\<close>: \<^verbatim>\<open>std::set\<close> and \<^verbatim>\<open>std::map\<close> as sorted lists, with
      the locales \<open>set_container\<close> and \<open>map_container\<close>. \<open>Step_Systems\<close>: runs of event systems and their invariants.

  \<^bold>\<open>Storage.\<close>
    \<^item> \<open>Data_Model\<close>: \<^verbatim>\<open>DataValue\<close>, \<^verbatim>\<open>Record\<close>, \<^verbatim>\<open>Mutation\<close>, \<^verbatim>\<open>StorageResult\<close>, and the meaning of a mutation log, \<open>replay\<close>.
    \<^item> \<open>Backend\<close>: \<^verbatim>\<open>InMemoryBackend\<close> with its quota; the locale \<open>kv_backend\<close> is the interface \<^verbatim>\<open>IBackend\<close>.
    \<^item> \<open>Engine\<close>: one definition per method of \<^verbatim>\<open>StorageEngine\<close>. \<open>Engine_Inv\<close>: what each call keeps and what its mutations mean.
      \<open>Engine_Spec\<close>: an abstract store with expiration, and the refinement of each call. \<open>Engine_Load\<close>: load, replay, dump.
      \<open>Engine_Props\<close>: refinement and invariant over whole runs, faithfulness of the log, quota and expiration.

  \<^bold>\<open>Persistence.\<close>
    \<^item> \<open>Codec_Base\<close>, \<open>Codecs\<close>: the binary forms, with the locale \<open>wire_format\<close> for a writer and the reader that inverts it.
      \<open>Wal_Reader\<close>, \<open>Wal_Files\<close>: the streaming log reader, the chain of log files, the writer with partial writes and rotation.
      \<open>Snapshot\<close>: snapshot files. \<open>Orchestrator\<close>: group commit, queue, worker and flush as steps, recovery.
    \<^item> \<open>Persist_Lemmas\<close>, \<open>Persist_Props\<close>: end-to-end durability, recovery from a snapshot and the log, what a cut log reads as, no loss
      and order in the queue, round trips; and what goes wrong when a torn log is appended to, when a rotation splits an entry, and when
      flush overtakes the worker.

  \<^bold>\<open>Protocol and server.\<close>
    \<^item> \<open>Resp_Types\<close>, \<open>Resp_Parser\<close>, \<open>Resp_Lemmas\<close>, \<open>Resp_Props\<close>: the RESP values and the incremental parser; round trip, independence of how the
      input is cut, exactly when the parser returns, and its byte count. \<open>Memory_Pool\<close>: the buffer pool.
    \<^item> \<open>Server_State\<close>, \<open>Cmd_Dispatch\<close>, \<open>Server_Loop\<close>: the state of \<^verbatim>\<open>Server\<close>, one definition per command handler with the dispatch table, and
      the message callback with transactions, metrics and background clean-up.
    \<^item> \<open>Server_Frame\<close>, \<open>Server_Effects\<close>, \<open>Server_Inv\<close>: what handlers depend on and change; the locales \<open>data_frame\<close>, \<open>command_frame\<close>,
      \<open>command_inv\<close> and \<open>server_inv\<close> carry a proof about one handler to every command and message.
    \<^item> \<open>Server_Pubsub\<close>, \<open>Server_Log\<close>, \<open>Server_Pipeline\<close>, \<open>Server_Tx\<close>, \<open>Server_Reply\<close>, \<open>Server_Props\<close>: a pipeline of commands is run in order and
      answered in order; each command has exactly one reply; a transaction has the replies and effects of its commands; the
      two subscription tables agree and a message reaches the subscribers; the log the server writes replays to its contents; the waiting
      input is bounded.
    \<^item> \<open>Server_Lifecycle\<close>: the start (options, \<^verbatim>\<open>Factory.cpp\<close>, recovery, network), storage calls with the log written by the caller or the
      worker, \<^verbatim>\<open>Server::stop\<close> and the graceful shutdown. A clean stop followed by a start gives the store back; stopping ends and is
      idempotent; with the log switched off an old log overrides the final snapshot.

  \<^bold>\<open>Network library, client and configuration.\<close>
    \<^item> \<open>Net_Buffer\<close>: the buffer refines a byte queue (locale \<open>byte_queue\<close>). \<open>Tcp_Connection\<close>: a connection with its output
      queue; bytes leave in the order sent. \<open>Tcp_Server\<close>: accepting, the connection table, the loops of the pool and the stop.
    \<^item> \<open>Timer_Queue\<close>, \<open>Net_Poller\<close>, \<open>Event_Loop\<close>: timers and their descriptor, channels and the interest list of the kernel, the task queue
      and the wake-ups of a loop.
    \<^item> \<open>Client_Codec\<close>, \<open>Client_Lib\<close>, \<open>Client_Link\<close>, \<open>Client_Props\<close>: the client library; the locales \<open>reply_stream\<close> and \<open>client_link\<close> say what it needs of
      its socket, and are interpreted on a socket whose other end is the server model, which gives client and server together.
    \<^item> \<open>Config_Model\<close>, \<open>Config_Props\<close>: the options with their sources and priorities, configuration files and arguments.

  \<^bold>\<open>Loops and bounds.\<close> Loops that follow their data are structural recursions. The log writer, the wait of the shutdown and the phase
  counter have termination proofs. The loop of the RESP parser may not end on some inputs; it, the message loop around it and the loops of the
  client that wait for the socket are \<open>partial_function\<close>s on options. A property of \<open>Resp_Props\<close> says exactly when the parser returns, and the
  properties about the server and the client state that they return. No definition uses fuel. Sizes that the code stores in 32 bits
  (lengths in the codecs, the number of records of a snapshot) are hypotheses of the round trips; numbers of rotated log files stay
  below the range of \<^verbatim>\<open>int\<close> by a hypothesis on the length of the log. Counters that only statistics read, and the connection and timer
  numbers, are unbounded.

  \<^bold>\<open>Not modelled.\<close> Logging (\<^verbatim>\<open>network/logger\<close>), which nothing reads. \<^verbatim>\<open>network/Socket\<close> and \<^verbatim>\<open>network/EventLoopThread\<close>, wrappers of system calls and of
  a thread; \<^verbatim>\<open>epoll_wait\<close>, socket options and the spare descriptor of the acceptor. The moments at which files are synchronised: a
  file holds what was written to it, so crashes of the operating system are outside the model, while crashes of the process are
  prefixes of the log. Two group commits that overlap in time: the writer has no lock, and what they leave in the file is not
  determined. Periodic snapshots between the calls of a session. \<^verbatim>\<open>server/main.cpp\<close>, the interactive client
  \<^verbatim>\<open>client/sunkvClient.cpp\<close> and \<^verbatim>\<open>tool/dump_persistent.cpp\<close>, console programs around the modelled parts. The text of the periodic
  report.
\<close>

end
